(* ===== verification/West_Prelude.thy ===== *)
theory West_Prelude
  imports Main "HOL-Library.Word" "HOL-Library.List_Lexorder" "HOL-Library.Char_ord"
    "HOL-Library.Code_Target_Nat"
begin

text \<open>
  What every theory of the development shares: the faults a C++ program can end in
  (a failed \<open>assert\<close>, a thrown exception, a call to \<open>abort\<close>, undefined behaviour), the sequencing of
  operations that can fault, C++ \<open>char\<close> as a signed byte, and generic lemmas on lists.

  A \<open>std::string\<close>, a \<open>std::string_view\<close> and a span of bytes are values of type
  \<^typ>\<open>string\<close>; \<open>size_t\<close> values are natural numbers, with the 64-bit limit
  written out where the code can reach it (parsing a number).
\<close>

unbundle bit_operations_syntax

section \<open>Fact collections\<close>

named_theorems west_simps \<open>defining equations the component proofs rewrite with\<close>
named_theorems west_wf \<open>preservation of the components' well-formedness invariants\<close>

section \<open>Faults\<close>

text \<open>
  An operation that may fail an \<open>assert\<close>, throw or call \<open>abort\<close> returns
  \<open>Inl\<close> with the reason; every other outcome, errors the code reports as values
  included, is \<open>Inr\<close>. Where a caller is modelled as a function that has a result, a callee
  that does not return is the reason \<open>No_return\<close>. An exception has the text it is thrown with;
  a \<open>system_error\<close>, for a failed system call, has the \<open>errno\<close> as well.
\<close>

datatype errno = EAGAIN | EWOULDBLOCK | Other_errno nat

datatype fault =
    Assertion_failed string
  | Exception_thrown string
  | System_error string errno
  | Aborted
  | Undefined_behaviour string
  | No_return

type_synonym 'a faulty = "fault + 'a"

definition and_then :: "'a faulty \<Rightarrow> ('a \<Rightarrow> 'b faulty) \<Rightarrow> 'b faulty" where
  "and_then r f = (case r of Inl e \<Rightarrow> Inl e | Inr x \<Rightarrow> f x)"

lemma and_then_simps [simp]:
  "and_then (Inl e) f = Inl e"
  "and_then (Inr x) f = f x"
  by (simp_all add: and_then_def)

lemma and_then_eq_Inr [simp]:
  "and_then r f = Inr y \<longleftrightarrow> (\<exists>x. r = Inr x \<and> f x = Inr y)"
  by (cases r) simp_all

definition assert_that :: "bool \<Rightarrow> string \<Rightarrow> unit faulty" where
  "assert_that b msg = (if b then Inr () else Inl (Assertion_failed msg))"

lemma assert_that_simps [simp]:
  "assert_that True msg = Inr ()"
  "assert_that False msg = Inl (Assertion_failed msg)"
  by (simp_all add: assert_that_def)

lemma assert_that_eq_Inr [simp]: "assert_that b msg = Inr u \<longleftrightarrow> b"
  by (cases b) simp_all

section \<open>Characters\<close>

text \<open>
  On the targets the program is built for, \<open>char\<close> is a signed byte; in an arithmetic
  or comparison expression it is promoted to \<open>int\<close>. Converting an \<open>int\<close> back to
  \<open>char\<close> keeps the value modulo \<open>2 ^ 8\<close>.
\<close>

abbreviation ascii :: "char \<Rightarrow> nat" where
  "ascii c \<equiv> of_char c"

definition char_val :: "char \<Rightarrow> int" where
  "char_val c = (if ascii c < 128 then int (ascii c) else int (ascii c) - 256)"

definition to_char :: "int \<Rightarrow> char" where
  "to_char k = char_of (nat (k mod 256))"

abbreviation CR :: char where "CR \<equiv> CHR 0x0D"
abbreviation LF :: char where "LF \<equiv> CHR 0x0A"
abbreviation TAB :: char where "TAB \<equiv> CHR 0x09"
abbreviation SP :: char where "SP \<equiv> CHR 0x20"
abbreviation NUL :: char where "NUL \<equiv> CHR 0x00"
abbreviation CRLF :: string where "CRLF \<equiv> [CR, LF]"

lemma ascii_le: "ascii c \<le> 255"
  using nat_of_char_less_256 [of c] by linarith

lemma ascii_eq_iff: "c = d \<longleftrightarrow> ascii c = ascii d"
  by (simp add: of_char_eq_iff)

lemma to_char_char_val [simp]: "to_char (char_val c) = c"
proof -
  have "char_val c mod 256 = int (ascii c)"
    using ascii_le [of c] by (auto simp: char_val_def mod_diff_right_eq [symmetric])
  then show ?thesis by (simp add: to_char_def)
qed

section \<open>Lists\<close>

lemma take_drop_min: "take n xs @ drop n xs = xs"
  by simp

lemma all_takeWhile_all: "list_all P xs \<Longrightarrow> takeWhile P xs = xs"
  by (simp add: list_all_iff takeWhile_eq_all_conv)

lemma list_all_snoc [simp]: "list_all P (xs @ [x]) \<longleftrightarrow> list_all P xs \<and> P x"
  by simp

lemma last_in_list_all: "list_all P xs \<Longrightarrow> xs \<noteq> [] \<Longrightarrow> P (last xs)"
  by (simp add: list_all_iff)

lemma hd_in_list_all: "list_all P xs \<Longrightarrow> xs \<noteq> [] \<Longrightarrow> P (hd xs)"
  by (simp add: list_all_iff)

end
