(* ===== verification/West_Utils.thy ===== *)
theory West_Utils
  imports West_Prelude
begin

text \<open>
  \<^verbatim>\<open>src/lib/utils.hpp\<close>: copying a message into an owned C string
  (\<open>make_unique_cstr\<close>, both overloads) and reading a number (\<open>to_number\<close>), with the
  parts of the standard library they use: \<open>std::from_chars\<close> on an unsigned type and
  \<open>std::to_string\<close>; and \<^verbatim>\<open>src/lib/system_error.hpp\<close>, the exception of a failed system call.
\<close>

section \<open>C strings\<close>

text \<open>
  \<open>make_unique_cstr(char const*)\<close> copies the bytes up to and including the terminating
  zero. The owned C string is the value a reader of it sees: the bytes before the zero.
  A \<open>std::unique_ptr<char[]>\<close> that may be null is an option.
\<close>

definition strlen :: "string \<Rightarrow> nat" where
  "strlen str = length (takeWhile (\<lambda>c. c \<noteq> NUL) str)"

definition make_unique_cstr :: "string \<Rightarrow> string option" where
  "make_unique_cstr str = (let n = strlen str in Some (take n str))"

text \<open>
  \<open>make_unique_cstr(std::string_view)\<close> copies \<open>n + 1\<close> bytes that start at the view's
  first byte, so it also reads the byte after the view. The view is the bytes
  \<open>[off, off + n)\<close> of an object \<open>mem\<close>; a read outside the object has no result.
\<close>

definition make_unique_cstr_sv :: "string \<Rightarrow> nat \<Rightarrow> nat \<Rightarrow> string option" where
  "make_unique_cstr_sv mem off n =
     (if off + (n + 1) \<le> length mem then Some (take (n + 1) (drop off mem)) else None)"

lemma take_strlen: "take (strlen str) str = takeWhile (\<lambda>c. c \<noteq> NUL) str"
  by (simp add: strlen_def takeWhile_eq_take [symmetric])

lemma make_unique_cstr_no_nul [simp]:
  "list_all (\<lambda>c. c \<noteq> NUL) str \<Longrightarrow> make_unique_cstr str = Some str"
  by (simp add: make_unique_cstr_def take_strlen all_takeWhile_all)

section \<open>Errors of the system\<close>

text \<open>
  \<^verbatim>\<open>src/lib/system_error.hpp\<close>: the text of a \<open>system_error\<close> is the message and the
  description that the C library has of the error number, \<open>strerrordesc_np\<close>, a parameter. It
  returns a null pointer for a number that it does not know, and appending that is undefined.
\<close>

definition system_error :: "(errno \<Rightarrow> string option) \<Rightarrow> string \<Rightarrow> errno \<Rightarrow> string faulty" where
  "system_error strerrordesc_np msg err =
     (case strerrordesc_np err of
        None \<Rightarrow> Inl (Undefined_behaviour ''append(nullptr)'')
      | Some description \<Rightarrow> Inr ((msg @ '': '') @ description))"

text \<open>\<open>what\<close> of an exception.\<close>

fun what_text :: "(errno \<Rightarrow> string option) \<Rightarrow> fault \<Rightarrow> string faulty" where
  "what_text strerrordesc_np (Exception_thrown msg) = Inr msg"
| "what_text strerrordesc_np (System_error msg err) = system_error strerrordesc_np msg err"
| "what_text strerrordesc_np e = Inl e"

section \<open>Ending the program\<close>

definition abort :: "'a faulty" where [simp]: "abort = Inl Aborted"

section \<open>Decimal numbers\<close>

definition is_digit :: "char \<Rightarrow> bool" where
  "is_digit c \<longleftrightarrow> 48 \<le> ascii c \<and> ascii c \<le> 57"

definition digit_value :: "char \<Rightarrow> nat" where
  "digit_value c = ascii c - 48"

definition digit_char :: "nat \<Rightarrow> char" where
  "digit_char d = char_of (48 + d)"

definition decimal_value :: "string \<Rightarrow> nat" where
  "decimal_value s = foldl (\<lambda>a c. 10 * a + digit_value c) 0 s"

text \<open>\<open>std::to_string\<close> of a non-negative number.\<close>

fun std_to_string :: "nat \<Rightarrow> string" where
  "std_to_string n =
     (if n < 10 then [digit_char n]
      else std_to_string (n div 10) @ [digit_char (n mod 10)])"

declare std_to_string.simps [simp del]

text \<open>
  \<open>std::from_chars\<close> for an unsigned type of \<open>w\<close> bits, base 10: the longest prefix of
  digits is matched (a sign is not, for an unsigned type). The result is the text from
  the returned pointer on, the error code and the value written.
\<close>

datatype errc = No_errc | Invalid_argument | Result_out_of_range

definition from_chars :: "nat \<Rightarrow> string \<Rightarrow> string \<times> errc \<times> nat" where
  "from_chars w s =
     (let ds = takeWhile is_digit s in
      if ds = [] then (s, Invalid_argument, 0)
      else if decimal_value ds < 2 ^ w
        then (dropWhile is_digit s, No_errc, decimal_value ds)
        else (dropWhile is_digit s, Result_out_of_range, 0))"

definition to_number :: "nat \<Rightarrow> string \<Rightarrow> nat option" where
  "to_number w val =
     (if val = [] then None
      else (case from_chars w val of (ptr, ec, ret) \<Rightarrow>
        if ptr \<noteq> [] \<or> ec = Result_out_of_range then None else Some ret))"

lemma digit_char_is_digit [simp]: "d < 10 \<Longrightarrow> is_digit (digit_char d)"
  by (simp add: is_digit_def digit_char_def)

lemma digit_value_digit_char [simp]: "d < 10 \<Longrightarrow> digit_value (digit_char d) = d"
  by (simp add: digit_value_def digit_char_def)

lemma decimal_value_snoc [simp]:
  "decimal_value (s @ [c]) = 10 * decimal_value s + digit_value c"
  by (simp add: decimal_value_def)

lemma std_to_string_nonempty [simp]: "std_to_string n \<noteq> []"
  by (subst std_to_string.simps) simp

lemma std_to_string_digits [simp]: "list_all is_digit (std_to_string n)"
proof (induction n rule: std_to_string.induct)
  case (1 n)
  then show ?case by (subst std_to_string.simps) simp
qed

lemma decimal_value_std_to_string [simp]: "decimal_value (std_to_string n) = n"
proof (induction n rule: std_to_string.induct)
  case (1 n)
  show ?case
  proof (cases "n < 10")
    case True
    then show ?thesis
      by (subst std_to_string.simps) (simp add: decimal_value_def)
  next
    case False
    with 1 show ?thesis by (subst std_to_string.simps) simp
  qed
qed

lemma to_number_digits:
  "list_all is_digit s \<Longrightarrow>
   to_number w s = (if s \<noteq> [] \<and> decimal_value s < 2 ^ w then Some (decimal_value s) else None)"
  by (simp add: to_number_def from_chars_def Let_def all_takeWhile_all
      dropWhile_eq_Nil_conv list_all_iff)

lemma to_number_not_digits:
  assumes "\<not> list_all is_digit s"
  shows "to_number w s = None"
proof -
  from assms have "dropWhile is_digit s \<noteq> []" by (simp add: dropWhile_eq_Nil_conv list_all_iff)
  with assms show ?thesis by (auto simp: to_number_def from_chars_def Let_def)
qed

text \<open>
  \<open>to_number\<close> accepts exactly the non-empty strings of decimal digits whose value
  fits in the target type, and returns that value: no sign, no leading or trailing
  space, no trailing text, no overflow.
\<close>

theorem to_number_spec:
  "to_number w s = Some n \<longleftrightarrow>
     s \<noteq> [] \<and> list_all is_digit s \<and> decimal_value s < 2 ^ w \<and> n = decimal_value s"
  by (cases "list_all is_digit s") (auto simp: to_number_digits to_number_not_digits)

text \<open>
  A number printed by \<open>std::to_string\<close>, as a Content-Length field holds it, is read
  back by \<open>to_number\<close> whenever it fits in the target type, and refused when it does not.
\<close>

theorem to_number_std_to_string:
  "to_number w (std_to_string n) = (if n < 2 ^ w then Some n else None)"
  by (simp add: to_number_digits)

end
