(* ===== verification/Ordered_Map.thy ===== *)
theory Ordered_Map
  imports West_Prelude
begin

text \<open>
  \<open>std::map\<close> with a three-way comparison of keys, as \<open>field_map\<close>
  (\<^verbatim>\<open>src/lib/http_message_header.hpp\<close>) and \<open>cookie_store\<close>
  (\<^verbatim>\<open>src/lib/http_utils.hpp\<close>) use it: a list of pairs in ascending key order, so that
  iteration (\<open>begin\<close> to \<open>end\<close>) is the list itself. The locale \<open>key_order\<close> is what
  the container asks of a comparison; its lemmas are what the container promises.
\<close>

section \<open>Three-way comparison\<close>

datatype ordering = Less_than | Equal_to | Greater_than

definition three_way :: "'a::linorder \<Rightarrow> 'a \<Rightarrow> ordering" where
  "three_way x y = (if x < y then Less_than else if x = y then Equal_to else Greater_than)"

lemma three_way_eq [simp]:
  "three_way x y = Less_than \<longleftrightarrow> x < y"
  "three_way x y = Equal_to \<longleftrightarrow> x = y"
  "three_way x y = Greater_than \<longleftrightarrow> y < x"
  by (auto simp: three_way_def)

lemma three_way_same [simp]: "three_way x x = Equal_to"
  by simp

section \<open>Operations\<close>

text \<open>
  \<open>emplace\<close> inserts unless an equivalent key is present; the flag says whether it did.
  \<open>om_adjust\<close> writes through the iterator \<open>emplace\<close> returns when it did not.
\<close>

type_synonym ('k, 'v) omap = "('k \<times> 'v) list"

fun om_emplace :: "('k \<Rightarrow> 'k \<Rightarrow> ordering) \<Rightarrow> 'k \<Rightarrow> 'v \<Rightarrow> ('k, 'v) omap \<Rightarrow> ('k, 'v) omap \<times> bool" where
  "om_emplace cmp key v [] = ([(key, v)], True)"
| "om_emplace cmp key v ((k, w) # m) =
     (case cmp key k of
        Less_than \<Rightarrow> ((key, v) # (k, w) # m, True)
      | Equal_to \<Rightarrow> ((k, w) # m, False)
      | Greater_than \<Rightarrow>
          (case om_emplace cmp key v m of (m', inserted) \<Rightarrow> ((k, w) # m', inserted)))"

fun om_adjust :: "('k \<Rightarrow> 'k \<Rightarrow> ordering) \<Rightarrow> 'k \<Rightarrow> ('v \<Rightarrow> 'v) \<Rightarrow> ('k, 'v) omap \<Rightarrow> ('k, 'v) omap" where
  "om_adjust cmp key f [] = []"
| "om_adjust cmp key f ((k, w) # m) =
     (if cmp key k = Equal_to then (k, f w) # m else (k, w) # om_adjust cmp key f m)"

text \<open>\<open>find\<close>, given how a stored key compares with what is looked for.\<close>

fun om_find :: "('k \<Rightarrow> ordering) \<Rightarrow> ('k, 'v) omap \<Rightarrow> 'v option" where
  "om_find cmp_with [] = None"
| "om_find cmp_with ((k, w) # m) = (if cmp_with k = Equal_to then Some w else om_find cmp_with m)"

definition om_ordered :: "('k \<Rightarrow> 'k \<Rightarrow> ordering) \<Rightarrow> ('k, 'v) omap \<Rightarrow> bool" where
  "om_ordered cmp m \<longleftrightarrow> sorted_wrt (\<lambda>x y. cmp (fst x) (fst y) = Less_than) m"

lemma om_ordered_Nil [simp]: "om_ordered cmp []"
  by (simp add: om_ordered_def)

lemma om_ordered_Cons [simp]:
  "om_ordered cmp ((k, w) # m) \<longleftrightarrow> (\<forall>x \<in> set m. cmp k (fst x) = Less_than) \<and> om_ordered cmp m"
  by (auto simp: om_ordered_def)

lemma om_find_SomeD: "om_find c m = Some w \<Longrightarrow> \<exists>k. (k, w) \<in> set m \<and> c k = Equal_to"
  by (induction m) (auto split: if_splits)

lemma om_find_None_iff: "om_find c m = None \<longleftrightarrow> (\<forall>x \<in> set m. c (fst x) \<noteq> Equal_to)"
proof (induction m)
  case (Cons x m)
  then show ?case by (cases x) simp
qed simp

lemma om_emplace_set:
  "om_emplace cmp key v m = (m', inserted) \<Longrightarrow>
   set m' = (if inserted then insert (key, v) (set m) else set m)"
  by (induction cmp key v m arbitrary: m' inserted rule: om_emplace.induct)
     (auto split: ordering.splits prod.splits)

lemma om_emplace_not_inserted: "om_emplace cmp key v m = (m', False) \<Longrightarrow> m' = m"
  by (induction cmp key v m arbitrary: m' rule: om_emplace.induct)
     (auto split: ordering.splits prod.splits)

lemma om_adjust_keys: "map fst (om_adjust cmp key f m) = map fst m"
  by (induction cmp key f m rule: om_adjust.induct) auto

lemma om_ordered_keys: "om_ordered cmp m \<longleftrightarrow> sorted_wrt (\<lambda>x y. cmp x y = Less_than) (map fst m)"
  by (simp add: om_ordered_def sorted_wrt_map)

lemma om_adjust_ordered [west_wf]: "om_ordered cmp m \<Longrightarrow> om_ordered cmp (om_adjust cmp key f m)"
  by (simp add: om_ordered_keys om_adjust_keys)

lemma om_adjust_value:
  "(k, w) \<in> set (om_adjust cmp key f m) \<Longrightarrow>
   (k, w) \<in> set m \<or> (\<exists>u. (k, u) \<in> set m \<and> w = f u)"
  by (induction cmp key f m rule: om_adjust.induct) (auto split: if_splits)

section \<open>The container's contract\<close>

locale key_order =
  fixes cmp :: "'k \<Rightarrow> 'k \<Rightarrow> ordering"
  assumes cmp_refl: "cmp x x = Equal_to"
    and cmp_swap: "cmp x y = Less_than \<longleftrightarrow> cmp y x = Greater_than"
    and cmp_trans: "cmp x y = Less_than \<Longrightarrow> cmp y z = Less_than \<Longrightarrow> cmp x z = Less_than"
    and cmp_equal: "cmp x y = Equal_to \<Longrightarrow> cmp x z = cmp y z"
begin

lemma cmp_sym_equal: "cmp x y = Equal_to \<longleftrightarrow> cmp y x = Equal_to"
  by (metis cmp_equal cmp_refl)

lemma cmp_equal_right: "cmp x y = Equal_to \<Longrightarrow> cmp z x = cmp z y"
  by (metis (full_types) cmp_equal cmp_swap cmp_sym_equal ordering.exhaust)

lemma less_not_equal: "cmp x y = Less_than \<Longrightarrow> cmp y z = Less_than \<Longrightarrow> cmp x z \<noteq> Equal_to"
  by (simp add: cmp_trans)

lemma emplace_ordered:
  "om_ordered cmp m \<Longrightarrow> om_emplace cmp key v m = (m', inserted) \<Longrightarrow> om_ordered cmp m'"
proof (induction m arbitrary: m' inserted)
  case (Cons x m)
  obtain k w where x: "x = (k, w)" by (cases x)
  show ?case
  proof (cases "cmp key k")
    case Less_than
    with Cons.prems x show ?thesis by (fastforce intro: cmp_trans [OF Less_than])
  next
    case Equal_to
    with Cons.prems x show ?thesis by auto
  next
    case Greater_than
    then have "cmp k key = Less_than" by (simp add: cmp_swap)
    moreover obtain m1 i1 where e: "om_emplace cmp key v m = (m1, i1)" by fastforce
    moreover from Cons.prems x have "om_ordered cmp m" by simp
    ultimately show ?thesis
      using Cons.prems Cons.IH [OF _ e] Greater_than x om_emplace_set [OF e] by auto
  qed
qed auto

lemma emplace_find:
  "om_ordered cmp m \<Longrightarrow> om_emplace cmp key v m = (m', inserted) \<Longrightarrow>
   om_find (cmp q) m' = (if inserted \<and> cmp q key = Equal_to then Some v else om_find (cmp q) m)"
proof (induction m arbitrary: m' inserted)
  case Nil
  then show ?case by auto
next
  case (Cons x m)
  obtain k w where x: "x = (k, w)" by (cases x)
  have skip: "cmp q k \<noteq> Equal_to" if "cmp key k \<noteq> Equal_to" "cmp q key = Equal_to"
    using that by (metis cmp_equal)
  obtain m1 i1 where e: "om_emplace cmp key v m = (m1, i1)" by fastforce
  have IH: "om_find (cmp q) m1 =
      (if i1 \<and> cmp q key = Equal_to then Some v else om_find (cmp q) m)"
    using Cons.IH [OF _ e] Cons.prems x by simp
  show ?case
    using Cons.prems x e IH skip by (cases "cmp key k") auto
qed

lemma emplace_inserted_iff:
  "om_ordered cmp m \<Longrightarrow> om_emplace cmp key v m = (m', inserted) \<Longrightarrow>
   inserted \<longleftrightarrow> om_find (cmp key) m = None"
proof (induction m arbitrary: m' inserted)
  case (Cons x m)
  obtain k w where x: "x = (k, w)" by (cases x)
  obtain m1 i1 where e: "om_emplace cmp key v m = (m1, i1)" by fastforce
  show ?case
  proof (cases "cmp key k")
    case Less_than
    with Cons.prems x have "\<forall>y \<in> set m. cmp key (fst y) = Less_than"
      by (auto intro: cmp_trans)
    then have "om_find (cmp key) m = None" by (simp add: om_find_None_iff)
    with Less_than Cons.prems x show ?thesis by auto
  next
    case Equal_to
    with Cons.prems x show ?thesis by auto
  next
    case Greater_than
    with Cons.IH [OF _ e] Cons.prems x e show ?thesis by auto
  qed
qed auto

lemma adjust_find:
  "om_find (cmp q) (om_adjust cmp key f m) =
     (if cmp q key = Equal_to then map_option f (om_find (cmp q) m) else om_find (cmp q) m)"
proof (induction m)
  case (Cons x m)
  obtain k w where x: "x = (k, w)" by (cases x)
  have "cmp q k = Equal_to \<longleftrightarrow> cmp key k = Equal_to" if "cmp q key = Equal_to"
    using cmp_equal [OF that, of k] by simp
  moreover have "cmp q key = Equal_to" if "cmp q k = Equal_to" "cmp key k = Equal_to"
    using that by (metis cmp_equal cmp_sym_equal)
  ultimately show ?case using Cons x by auto
qed simp

end

text \<open>
  A comparison that compares an image of the key in a linear order satisfies the
  contract.
\<close>

locale projected_order =
  fixes proj :: "'k \<Rightarrow> 'o::linorder"
    and cmp :: "'k \<Rightarrow> 'k \<Rightarrow> ordering"
  assumes cmp_proj: "cmp x y = three_way (proj x) (proj y)"
begin

lemma equal_iff_proj: "cmp x y = Equal_to \<longleftrightarrow> proj x = proj y"
  by (simp add: cmp_proj)

end

sublocale projected_order \<subseteq> key_order cmp
  by unfold_locales (auto simp: cmp_proj)

end
