(* ===== verification/Message_Header.thy ===== *)
theory Message_Header
  imports West_Utils Ordered_Map
begin

text \<open>
  \<^verbatim>\<open>src/lib/http_message_header.hpp\<close>, first part: the protocol version packed in
  64 bits and the status codes. The strings and fields of a header are in
  \<open>Header_Fields\<close>.
\<close>

section \<open>Version\<close>

datatype version = Version (m_value: "64 word")

definition mk_version :: "32 word \<Rightarrow> 32 word \<Rightarrow> version" where
  "mk_version major minor = Version (push_bit 32 (ucast major) OR ucast minor)"

definition version_default :: version where
  "version_default = mk_version 0 0"

definition minor :: "version \<Rightarrow> 32 word" where
  "minor v = ucast (m_value v AND 0xffffffff)"

definition major :: "version \<Rightarrow> 32 word" where
  "major v = ucast (drop_bit 32 (m_value v))"

definition set_minor :: "version \<Rightarrow> 32 word \<Rightarrow> version" where
  "set_minor v val = Version ((m_value v AND 0xffffffff00000000) OR ucast val)"

definition set_major :: "version \<Rightarrow> 32 word \<Rightarrow> version" where
  "set_major v val = Version ((m_value v AND 0xffffffff) OR push_bit 32 (ucast val))"

text \<open>
  \<open>operator<=>\<close> is defaulted: versions compare as their packed values. What
  \<open><\<close> and \<open><=\<close> make of it is a linear order.
\<close>

definition version_cmp :: "version \<Rightarrow> version \<Rightarrow> ordering" where
  "version_cmp v w = three_way (m_value v) (m_value w)"

definition version_less :: "version \<Rightarrow> version \<Rightarrow> bool" where
  "version_less v w \<longleftrightarrow> version_cmp v w = Less_than"

instantiation version :: linorder
begin

definition less_eq_version :: "version \<Rightarrow> version \<Rightarrow> bool" where
  "v \<le> w \<longleftrightarrow> version_cmp v w \<noteq> Greater_than"

definition less_version :: "version \<Rightarrow> version \<Rightarrow> bool" where
  "v < w \<longleftrightarrow> version_less v w"

instance
proof
  fix v w :: version
  show "v \<le> w \<Longrightarrow> w \<le> v \<Longrightarrow> v = w"
    by (cases v; cases w) (auto simp: less_eq_version_def version_cmp_def three_way_def split: if_splits)
qed (auto simp: less_eq_version_def less_version_def version_less_def version_cmp_def three_way_def
  split: if_splits)

end

definition version_to_string :: "version \<Rightarrow> string" where
  "version_to_string ver =
     std_to_string (unat (major ver)) @ ''.'' @ std_to_string (unat (minor ver))"

lemma low_mask: "(0xffffffff :: 64 word) = mask 32"
  by (simp add: mask_eq_exp_minus_1)

lemma high_mask: "(0xffffffff00000000 :: 64 word) = NOT (mask 32)"
  by (simp add: mask_eq_exp_minus_1)

lemma bit_version_parts:
  "bit (minor v) n \<longleftrightarrow> n < 32 \<and> bit (m_value v) n"
  "bit (major v) n \<longleftrightarrow> n < 32 \<and> bit (m_value v) (n + 32)"
  unfolding minor_def major_def low_mask
  by (auto simp: bit_simps ac_simps dest: bit_imp_le_length)

lemma bit_m_value:
  "bit (m_value v) n \<longleftrightarrow> (if n < 32 then bit (minor v) n else bit (major v) (n - 32))"
  by (auto simp: bit_version_parts dest: bit_imp_le_length)

lemma version_eqI:
  assumes "major v = major w" and "minor v = minor w"
  shows "v = w"
proof -
  have "m_value v = m_value w"
    by (rule bit_word_eqI) (simp only: bit_m_value assms)
  then show ?thesis by (cases v; cases w) simp
qed

lemma version_parts_mk [simp]:
  "major (mk_version a b) = a" "minor (mk_version a b) = b"
  by (rule bit_word_eqI; auto simp: bit_version_parts mk_version_def bit_simps
      dest: bit_imp_le_length)+

lemma bit_set_parts:
  "bit (m_value (set_minor v b)) n \<longleftrightarrow> (if n < 32 then bit b n else bit (m_value v) n)"
  "bit (m_value (set_major v a)) n \<longleftrightarrow>
     (if n < 32 then bit (m_value v) n else n < 64 \<and> bit a (n - 32))"
  unfolding set_minor_def set_major_def low_mask high_mask
  by (auto simp: bit_simps dest: bit_imp_le_length)

lemma version_parts_set [simp]:
  "major (set_major v a) = a" "minor (set_major v a) = minor v"
  "major (set_minor v b) = major v" "minor (set_minor v b) = b"
  by (rule bit_word_eqI; simp add: bit_version_parts bit_set_parts)+

text \<open>
  C37: the packed version is exactly its two 32-bit parts. The constructor, the getters
  and the setters agree, writing one part keeps the other, and two versions with equal
  parts are equal.
\<close>

theorem version_pack:
  "major (mk_version a b) = a \<and> minor (mk_version a b) = b
   \<and> set_minor (set_major v a) b = mk_version a b
   \<and> minor (set_major v a) = minor v \<and> major (set_minor v b) = major v
   \<and> mk_version (major v) (minor v) = v"
  by (auto intro!: version_eqI)

lemma m_value_sum: "uint (m_value v) = uint (major v) * 2 ^ 32 + uint (minor v)"
proof -
  have "uint (minor v) = take_bit 32 (uint (m_value v))"
    by (rule bit_eqI) (auto simp: bit_version_parts bit_simps)
  moreover have "uint (major v) = drop_bit 32 (uint (m_value v))"
    by (rule bit_eqI) (auto simp: bit_version_parts bit_simps ac_simps dest: bit_imp_le_length)
  ultimately show ?thesis
    by (simp only: take_bit_eq_mod drop_bit_eq_div div_mult_mod_eq)
qed

lemma packed_less_iff:
  fixes a b x y k :: int
  assumes "0 \<le> x" "x < k" "0 \<le> y" "y < k"
  shows "a * k + x < b * k + y \<longleftrightarrow> a < b \<or> (a = b \<and> x < y)"
proof -
  have step: "c * k + u < d * k + v" if "c < d" "u < k" "0 \<le> v" for c d u v :: int
  proof -
    from that have "(c + 1) * k \<le> d * k"
      using assms by (intro mult_right_mono) auto
    with that show ?thesis by (simp add: distrib_right)
  qed
  show ?thesis
    using step [of a b x y] step [of b a y x] assms
    by (cases a b rule: linorder_cases) auto
qed

text \<open>
  Comparing packed versions compares the major part first and the minor part when
  the major parts agree.
\<close>

theorem version_order:
  "version_cmp v w =
    (case three_way (major v) (major w) of Equal_to \<Rightarrow> three_way (minor v) (minor w) | c \<Rightarrow> c)"
proof -
  have b: "0 \<le> uint (minor u)" "uint (minor u) < 2 ^ 32" for u
    using uint_lt2p [of "minor u"] by simp_all
  have less: "m_value x < m_value y \<longleftrightarrow> major x < major y \<or> (major x = major y \<and> minor x < minor y)" for x y
  proof -
    have "m_value x < m_value y \<longleftrightarrow>
        uint (major x) * 2 ^ 32 + uint (minor x) < uint (major y) * 2 ^ 32 + uint (minor y)"
      by (simp only: word_less_def m_value_sum)
    also have "\<dots> \<longleftrightarrow> uint (major x) < uint (major y)
        \<or> (uint (major x) = uint (major y) \<and> uint (minor x) < uint (minor y))"
      by (rule packed_less_iff) (rule b)+
    finally show ?thesis by (simp only: word_less_def word_uint_eq_iff)
  qed
  have eq: "m_value x = m_value y \<longleftrightarrow> major x = major y \<and> minor x = minor y" for x y
    using less [of x y] less [of y x] by (metis linorder_less_linear order_less_irrefl)
  show ?thesis
    unfolding version_cmp_def three_way_def less eq by simp
qed

section \<open>Status codes\<close>

text \<open>The enumerators with a capital letter; \<open>status_value\<close> is the underlying integer.\<close>

datatype (plugins only: size code) status =
    Ok
  | Created
  | Accepted
  | Non_authoritative_information
  | No_content
  | Reset_content
  | Partial_content
  | Multiple_choices
  | Moved_permanently
  | Found
  | See_other
  | Not_modified
  | Temporary_redirect
  | Permanent_redirect
  | Bad_request
  | Unauthorized
  | Payment_required
  | Forbidden
  | Not_found
  | Method_not_allowed
  | Not_acceptable
  | Proxy_authentication_required
  | Request_timeout
  | Conflict
  | Gone
  | Length_required
  | Precondition_failed
  | Request_entity_too_large
  | Request_uri_too_long
  | Unsupported_media_type
  | Requested_range_not_satisfiable
  | Expectation_failed
  | I_am_a_teapot
  | Misdirected_request
  | Unprocessable_content
  | Failed_dependency
  | Too_early
  | Upgrade_required
  | Precondition_required
  | Too_many_requests
  | Request_header_fields_too_large
  | Unavailable_for_legal_reasons
  | Internal_server_error
  | Not_implemented
  | Bad_gateway
  | Service_unavailable
  | Gateway_timeout
  | Http_version_not_supported

fun status_value :: "status \<Rightarrow> int" where
  "status_value Ok = 200"
| "status_value Created = 201"
| "status_value Accepted = 202"
| "status_value Non_authoritative_information = 203"
| "status_value No_content = 204"
| "status_value Reset_content = 205"
| "status_value Partial_content = 206"
| "status_value Multiple_choices = 300"
| "status_value Moved_permanently = 301"
| "status_value Found = 302"
| "status_value See_other = 303"
| "status_value Not_modified = 304"
| "status_value Temporary_redirect = 307"
| "status_value Permanent_redirect = 308"
| "status_value Bad_request = 400"
| "status_value Unauthorized = 401"
| "status_value Payment_required = 402"
| "status_value Forbidden = 403"
| "status_value Not_found = 404"
| "status_value Method_not_allowed = 405"
| "status_value Not_acceptable = 406"
| "status_value Proxy_authentication_required = 407"
| "status_value Request_timeout = 408"
| "status_value Conflict = 409"
| "status_value Gone = 410"
| "status_value Length_required = 411"
| "status_value Precondition_failed = 412"
| "status_value Request_entity_too_large = 413"
| "status_value Request_uri_too_long = 414"
| "status_value Unsupported_media_type = 415"
| "status_value Requested_range_not_satisfiable = 416"
| "status_value Expectation_failed = 417"
| "status_value I_am_a_teapot = 418"
| "status_value Misdirected_request = 421"
| "status_value Unprocessable_content = 422"
| "status_value Failed_dependency = 423"
| "status_value Too_early = 425"
| "status_value Upgrade_required = 426"
| "status_value Precondition_required = 428"
| "status_value Too_many_requests = 429"
| "status_value Request_header_fields_too_large = 431"
| "status_value Unavailable_for_legal_reasons = 451"
| "status_value Internal_server_error = 500"
| "status_value Not_implemented = 501"
| "status_value Bad_gateway = 502"
| "status_value Service_unavailable = 503"
| "status_value Gateway_timeout = 504"
| "status_value Http_version_not_supported = 505"

fun status_to_string :: "status \<Rightarrow> string" where
  "status_to_string Ok = ''Ok''"
| "status_to_string Created = ''Created''"
| "status_to_string Accepted = ''Accepted''"
| "status_to_string Non_authoritative_information = ''Non-authoritative information''"
| "status_to_string No_content = ''No content''"
| "status_to_string Reset_content = ''Reset content''"
| "status_to_string Partial_content = ''Partial content''"
| "status_to_string Multiple_choices = ''Multiple choices''"
| "status_to_string Moved_permanently = ''Moved permanently''"
| "status_to_string Found = ''Found''"
| "status_to_string See_other = ''See other''"
| "status_to_string Not_modified = ''Not modified''"
| "status_to_string Temporary_redirect = ''Temporary redirect''"
| "status_to_string Permanent_redirect = ''Permanent redirect''"
| "status_to_string Bad_request = ''Bad request''"
| "status_to_string Unauthorized = ''Unauthorized''"
| "status_to_string Payment_required = ''Payment required''"
| "status_to_string Forbidden = ''Forbidden''"
| "status_to_string Not_found = ''Not found''"
| "status_to_string Method_not_allowed = ''Method not allowed''"
| "status_to_string Not_acceptable = ''Not acceptable''"
| "status_to_string Proxy_authentication_required = ''Proxy authentication required''"
| "status_to_string Request_timeout = ''Request timeout''"
| "status_to_string Conflict = ''Conflict''"
| "status_to_string Gone = ''Gone''"
| "status_to_string Length_required = ''Length required''"
| "status_to_string Precondition_failed = ''Precondition failed''"
| "status_to_string Request_entity_too_large = ''Request entity too large''"
| "status_to_string Request_uri_too_long = ''Request uri too long''"
| "status_to_string Unsupported_media_type = ''Unsupported media type''"
| "status_to_string Requested_range_not_satisfiable = ''Requested range not satisfiable''"
| "status_to_string Expectation_failed = ''Expectation failed''"
| "status_to_string I_am_a_teapot = ''I am a teapot''"
| "status_to_string Misdirected_request = ''Misdirected request''"
| "status_to_string Unprocessable_content = ''Unprocessable content''"
| "status_to_string Failed_dependency = ''Failed dependency''"
| "status_to_string Too_early = ''Too early''"
| "status_to_string Upgrade_required = ''Upgrade required''"
| "status_to_string Precondition_required = ''Precondition required''"
| "status_to_string Too_many_requests = ''Too many requests''"
| "status_to_string Request_header_fields_too_large = ''Request header fields too large''"
| "status_to_string Unavailable_for_legal_reasons = ''Unavailable for legal reasons''"
| "status_to_string Internal_server_error = ''Internal server error''"
| "status_to_string Not_implemented = ''Not implemented''"
| "status_to_string Bad_gateway = ''Bad gateway''"
| "status_to_string Service_unavailable = ''Service unavailable''"
| "status_to_string Gateway_timeout = ''Gateway timeout''"
| "status_to_string Http_version_not_supported = ''Http version not supported''"

definition is_client_error :: "status \<Rightarrow> bool" where
  "is_client_error val = (status_value val \<ge> 400 \<and> status_value val < 499)"

definition is_error :: "status \<Rightarrow> bool" where
  "is_error val = (status_value val \<ge> 400 \<and> status_value val < 599)"

lemma status_to_string_nonempty [simp]: "status_to_string s \<noteq> []"
  by (cases s) simp_all

lemma status_to_string_no_nul [simp]: "list_all (\<lambda>c. c \<noteq> NUL) (status_to_string s)"
  by (cases s) simp_all

lemma status_value_bounds: "200 \<le> status_value s \<and> status_value s \<le> 505"
  by (cases s) simp_all

end
