(* ===== verification/Header_Fields.thy ===== *)
theory Header_Fields
  imports Message_Header
begin

text \<open>
  \<^verbatim>\<open>src/lib/http_message_header.hpp\<close>, second part: the character classes, the
  validated strings of a header (method, URI, field name, field value), the field map
  ordered by name without regard to case, the request and response headers and their
  Content-Length.
\<close>

section \<open>Character classes\<close>

definition is_delimiter :: "char \<Rightarrow> bool" where
  "is_delimiter ch \<longleftrightarrow> ch = CHR 0x22 \<or> ch = CHR ''('' \<or> ch = CHR '')'' \<or> ch = CHR '','' \<or> ch = CHR ''/''
     \<or> ch = CHR '':'' \<or> ch = CHR '';'' \<or> ch = CHR ''<'' \<or> ch = CHR ''='' \<or> ch = CHR ''>''
     \<or> ch = CHR ''?'' \<or> ch = CHR ''@'' \<or> ch = CHR ''['' \<or> ch = CHR 0x5C \<or> ch = CHR '']''
     \<or> ch = CHR ''{'' \<or> ch = CHR ''}''"

definition is_not_printable :: "char \<Rightarrow> bool" where
  "is_not_printable ch \<longleftrightarrow> (char_val ch \<ge> 0 \<and> char_val ch \<le> char_val SP) \<or> char_val ch = 127"

text \<open>
  \<open>is_printable\<close> is defined by negating a call of itself: it is a function that may not
  return, so its value is an option.
\<close>

partial_function (option) is_printable :: "char \<Rightarrow> bool option" where
  "is_printable ch = Option.bind (is_printable ch) (\<lambda>b. Some (\<not> b))"

definition is_strict_whitespace :: "char \<Rightarrow> bool" where
  "is_strict_whitespace ch \<longleftrightarrow> ch = SP \<or> ch = TAB"

definition is_not_token_char :: "char \<Rightarrow> bool" where
  "is_not_token_char val \<longleftrightarrow>
     (char_val val AND 0x80) \<noteq> 0 \<or> is_delimiter val \<or> is_not_printable val"

definition is_token_char :: "char \<Rightarrow> bool" where
  "is_token_char ch \<longleftrightarrow> \<not> is_not_token_char ch"

definition is_token :: "string \<Rightarrow> bool" where
  "is_token str =
     (if str = [] then False
      else if list_ex is_not_token_char str then False
      else True)"

definition contains_whitespace :: "string \<Rightarrow> bool" where
  "contains_whitespace str = (if list_ex is_not_printable str then True else False)"

text \<open>\<open>std::toupper\<close> in the "C" locale, on an unsigned byte.\<close>

definition toupper :: "char \<Rightarrow> char" where
  "toupper c = (if 97 \<le> ascii c \<and> ascii c \<le> 122 then char_of (ascii c - 32) else c)"

text \<open>
  \<open>stricmp\<close>: \<open>std::lexicographical_compare_three_way\<close> with the bytes compared after
  \<open>toupper\<close>.
\<close>

fun stricmp :: "string \<Rightarrow> string \<Rightarrow> ordering" where
  "stricmp [] [] = Equal_to"
| "stricmp [] (b # bs) = Less_than"
| "stricmp (a # as) [] = Greater_than"
| "stricmp (a # as) (b # bs) =
     (case three_way (ascii (toupper a)) (ascii (toupper b)) of
        Equal_to \<Rightarrow> stricmp as bs
      | c \<Rightarrow> c)"

lemma is_not_printable_iff: "is_not_printable ch \<longleftrightarrow> ascii ch \<le> 32 \<or> ascii ch = 127"
  using ascii_le [of ch] by (auto simp: is_not_printable_def char_val_def)

lemma high_bit_iff: "(char_val c AND 0x80) \<noteq> 0 \<longleftrightarrow> 128 \<le> ascii c"
proof -
  have a: "k AND 128 \<noteq> 0 \<longleftrightarrow> bit k 7" for k :: int
    by (simp add: bit_iff_and_push_bit_not_eq_0 push_bit_of_1)
  have high: "(int (ascii c) - 256) div 128 = - 1" if "128 \<le> ascii c"
    using ascii_le [of c] that by simp
  have "bit (char_val c) 7 \<longleftrightarrow> 128 \<le> ascii c"
    using high by (auto simp: char_val_def bit_iff_odd)
  then show ?thesis by (simp add: a)
qed

lemma is_not_token_char_iff [code]:
  "is_not_token_char ch \<longleftrightarrow>
     128 \<le> ascii ch \<or> is_delimiter ch \<or> ascii ch \<le> 32 \<or> ascii ch = 127"
  by (simp add: is_not_token_char_def high_bit_iff is_not_printable_iff)

lemma not_token_chars [simp]:
  "\<not> is_token_char SP" "\<not> is_token_char TAB" "\<not> is_token_char CR" "\<not> is_token_char LF"
  "\<not> is_token_char CHR '':''" "\<not> is_token_char CHR ''/''"
  by (simp_all add: is_token_char_def is_not_token_char_iff is_delimiter_def)

lemma is_token_char_plain:
  "is_token_char c \<Longrightarrow> c \<noteq> SP \<and> c \<noteq> TAB \<and> c \<noteq> CR \<and> c \<noteq> LF \<and> c \<noteq> CHR '':'' \<and> c \<noteq> CHR ''/''"
  using not_token_chars by blast

lemma stricmp_three_way: "stricmp a b = three_way (map toupper a) (map toupper b)"
proof (induction a b rule: stricmp.induct)
  case (4 a as b bs)
  then show ?case by (auto simp: three_way_def less_char_def split: ordering.split)
qed (simp_all add: three_way_def)

lemma stricmp_equal_iff: "stricmp a b = Equal_to \<longleftrightarrow> map toupper a = map toupper b"
  by (simp add: stricmp_three_way)

text \<open>
  \<open>is_printable\<close> returns for no character: it only calls itself.
\<close>

theorem is_printable_diverges: "is_printable ch = None"
proof (cases "is_printable ch")
  case (Some b)
  then have "Some b = Some (\<not> b)"
    using is_printable.simps [of ch] by simp
  then show ?thesis by simp
qed

section \<open>Validated strings\<close>

text \<open>
  The classes with a private string. \<open>create\<close> takes its argument by rvalue reference
  and moves from it only when it accepts it; the refusal is \<open>None\<close> and the caller's
  string is then as it was.
\<close>

datatype request_method = Request_method (method_value: string)
datatype uri = Uri (uri_value: string)
datatype field_name = Field_name (name_value: string)
datatype field_value = Field_value (value_value: string)

definition method_has_value :: "request_method \<Rightarrow> bool" where
  "method_has_value m \<longleftrightarrow> method_value m \<noteq> []"

definition method_create :: "string \<Rightarrow> request_method option" where
  "method_create str = (if \<not> is_token str then None else Some (Request_method str))"

definition uri_has_value :: "uri \<Rightarrow> bool" where
  "uri_has_value u \<longleftrightarrow> uri_value u \<noteq> []"

definition uri_create :: "string \<Rightarrow> uri option" where
  "uri_create str =
     (if str = [] then None
      else if contains_whitespace str then None
      else Some (Uri str))"

definition field_name_create :: "string \<Rightarrow> field_name option" where
  "field_name_create str = (if \<not> is_token str then None else Some (Field_name str))"

text \<open>
  A field name has two comparisons: \<open>operator<=>\<close> goes through \<open>stricmp\<close>, while
  \<open>operator==\<close> between two field names is defaulted and compares the strings as they are.
  Against a \<open>std::string_view\<close> both go through \<open>stricmp\<close>.
\<close>

definition field_name_cmp :: "field_name \<Rightarrow> field_name \<Rightarrow> ordering" where
  "field_name_cmp a b = stricmp (name_value a) (name_value b)"

definition field_name_cmp_view :: "field_name \<Rightarrow> string \<Rightarrow> ordering" where
  "field_name_cmp_view a val = stricmp (name_value a) val"

definition field_name_eq :: "field_name \<Rightarrow> field_name \<Rightarrow> bool" where
  "field_name_eq a b \<longleftrightarrow> name_value a = name_value b"

definition field_name_eq_view :: "field_name \<Rightarrow> string \<Rightarrow> bool" where
  "field_name_eq_view a val \<longleftrightarrow> field_name_cmp_view a val = Equal_to"

definition field_value_create :: "string \<Rightarrow> field_value option" where
  "field_value_create str =
     (if str = [] then Some (Field_value [])
      else if is_not_printable (hd str) \<or> is_not_printable (last str) then None
      else if list_ex (\<lambda>val. is_not_printable val \<and> \<not> is_strict_whitespace val) str then None
      else Some (Field_value str))"

lemma is_token_iff: "is_token str \<longleftrightarrow> str \<noteq> [] \<and> list_all is_token_char str"
  by (auto simp: is_token_def list_ex_iff list_all_iff is_token_char_def)

text \<open>What the values the parser accepts look like; \<open>create\<close> accepts exactly these.\<close>

definition wf_uri :: "string \<Rightarrow> bool" where
  "wf_uri s \<longleftrightarrow> s \<noteq> [] \<and> list_all (\<lambda>c. \<not> is_not_printable c) s"

definition wf_value :: "string \<Rightarrow> bool" where
  "wf_value s \<longleftrightarrow> s = [] \<or>
     (\<not> is_not_printable (hd s) \<and> \<not> is_not_printable (last s)
      \<and> list_all (\<lambda>c. \<not> is_not_printable c \<or> is_strict_whitespace c) s)"

lemma create_eq_Some [simp]:
  "method_create s = Some m \<longleftrightarrow> is_token s \<and> m = Request_method s"
  "field_name_create s = Some k \<longleftrightarrow> is_token s \<and> k = Field_name s"
  "uri_create s = Some u \<longleftrightarrow> wf_uri s \<and> u = Uri s"
  "field_value_create s = Some v \<longleftrightarrow> wf_value s \<and> v = Field_value s"
  by (auto simp: method_create_def field_name_create_def uri_create_def field_value_create_def
      wf_uri_def wf_value_def contains_whitespace_def list_ex_iff list_all_iff)

lemma create_eq_None [simp]:
  "method_create s = None \<longleftrightarrow> \<not> is_token s"
  "field_name_create s = None \<longleftrightarrow> \<not> is_token s"
  "uri_create s = None \<longleftrightarrow> \<not> wf_uri s"
  "field_value_create s = None \<longleftrightarrow> \<not> wf_value s"
  using create_eq_Some by (metis not_None_eq)+

lemma create_accepts [simp]:
  "is_token s \<Longrightarrow> method_create s = Some (Request_method s)"
  "is_token s \<Longrightarrow> field_name_create s = Some (Field_name s)"
  "wf_uri s \<Longrightarrow> uri_create s = Some (Uri s)"
  "wf_value s \<Longrightarrow> field_value_create s = Some (Field_value s)"
  by simp_all

lemma field_value_create_eq: "field_value_create s = (if wf_value s then Some (Field_value s) else None)"
  using create_eq_Some(4) create_eq_None(4) by (metis (full_types))

lemma wf_value_Nil [simp]: "wf_value []"
  by (simp add: wf_value_def)

interpretation field_order: projected_order "\<lambda>k. map toupper (name_value k)" field_name_cmp
  by unfold_locales (simp add: field_name_cmp_def stricmp_three_way)

text \<open>
  The two comparisons of field names do not agree. Names that differ in case only
  are equivalent for \<open>operator<=>\<close> (and so are the same key of a field map) but not equal
  for \<open>operator==\<close>.
\<close>

theorem field_name_comparisons_disagree:
  "field_name_cmp (Field_name ''Host'') (Field_name ''host'') = Equal_to
   \<and> \<not> field_name_eq (Field_name ''Host'') (Field_name ''host'')
   \<and> field_name_eq_view (Field_name ''Host'') ''host''"
  by (simp add: field_name_cmp_def field_name_eq_def field_name_eq_view_def
      field_name_cmp_view_def stricmp_equal_iff toupper_def)

end
