(* ===== verification/Field_Map.thy ===== *)
theory Field_Map
  imports Header_Fields
begin

text \<open>
  \<^verbatim>\<open>src/lib/http_message_header.hpp\<close>, third part: the field map
  (\<open>std::map<field_name, std::string, std::less<>>\<close>), the request and response headers
  and the Content-Length they announce. The abstract view of a field map is a function
  from names to values that does not see the case of a name.
\<close>

section \<open>Field map\<close>

type_synonym field_map = "(field_name, string) omap"

definition field_map_append :: "field_name \<Rightarrow> field_value \<Rightarrow> field_map \<Rightarrow> field_map" where
  "field_map_append key value m_fields =
     (case om_emplace field_name_cmp key (value_value value) m_fields of (m, inserted) \<Rightarrow>
        if inserted then m
        else if length (value_value value) \<noteq> 0
          then om_adjust field_name_cmp key (\<lambda>val. val @ '', '' @ value_value value) m
          else m)"

definition field_map_append_strings ::
  "string \<Rightarrow> string \<Rightarrow> field_map \<Rightarrow> field_map faulty" where
  "field_map_append_strings key value m_fields =
     (case (field_name_create key, field_value_create value) of
        (Some validated_key, Some validated_value) \<Rightarrow>
          Inr (field_map_append validated_key validated_value m_fields)
      | _ \<Rightarrow> Inl (Exception_thrown
          ''Tried to write an invalid field name or field value to a HTTP header''))"

definition field_map_find :: "string \<Rightarrow> field_map \<Rightarrow> string option" where
  "field_map_find name m_fields = om_find (\<lambda>k. field_name_cmp_view k name) m_fields"

definition field_map_contains :: "string \<Rightarrow> field_map \<Rightarrow> bool" where
  "field_map_contains name m_fields \<longleftrightarrow> field_map_find name m_fields \<noteq> None"

definition field_map_empty :: "field_map \<Rightarrow> bool" where
  "field_map_empty m_fields \<longleftrightarrow> m_fields = []"

text \<open>Well-formed: ascending names, every name a token, every value acceptable.\<close>

definition wf_fields :: "field_map \<Rightarrow> bool" where
  "wf_fields m \<longleftrightarrow> om_ordered field_name_cmp m
     \<and> (\<forall>(k, v) \<in> set m. is_token (name_value k) \<and> wf_value v)"

definition merge_value :: "string option \<Rightarrow> string \<Rightarrow> string" where
  "merge_value old new =
     (case old of None \<Rightarrow> new | Some v \<Rightarrow> if new = [] then v else v @ '', '' @ new)"

lemma field_map_find_cmp:
  "field_map_find name m = om_find (field_name_cmp (Field_name name)) m"
proof -
  have "field_name_cmp_view k name = Equal_to \<longleftrightarrow> field_name_cmp (Field_name name) k = Equal_to" for k
    by (auto simp: field_name_cmp_view_def field_name_cmp_def stricmp_equal_iff)
  then show ?thesis
    by (induction m) (auto simp: field_map_find_def)
qed

lemma field_map_append_ordered [west_wf]:
  "om_ordered field_name_cmp m \<Longrightarrow> om_ordered field_name_cmp (field_map_append k v m)"
  by (auto simp: field_map_append_def split: prod.splits
      intro: om_adjust_ordered field_order.emplace_ordered)

lemma field_map_find_append:
  assumes "om_ordered field_name_cmp m"
  shows "field_map_find name (field_map_append k v m) =
    (if map toupper name = map toupper (name_value k)
     then Some (merge_value (field_map_find name m) (value_value v))
     else field_map_find name m)"
proof -
  obtain m' ins where e: "om_emplace field_name_cmp k (value_value v) m = (m', ins)"
    by fastforce
  let ?q = "Field_name name"
  have f: "om_find (field_name_cmp ?q) m' =
      (if ins \<and> field_name_cmp ?q k = Equal_to then Some (value_value v)
       else om_find (field_name_cmp ?q) m)"
    by (rule field_order.emplace_find [OF assms e])
  have i: "ins \<longleftrightarrow> om_find (field_name_cmp k) m = None"
    by (rule field_order.emplace_inserted_iff [OF assms e])
  have q: "om_find (field_name_cmp ?q) m = om_find (field_name_cmp k) m"
    if "field_name_cmp ?q k = Equal_to"
    using field_order.cmp_equal [OF that] by presburger
  show ?thesis
    using f i q e om_emplace_not_inserted [of field_name_cmp k "value_value v" m m']
    by (cases "om_find (field_name_cmp k) m")
       (auto simp: field_map_append_def field_map_find_cmp merge_value_def
         field_order.adjust_find field_order.equal_iff_proj)
qed

lemma wf_value_merge [west_wf]:
  assumes "wf_value v" and "wf_value w" and "w \<noteq> []"
  shows "wf_value (v @ '', '' @ w)"
  using assms by (cases v) (auto simp: wf_value_def is_strict_whitespace_def is_not_printable_iff)

lemma om_emplace_values:
  "om_emplace cmp k v m = (m', ins) \<Longrightarrow> \<forall>(k, w) \<in> set m. P k w \<Longrightarrow> P k v \<Longrightarrow>
   \<forall>(k, w) \<in> set m'. P k w"
  by (auto simp: om_emplace_set split: if_splits)

lemma wf_fields_append [west_wf]:
  assumes "wf_fields m" and "is_token (name_value k)" and "wf_value (value_value v)"
  shows "wf_fields (field_map_append k v m)"
proof -
  obtain m' ins where e: "om_emplace field_name_cmp k (value_value v) m = (m', ins)"
    by fastforce
  let ?P = "\<lambda>k v. is_token (name_value k) \<and> wf_value v"
  have old: "\<forall>(k, v) \<in> set m. ?P k v" and ord: "om_ordered field_name_cmp m"
    using assms(1) by (simp_all add: wf_fields_def)
  then have new: "\<forall>(k, v) \<in> set m'. ?P k v"
    using om_emplace_values [OF e, of ?P] assms(2,3) by blast
  have "\<forall>(k, v) \<in> set (field_map_append k v m). ?P k v"
    using new assms(3) e
    by (auto simp: field_map_append_def dest!: om_adjust_value
        intro!: wf_value_merge [simplified] split: if_splits)
  with field_map_append_ordered [OF ord] show ?thesis by (simp add: wf_fields_def)
qed

lemma wf_fields_Nil [simp]: "wf_fields []"
  by (simp add: wf_fields_def)

text \<open>
  C32: \<open>append\<close> as the application sees it, through \<open>find\<close>. A valid name and value
  are stored: the name, in any case, now has the new value, joined to an earlier one with
  a comma and a space (an empty value is dropped when there is one already), every other
  name is as it was, and the map stays ordered with valid names and values. An invalid
  name or value throws.
\<close>

theorem field_map_append_spec:
  assumes "wf_fields m"
  shows "case field_map_append_strings key value m of
      Inr m' \<Rightarrow> is_token key \<and> wf_value value \<and> wf_fields m'
        \<and> field_map_find name m' =
            (if map toupper name = map toupper key
             then Some (merge_value (field_map_find name m) value)
             else field_map_find name m)
    | Inl e \<Rightarrow> (\<not> is_token key \<or> \<not> wf_value value) \<and> (\<exists>msg. e = Exception_thrown msg)"
proof (cases "is_token key \<and> wf_value value")
  case True
  then have "field_map_append_strings key value m =
      Inr (field_map_append (Field_name key) (Field_value value) m)"
    by (simp add: field_map_append_strings_def field_name_create_def field_value_create_eq)
  moreover have "om_ordered field_name_cmp m" using assms by (simp add: wf_fields_def)
  ultimately show ?thesis
    using True assms by (simp add: wf_fields_append field_map_find_append)
next
  case False
  then show ?thesis
    by (auto simp: field_map_append_strings_def field_name_create_def field_value_create_eq)
qed

theorem field_map_append_spec_witness:
  "field_map_append_strings ''accept'' ''b'' [(Field_name ''Accept'', ''a'')]
     = Inr [(Field_name ''Accept'', ''a, b'')]
   \<and> field_map_find ''ACCEPT'' [(Field_name ''Accept'', ''a, b'')] = Some ''a, b''"
proof -
  have wf: "wf_fields [(Field_name ''Accept'', ''a'')]"
    by (simp add: wf_fields_def is_token_iff is_token_char_def is_not_token_char_def
        is_delimiter_def is_not_printable_iff char_val_def wf_value_def)
  have eq: "field_map_append_strings ''accept'' ''b'' [(Field_name ''Accept'', ''a'')]
     = Inr [(Field_name ''Accept'', ''a, b'')]"
    by code_simp
  show ?thesis
    using field_map_append_spec [OF wf, of "''accept''" "''b''" "''ACCEPT''"]
    by (simp add: eq) code_simp
qed

section \<open>Headers\<close>

record request_line =
  rl_method :: request_method
  rl_request_target :: uri
  rl_http_version :: version

record request_header =
  req_line :: request_line
  req_fields :: field_map

record status_line =
  sl_http_version :: version
  sl_status_code :: status
  sl_reason_phrase :: string

record response_header =
  resp_status_line :: status_line
  resp_fields :: field_map

text \<open>
  \<open>get_content_length\<close>, once on a field map and once on each kind of header: 0 when
  there is no such field, nothing when its value is not a number that fits in a
  \<open>size_t\<close>.
\<close>

definition get_content_length :: "field_map \<Rightarrow> nat option" where
  "get_content_length flds =
     (case field_map_find ''Content-Length'' flds of
        None \<Rightarrow> Some 0
      | Some v \<Rightarrow> to_number 64 v)"

definition get_content_length_request :: "request_header \<Rightarrow> nat option" where
  "get_content_length_request header = get_content_length (req_fields header)"

definition get_content_length_response :: "response_header \<Rightarrow> nat option" where
  "get_content_length_response header = get_content_length (resp_fields header)"

text \<open>What a value-initialised header holds.\<close>

definition request_header_default :: request_header where
  "request_header_default =
     \<lparr>req_line = \<lparr>rl_method = Request_method [], rl_request_target = Uri [], rl_http_version = version_default\<rparr>,
      req_fields = []\<rparr>"

end
