(* ===== verification/Request_Parser.thy ===== *)
theory Request_Parser
  imports Field_Map
begin

text \<open>
  \<^verbatim>\<open>src/lib/http_request_header_parser.hpp\<close>: the incremental parser of a request
  header, one definition per case of its state switch, the loop over the input and
  \<open>rtrim\<close>. The parser keeps its state between calls, so a header may arrive in pieces of
  any size.
\<close>

section \<open>Definitions\<close>

datatype req_header_parser_error_code =
    Completed
  | More_data_needed
  | Bad_request_method
  | Bad_request_target
  | Wrong_protocol
  | Bad_protocol_version
  | Expected_linefeed
  | Bad_field_name
  | Bad_field_value

fun req_header_parser_error_code_to_string :: "req_header_parser_error_code \<Rightarrow> string" where
  "req_header_parser_error_code_to_string Completed = ''Completed''"
| "req_header_parser_error_code_to_string More_data_needed = ''Header truncated''"
| "req_header_parser_error_code_to_string Bad_request_method = ''Bad request method''"
| "req_header_parser_error_code_to_string Bad_request_target = ''Bad request target''"
| "req_header_parser_error_code_to_string Wrong_protocol = ''Wrong protocol''"
| "req_header_parser_error_code_to_string Bad_protocol_version = ''Bad protocol version''"
| "req_header_parser_error_code_to_string Expected_linefeed = ''Expected linefeed''"
| "req_header_parser_error_code_to_string Bad_field_name = ''Bad field name''"
| "req_header_parser_error_code_to_string Bad_field_value = ''Bad field value''"

definition rtrim :: "string \<Rightarrow> string" where
  "rtrim str = rev (dropWhile is_strict_whitespace (rev str))"

datatype parser_state =
    Req_line_read_method
  | Req_line_read_req_target
  | Req_line_read_protocol_name
  | Req_line_read_protocol_version_major
  | Req_line_read_protocol_version_minor
  | Fields_terminate_at_no_field_name
  | Fields_read_name
  | Fields_skip_ws_before_field_value
  | Fields_read_value
  | Fields_check_continuation
  | Fields_skip_ws_after_newline
  | Expect_linefeed
  | Expect_linefeed_and_return

record request_header_parser =
  m_current_state :: parser_state
  m_state_after_newline :: parser_state
  m_buffer :: string
  m_current_field_name :: string
  m_req_header :: request_header

definition request_header_parser_init :: request_header_parser where
  "request_header_parser_init =
     \<lparr>m_current_state = Req_line_read_method,
      m_state_after_newline = Req_line_read_method,
      m_buffer = [],
      m_current_field_name = [],
      m_req_header = request_header_default\<rparr>"

definition take_result :: "request_header_parser \<Rightarrow> request_header" where
  "take_result p = m_req_header p"

abbreviation update_req_line ::
  "(request_line \<Rightarrow> request_line) \<Rightarrow> request_header_parser \<Rightarrow> request_header_parser" where
  "update_req_line f p \<equiv> p\<lparr>m_req_header := (m_req_header p)\<lparr>req_line := f (req_line (m_req_header p))\<rparr>\<rparr>"

abbreviation append_field ::
  "field_name \<Rightarrow> field_value \<Rightarrow> request_header_parser \<Rightarrow> request_header_parser" where
  "append_field k v p \<equiv>
     p\<lparr>m_req_header := (m_req_header p)\<lparr>req_fields := field_map_append k v (req_fields (m_req_header p))\<rparr>\<rparr>"

text \<open>
  A case of the switch either breaks, and the loop goes on with the new state, or returns
  an error code (\<open>Completed\<close> included).
\<close>

type_synonym parser_step = "request_header_parser \<times> req_header_parser_error_code option"

definition step_read_method :: "request_header_parser \<Rightarrow> char \<Rightarrow> parser_step" where
  "step_read_method p ch_in =
     (if ch_in = SP then
        (case method_create (m_buffer p) of
           Some m \<Rightarrow>
             (update_req_line (\<lambda>l. l\<lparr>rl_method := m\<rparr>) p
                \<lparr>m_current_state := Req_line_read_req_target, m_buffer := []\<rparr>, None)
         | None \<Rightarrow> (p, Some Bad_request_method))
      else (p\<lparr>m_buffer := m_buffer p @ [ch_in]\<rparr>, None))"

definition step_read_req_target :: "request_header_parser \<Rightarrow> char \<Rightarrow> parser_step" where
  "step_read_req_target p ch_in =
     (if ch_in = SP then
        (case uri_create (m_buffer p) of
           Some u \<Rightarrow>
             (update_req_line (\<lambda>l. l\<lparr>rl_request_target := u\<rparr>) p
                \<lparr>m_current_state := Req_line_read_protocol_name, m_buffer := []\<rparr>, None)
         | None \<Rightarrow> (p, Some Bad_request_target))
      else (p\<lparr>m_buffer := m_buffer p @ [ch_in]\<rparr>, None))"

definition step_read_protocol_name :: "request_header_parser \<Rightarrow> char \<Rightarrow> parser_step" where
  "step_read_protocol_name p ch_in =
     (if ch_in = CHR ''/'' then
        (if m_buffer p \<noteq> ''HTTP'' then (p, Some Wrong_protocol)
         else (p\<lparr>m_buffer := [], m_current_state := Req_line_read_protocol_version_major\<rparr>, None))
      else (p\<lparr>m_buffer := m_buffer p @ [ch_in]\<rparr>, None))"

definition step_read_version_major :: "request_header_parser \<Rightarrow> char \<Rightarrow> parser_step" where
  "step_read_version_major p ch_in =
     (if ch_in = CHR ''.'' then
        (case to_number 32 (m_buffer p) of
           Some val \<Rightarrow>
             (update_req_line (\<lambda>l. l\<lparr>rl_http_version := set_major (rl_http_version l) (of_nat val)\<rparr>) p
                \<lparr>m_current_state := Req_line_read_protocol_version_minor, m_buffer := []\<rparr>, None)
         | None \<Rightarrow> (p, Some Bad_protocol_version))
      else (p\<lparr>m_buffer := m_buffer p @ [ch_in]\<rparr>, None))"

definition step_read_version_minor :: "request_header_parser \<Rightarrow> char \<Rightarrow> parser_step" where
  "step_read_version_minor p ch_in =
     (if ch_in = CR then
        (case to_number 32 (m_buffer p) of
           Some val \<Rightarrow>
             (update_req_line (\<lambda>l. l\<lparr>rl_http_version := set_minor (rl_http_version l) (of_nat val)\<rparr>) p
                \<lparr>m_state_after_newline := Fields_terminate_at_no_field_name,
                 m_buffer := [], m_current_state := Expect_linefeed\<rparr>, None)
         | None \<Rightarrow> (p, Some Bad_protocol_version))
      else (p\<lparr>m_buffer := m_buffer p @ [ch_in]\<rparr>, None))"

definition step_expect_linefeed :: "request_header_parser \<Rightarrow> char \<Rightarrow> parser_step" where
  "step_expect_linefeed p ch_in =
     (if ch_in \<noteq> LF then (p, Some Expected_linefeed)
      else (p\<lparr>m_current_state := m_state_after_newline p\<rparr>, None))"

definition step_terminate_at_no_field_name :: "request_header_parser \<Rightarrow> char \<Rightarrow> parser_step" where
  "step_terminate_at_no_field_name p ch_in =
     (if ch_in = CR then (p\<lparr>m_current_state := Expect_linefeed_and_return\<rparr>, None)
      else (p\<lparr>m_buffer := m_buffer p @ [ch_in], m_current_state := Fields_read_name\<rparr>, None))"

definition step_read_name :: "request_header_parser \<Rightarrow> char \<Rightarrow> parser_step" where
  "step_read_name p ch_in =
     (if ch_in = CHR '':'' then
        (p\<lparr>m_current_field_name := m_buffer p, m_buffer := [],
           m_current_state := Fields_skip_ws_before_field_value\<rparr>, None)
      else (p\<lparr>m_buffer := m_buffer p @ [ch_in]\<rparr>, None))"

definition step_skip_ws_before_value ::
  "request_header_parser \<Rightarrow> char \<Rightarrow> parser_step faulty" where
  "step_skip_ws_before_value p ch_in =
     and_then (assert_that (m_buffer p = []) ''m_buffer.empty()'') (\<lambda>_. Inr
       (if ch_in = CR then
          (case field_name_create (m_current_field_name p) of
             None \<Rightarrow> (p, Some Bad_field_name)
           | Some key \<Rightarrow>
               (append_field key (Field_value []) (p\<lparr>m_current_field_name := []\<rparr>)
                  \<lparr>m_state_after_newline := Fields_terminate_at_no_field_name,
                   m_current_state := Expect_linefeed\<rparr>, None))
        else if \<not> is_strict_whitespace ch_in then
          (p\<lparr>m_buffer := m_buffer p @ [ch_in], m_current_state := Fields_read_value\<rparr>, None)
        else (p, None)))"

definition step_read_value :: "request_header_parser \<Rightarrow> char \<Rightarrow> parser_step" where
  "step_read_value p ch_in =
     (if ch_in = CR then
        (p\<lparr>m_state_after_newline := Fields_check_continuation,
           m_current_state := Expect_linefeed\<rparr>, None)
      else (p\<lparr>m_buffer := m_buffer p @ [ch_in]\<rparr>, None))"

definition step_check_continuation :: "request_header_parser \<Rightarrow> char \<Rightarrow> parser_step" where
  "step_check_continuation p ch_in =
     (if ch_in = TAB \<or> ch_in = SP then
        (p\<lparr>m_current_state := Fields_skip_ws_after_newline\<rparr>, None)
      else
        (case field_name_create (m_current_field_name p) of
           None \<Rightarrow> (p, Some Bad_field_name)
         | Some key \<Rightarrow>
             (let p1 = p\<lparr>m_current_field_name := [], m_buffer := rtrim (m_buffer p)\<rparr> in
              case field_value_create (m_buffer p1) of
                None \<Rightarrow> (p1, Some Bad_field_value)
              | Some value \<Rightarrow>
                  (let p2 = (append_field key value p1)\<lparr>m_buffer := []\<rparr> in
                   if ch_in = CR then
                     (p2\<lparr>m_current_state := Expect_linefeed_and_return\<rparr>, None)
                   else
                     (p2\<lparr>m_buffer := m_buffer p2 @ [ch_in],
                         m_current_state := Fields_read_name\<rparr>, None)))))"

definition step_skip_ws_after_newline :: "request_header_parser \<Rightarrow> char \<Rightarrow> parser_step" where
  "step_skip_ws_after_newline p ch_in =
     (if ch_in = CR then
        (p\<lparr>m_state_after_newline := Fields_check_continuation,
           m_current_state := Expect_linefeed\<rparr>, None)
      else if ch_in \<noteq> TAB \<and> ch_in \<noteq> SP then
        (p\<lparr>m_buffer := m_buffer p @ [SP] @ [ch_in], m_current_state := Fields_read_value\<rparr>, None)
      else (p, None))"

definition step_expect_linefeed_and_return :: "request_header_parser \<Rightarrow> char \<Rightarrow> parser_step" where
  "step_expect_linefeed_and_return p ch_in =
     (if ch_in = LF then (p, Some Completed) else (p, Some Expected_linefeed))"

definition parse_step :: "request_header_parser \<Rightarrow> char \<Rightarrow> parser_step faulty" where
  "parse_step p ch_in =
     (case m_current_state p of
        Req_line_read_method \<Rightarrow> Inr (step_read_method p ch_in)
      | Req_line_read_req_target \<Rightarrow> Inr (step_read_req_target p ch_in)
      | Req_line_read_protocol_name \<Rightarrow> Inr (step_read_protocol_name p ch_in)
      | Req_line_read_protocol_version_major \<Rightarrow> Inr (step_read_version_major p ch_in)
      | Req_line_read_protocol_version_minor \<Rightarrow> Inr (step_read_version_minor p ch_in)
      | Expect_linefeed \<Rightarrow> Inr (step_expect_linefeed p ch_in)
      | Fields_terminate_at_no_field_name \<Rightarrow> Inr (step_terminate_at_no_field_name p ch_in)
      | Fields_read_name \<Rightarrow> Inr (step_read_name p ch_in)
      | Fields_skip_ws_before_field_value \<Rightarrow> step_skip_ws_before_value p ch_in
      | Fields_read_value \<Rightarrow> Inr (step_read_value p ch_in)
      | Fields_check_continuation \<Rightarrow> Inr (step_check_continuation p ch_in)
      | Fields_skip_ws_after_newline \<Rightarrow> Inr (step_skip_ws_after_newline p ch_in)
      | Expect_linefeed_and_return \<Rightarrow> Inr (step_expect_linefeed_and_return p ch_in))"

text \<open>
  The loop: the parser afterwards, the input from the returned pointer on, the code.
\<close>

type_synonym parse_result = "request_header_parser \<times> string \<times> req_header_parser_error_code"

fun parse :: "request_header_parser \<Rightarrow> string \<Rightarrow> parse_result faulty" where
  "parse p [] = Inr (p, [], More_data_needed)"
| "parse p (ch_in # input) =
     (case parse_step p ch_in of
        Inl e \<Rightarrow> Inl e
      | Inr (p', None) \<Rightarrow> parse p' input
      | Inr (p', Some ec) \<Rightarrow> Inr (p', input, ec))"

section \<open>The loop\<close>

lemmas step_defs = step_read_method_def step_read_req_target_def step_read_protocol_name_def
  step_read_version_major_def step_read_version_minor_def step_expect_linefeed_def
  step_terminate_at_no_field_name_def step_read_name_def step_skip_ws_before_value_def
  step_read_value_def step_check_continuation_def step_skip_ws_after_newline_def
  step_expect_linefeed_and_return_def

lemma parse_step_not_more_data:
  "parse_step p ch = Inr (p', Some ec) \<Longrightarrow> ec \<noteq> More_data_needed"
  by (auto simp: parse_step_def step_defs Let_def
      split: parser_state.splits if_splits option.splits)

lemma parse_rest_suffix:
  "parse p s = Inr (p', rest, ec) \<Longrightarrow> \<exists>used. s = used @ rest"
proof (induction p s rule: parse.induct)
  case (2 p ch input)
  then show ?case
    by (auto split: sum.splits prod.splits option.splits intro: exI [of _ "ch # _"])
       (metis append_Cons append_Nil)+
qed auto

lemma parse_more_data_iff:
  "parse p s = Inr (p', rest, ec) \<Longrightarrow> ec = More_data_needed \<Longrightarrow> rest = []"
  by (induction p s rule: parse.induct)
     (auto split: sum.splits prod.splits option.splits dest: parse_step_not_more_data)

lemma parse_append:
  "parse p (xs @ ys) =
     (case parse p xs of
        Inl e \<Rightarrow> Inl e
      | Inr (p', rest, ec) \<Rightarrow>
          if ec = More_data_needed then parse p' ys else Inr (p', rest @ ys, ec))"
  by (induction p xs rule: parse.induct)
     (auto split: sum.split prod.split option.split dest: parse_step_not_more_data)

text \<open>
  Feeding the parser piece by piece, as the bytes arrive, for as long as it asks for more.
\<close>

fun parse_pieces :: "request_header_parser \<Rightarrow> string list \<Rightarrow> parse_result faulty" where
  "parse_pieces p [] = Inr (p, [], More_data_needed)"
| "parse_pieces p (s # ss) =
     (case parse p s of
        Inl e \<Rightarrow> Inl e
      | Inr (p', rest, ec) \<Rightarrow>
          if ec = More_data_needed then parse_pieces p' ss
          else Inr (p', rest @ concat ss, ec))"

lemma parse_cut: "parse_pieces p ss = parse p (concat ss)"
proof (induction ss arbitrary: p)
  case (Cons s ss)
  then show ?case by (simp add: parse_append split: sum.split)
qed simp

text \<open>
  C14: the parser does not depend on how the bytes of a header are cut into pieces. However
  the same bytes are cut, in two ways, the parser afterwards, its verdict and the bytes it
  leaves unread are the same; one call with all of them is one of the ways.
\<close>

theorem parse_pieces_concat: "parse_pieces p ss = parse p (concat ss)"
  by (rule parse_cut)

section \<open>Invariant\<close>

definition wf_request_header :: "request_header \<Rightarrow> bool" where
  "wf_request_header h \<longleftrightarrow>
     is_token (method_value (rl_method (req_line h)))
     \<and> wf_uri (uri_value (rl_request_target (req_line h)))
     \<and> wf_fields (req_fields h)"

definition reading_fields :: "parser_state \<Rightarrow> bool" where
  "reading_fields st \<longleftrightarrow> st \<notin> {Req_line_read_method, Req_line_read_req_target}"

definition expects_empty_buffer :: "request_header_parser \<Rightarrow> bool" where
  "expects_empty_buffer p \<longleftrightarrow>
     m_current_state p \<in> {Fields_skip_ws_before_field_value, Fields_terminate_at_no_field_name}
     \<or> m_current_state p = Expect_linefeed
        \<and> m_state_after_newline p = Fields_terminate_at_no_field_name"

definition parser_inv :: "request_header_parser \<Rightarrow> bool" where
  "parser_inv p \<longleftrightarrow>
     wf_fields (req_fields (m_req_header p))
     \<and> (expects_empty_buffer p \<longrightarrow> m_buffer p = [])
     \<and> (m_current_state p = Expect_linefeed \<longrightarrow>
          m_state_after_newline p \<in> {Fields_terminate_at_no_field_name, Fields_check_continuation})
     \<and> (m_current_state p \<noteq> Req_line_read_method \<longrightarrow>
          is_token (method_value (rl_method (req_line (m_req_header p)))))
     \<and> (reading_fields (m_current_state p) \<longrightarrow>
          wf_uri (uri_value (rl_request_target (req_line (m_req_header p)))))"

lemma parser_inv_init [west_wf]: "parser_inv request_header_parser_init"
  by (simp add: parser_inv_def request_header_parser_init_def request_header_default_def
      expects_empty_buffer_def reading_fields_def)

lemmas parser_inv_defs = parser_inv_def expects_empty_buffer_def reading_fields_def

lemma parse_step_inv [west_wf]:
  assumes "parser_inv p"
  shows "\<exists>p' r. parse_step p ch = Inr (p', r) \<and> (r = None \<longrightarrow> parser_inv p')"
  using assms
  by (cases "m_current_state p")
     (auto simp: parse_step_def step_defs parser_inv_defs Let_def wf_fields_append
       split: option.split)

lemma parse_step_completed:
  "parser_inv p \<Longrightarrow> parse_step p ch = Inr (p', Some Completed) \<Longrightarrow>
     p' = p \<and> ch = LF \<and> m_current_state p = Expect_linefeed_and_return"
  by (auto simp: parse_step_def step_defs Let_def
      split: parser_state.splits if_splits option.splits)

lemma parse_inv_total:
  assumes "parser_inv p"
  shows "\<exists>p' rest ec. parse p s = Inr (p', rest, ec)
    \<and> (ec = More_data_needed \<longrightarrow> parser_inv p')
    \<and> (ec = Completed \<longrightarrow> wf_request_header (m_req_header p'))"
  using assms
proof (induction p s rule: parse.induct)
  case (1 p)
  then show ?case by simp
next
  case (2 p ch input)
  from parse_step_inv [OF 2(2), of ch] obtain p1 r
    where step: "parse_step p ch = Inr (p1, r)" and inv: "r = None \<longrightarrow> parser_inv p1"
    by blast
  show ?case
  proof (cases r)
    case None
    with 2(1) [OF step] inv show ?thesis by (simp add: step)
  next
    case (Some ec)
    have "wf_request_header (m_req_header p1)" if "ec = Completed"
      using parse_step_completed [OF 2(2), of ch p1] 2(2) step Some that
      by (auto simp: wf_request_header_def parser_inv_defs)
    with Some parse_step_not_more_data [of p ch p1 ec] show ?thesis by (auto simp: step)
  qed
qed

text \<open>
  C15: a fresh parser given any input, in one piece or in several, never fails the
  assertion on its buffer; it stops with a code, and a header it reports as completed has
  a token for its method, a target without control characters or spaces, and valid fields
  in order. Whenever it asks for more data it has consumed all it was given and is still
  in a state that satisfies the invariant.
\<close>

theorem parser_safe:
  assumes "parser_inv p"
  shows "\<exists>p' rest ec. parse p s = Inr (p', rest, ec)
    \<and> (\<exists>used. s = used @ rest)
    \<and> (ec = More_data_needed \<longrightarrow> rest = [] \<and> parser_inv p')
    \<and> (ec = Completed \<longrightarrow> wf_request_header (take_result p'))"
  using parse_inv_total [OF assms, of s] parse_rest_suffix [of p s] parse_more_data_iff [of p s]
  by (auto simp: take_result_def)

theorem parser_safe_witness:
  "parser_inv request_header_parser_init
   \<and> (\<exists>p' rest ec. parse request_header_parser_init ''GET /'' = Inr (p', rest, ec)
    \<and> (\<exists>used. ''GET /'' = used @ rest)
    \<and> (ec = More_data_needed \<longrightarrow> rest = [] \<and> parser_inv p')
    \<and> (ec = Completed \<longrightarrow> wf_request_header (take_result p')))"
  using parser_safe [OF parser_inv_init, of "''GET /''"] parser_inv_init by simp

section \<open>Round trip\<close>

definition field_text :: "field_name \<times> string \<Rightarrow> string" where
  "field_text kv = name_value (fst kv) @ '': '' @ snd kv @ CRLF"

definition request_text :: "request_header \<Rightarrow> string" where
  "request_text h =
     method_value (rl_method (req_line h)) @ '' '' @ uri_value (rl_request_target (req_line h))
     @ '' HTTP/'' @ version_to_string (rl_http_version (req_line h)) @ CRLF
     @ concat (map field_text (req_fields h)) @ CRLF"

text \<open>A run of characters a state only appends to the buffer.\<close>

lemma parse_accumulate:
  assumes "\<And>q c. c \<in> set cs \<Longrightarrow> m_current_state q = st \<Longrightarrow>
      parse_step q c = Inr (q\<lparr>m_buffer := m_buffer q @ [c]\<rparr>, None)"
    and "m_current_state p = st"
  shows "parse p (cs @ rest) = parse (p\<lparr>m_buffer := m_buffer p @ cs\<rparr>) rest"
  using assms
proof (induction cs arbitrary: p)
  case (Cons c cs)
  from Cons.prems have "parse p ((c # cs) @ rest) =
      parse (p\<lparr>m_buffer := m_buffer p @ [c]\<rparr>) (cs @ rest)"
    by simp
  also have "\<dots> = parse (p\<lparr>m_buffer := m_buffer p @ (c # cs)\<rparr>) rest"
    using Cons.IH [of "p\<lparr>m_buffer := m_buffer p @ [c]\<rparr>"] Cons.prems by simp
  finally show ?case .
qed simp

lemma digit_plain: "is_digit c \<Longrightarrow> c \<noteq> CHR ''.'' \<and> c \<noteq> CR"
  by (auto simp: is_digit_def)

lemma printable_plain: "\<not> is_not_printable c \<Longrightarrow> c \<noteq> SP \<and> c \<noteq> CR"
  by (auto simp: is_not_printable_iff)

lemma value_char_plain: "\<not> is_not_printable c \<or> is_strict_whitespace c \<Longrightarrow> c \<noteq> CR"
  by (auto simp: is_not_printable_iff is_strict_whitespace_def)

lemma of_nat_unat_version [simp]:
  "to_number 32 (std_to_string (unat (w :: 32 word))) = Some (unat w)"
  using unsigned_less [of w] by (simp add: to_number_digits)

lemma std_to_string_plain: "c \<in> set (std_to_string n) \<Longrightarrow> c \<noteq> CHR ''.'' \<and> c \<noteq> CR"
  using std_to_string_digits [of n] by (auto simp: list_all_iff dest: digit_plain)

text \<open>The request line.\<close>

lemma parse_request_line:
  assumes m: "is_token m" and u: "wf_uri u"
  shows "parse request_header_parser_init
     (m @ '' '' @ u @ '' HTTP/'' @ version_to_string v @ CRLF @ rest) =
   parse \<lparr>m_current_state = Fields_terminate_at_no_field_name,
      m_state_after_newline = Fields_terminate_at_no_field_name, m_buffer = [],
      m_current_field_name = [],
      m_req_header = \<lparr>req_line = \<lparr>rl_method = Request_method m, rl_request_target = Uri u,
         rl_http_version = v\<rparr>, req_fields = []\<rparr>\<rparr> rest"
proof -
  let ?init = request_header_parser_init
  let ?h = "\<lambda>m u v. \<lparr>req_line = \<lparr>rl_method = Request_method m, rl_request_target = Uri u,
       rl_http_version = v\<rparr>, req_fields = []\<rparr>"
  let ?p = "\<lambda>st an b h. \<lparr>m_current_state = st, m_state_after_newline = an, m_buffer = b,
      m_current_field_name = [], m_req_header = h\<rparr>"
  have init: "?init = ?p Req_line_read_method Req_line_read_method [] (?h [] [] version_default)"
    by (simp add: request_header_parser_init_def request_header_default_def)
  have mc: "\<forall>c \<in> set m. c \<noteq> SP" and uc: "\<forall>c \<in> set u. c \<noteq> SP"
    using m u by (auto simp: is_token_iff list_all_iff wf_uri_def dest: is_token_char_plain printable_plain)
  have 1: "parse ?init (m @ '' '' @ r) =
      parse (?p Req_line_read_req_target Req_line_read_method [] (?h m [] version_default)) r" for r
    unfolding init
    by (subst parse_accumulate [where st = Req_line_read_method])
       (use mc m in \<open>auto simp: parse_step_def step_read_method_def\<close>)
  have 2: "parse (?p Req_line_read_req_target Req_line_read_method [] (?h m [] version_default)) (u @ '' '' @ r) =
      parse (?p Req_line_read_protocol_name Req_line_read_method [] (?h m u version_default)) r" for r
    by (subst parse_accumulate [where st = Req_line_read_req_target])
       (use uc u in \<open>auto simp: parse_step_def step_read_req_target_def\<close>)
  have 3: "parse (?p Req_line_read_protocol_name Req_line_read_method [] (?h m u version_default)) (''HTTP/'' @ r) =
      parse (?p Req_line_read_protocol_version_major Req_line_read_method [] (?h m u version_default)) r" for r
    by (simp add: parse_step_def step_read_protocol_name_def)
  have 4: "parse (?p Req_line_read_protocol_version_major Req_line_read_method [] (?h m u version_default))
        (std_to_string (unat (major v)) @ ''.'' @ r) =
      parse (?p Req_line_read_protocol_version_minor Req_line_read_method []
        (?h m u (set_major version_default (major v)))) r" for r
    by (subst parse_accumulate [where st = Req_line_read_protocol_version_major])
       (auto simp: parse_step_def step_read_version_major_def dest: std_to_string_plain)
  have 5: "parse (?p Req_line_read_protocol_version_minor Req_line_read_method []
        (?h m u (set_major version_default (major v)))) (std_to_string (unat (minor v)) @ CRLF @ r) =
      parse (?p Fields_terminate_at_no_field_name Fields_terminate_at_no_field_name []
        (?h m u v)) r" for r
    by (subst parse_accumulate [where st = Req_line_read_protocol_version_minor])
       (auto simp: parse_step_def step_read_version_minor_def step_expect_linefeed_def
         dest: std_to_string_plain intro!: arg_cong2 [where f = parse] version_eqI)
  show ?thesis
    using 1 [of "u @ '' HTTP/'' @ version_to_string v @ CRLF @ rest"]
      2 [of "''HTTP/'' @ version_to_string v @ CRLF @ rest"] 3 [of "version_to_string v @ CRLF @ rest"]
      4 [of "std_to_string (unat (minor v)) @ CRLF @ rest"] 5 [of rest]
    by (simp add: version_to_string_def)
qed

text \<open>
  The fields. After a field the parser is in one of two states: at the start of a line
  with nothing pending (after an empty value), or about to see whether the value is
  continued, with the field still pending.
\<close>

definition append_pair :: "field_name \<times> string \<Rightarrow> field_map \<Rightarrow> field_map" where
  "append_pair kv m = field_map_append (fst kv) (Field_value (snd kv)) m"

inductive at_line :: "field_map \<Rightarrow> request_line \<Rightarrow> request_header_parser \<Rightarrow> bool" where
  nothing_pending: "m_current_state p = Fields_terminate_at_no_field_name \<Longrightarrow> m_buffer p = [] \<Longrightarrow>
     m_req_header p = \<lparr>req_line = l, req_fields = m\<rparr> \<Longrightarrow> at_line m l p"
| value_pending: "m_current_state p = Fields_check_continuation \<Longrightarrow>
     is_token (m_current_field_name p) \<Longrightarrow> wf_value (m_buffer p) \<Longrightarrow>
     m_req_header p = \<lparr>req_line = l, req_fields = m0\<rparr> \<Longrightarrow>
     m = append_pair (Field_name (m_current_field_name p), m_buffer p) m0 \<Longrightarrow> at_line m l p"

lemma rtrim_wf_value: "wf_value v \<Longrightarrow> rtrim v = v"
  by (cases v rule: rev_cases) (auto simp: rtrim_def wf_value_def is_strict_whitespace_def is_not_printable_iff)

lemma at_line_end:
  assumes "at_line m l p"
  shows "\<exists>p'. parse p (CRLF @ rest) = Inr (p', rest, Completed)
    \<and> m_req_header p' = \<lparr>req_line = l, req_fields = m\<rparr>"
  using assms
  by cases (auto simp: parse_step_def step_defs Let_def rtrim_wf_value append_pair_def)

lemma at_line_name:
  assumes "at_line m l p" and "is_token name"
  shows "\<exists>an. parse p (name @ '':'' @ rest) =
    parse \<lparr>m_current_state = Fields_skip_ws_before_field_value, m_state_after_newline = an,
      m_buffer = [], m_current_field_name = name,
      m_req_header = \<lparr>req_line = l, req_fields = m\<rparr>\<rparr> rest"
proof -
  from assms(2) obtain c cs where name: "name = c # cs"
    and c: "is_token_char c" and cs: "\<forall>d \<in> set cs. d \<noteq> CHR '':''"
    by (cases name) (auto simp: is_token_iff list_all_iff dest: is_token_char_plain)
  have "\<exists>an fn. parse p (name @ '':'' @ rest) =
    parse \<lparr>m_current_state = Fields_read_name, m_state_after_newline = an, m_buffer = [c],
      m_current_field_name = fn, m_req_header = \<lparr>req_line = l, req_fields = m\<rparr>\<rparr> (cs @ '':'' @ rest)"
    using assms(1)
    by cases (use is_token_char_plain [OF c] in
        \<open>auto simp: name parse_step_def step_defs Let_def rtrim_wf_value append_pair_def
          intro!: exI arg_cong2 [where f = parse] request_header_parser.equality\<close>)
  then obtain an fn where "parse p (name @ '':'' @ rest) =
    parse \<lparr>m_current_state = Fields_read_name, m_state_after_newline = an, m_buffer = [c],
      m_current_field_name = fn, m_req_header = \<lparr>req_line = l, req_fields = m\<rparr>\<rparr> (cs @ '':'' @ rest)"
    by blast
  moreover have "parse \<lparr>m_current_state = Fields_read_name, m_state_after_newline = an, m_buffer = [c],
      m_current_field_name = fn, m_req_header = h\<rparr> (cs @ '':'' @ rest) =
    parse \<lparr>m_current_state = Fields_skip_ws_before_field_value, m_state_after_newline = an,
      m_buffer = [], m_current_field_name = name, m_req_header = h\<rparr> rest" for h
    by (subst parse_accumulate [where st = Fields_read_name])
       (use cs in \<open>auto simp: name parse_step_def step_read_name_def\<close>)
  ultimately show ?thesis by auto
qed

lemma at_line_value:
  assumes "is_token name" and "wf_value v"
    and p: "p = \<lparr>m_current_state = Fields_skip_ws_before_field_value, m_state_after_newline = an,
      m_buffer = [], m_current_field_name = name,
      m_req_header = \<lparr>req_line = l, req_fields = m\<rparr>\<rparr>"
  shows "\<exists>p'. parse p ('' '' @ v @ CRLF @ rest) = parse p' rest
    \<and> at_line (append_pair (Field_name name, v) m) l p'"
proof (cases v)
  case Nil
  have "parse p ('' '' @ v @ CRLF @ rest) =
      parse \<lparr>m_current_state = Fields_terminate_at_no_field_name,
        m_state_after_newline = Fields_terminate_at_no_field_name, m_buffer = [],
        m_current_field_name = [],
        m_req_header = \<lparr>req_line = l, req_fields = append_pair (Field_name name, v) m\<rparr>\<rparr> rest"
    using assms(1)
    by (simp add: p Nil parse_step_def step_defs is_strict_whitespace_def append_pair_def)
  then show ?thesis by (intro exI conjI) (assumption, rule nothing_pending, simp_all)
next
  case (Cons c cs)
  have c: "\<not> is_strict_whitespace c" "c \<noteq> CR" and cs: "\<forall>d \<in> set cs. d \<noteq> CR"
    using assms(2) Cons
    by (auto simp: wf_value_def is_strict_whitespace_def is_not_printable_iff list_all_iff)
  have "parse p ('' '' @ v @ CRLF @ rest) =
      parse (p\<lparr>m_current_state := Fields_read_value, m_buffer := [c]\<rparr>) (cs @ CRLF @ rest)"
    using c by (simp add: p Cons parse_step_def step_defs is_strict_whitespace_def)
  also have "\<dots> = parse (p\<lparr>m_current_state := Fields_check_continuation,
      m_state_after_newline := Fields_check_continuation, m_buffer := v\<rparr>) rest"
    by (subst parse_accumulate [where st = Fields_read_value])
       (use cs in \<open>auto simp: p Cons parse_step_def step_defs\<close>)
  finally show ?thesis
    by (intro exI conjI) (assumption, rule value_pending, use assms(1,2) in \<open>simp_all add: p\<close>)
qed

lemma parse_fields:
  assumes "at_line m l p"
    and "\<forall>(k, v) \<in> set fs. is_token (name_value k) \<and> wf_value v"
  shows "\<exists>p'. parse p (concat (map field_text fs) @ CRLF @ rest) = Inr (p', rest, Completed)
    \<and> m_req_header p' = \<lparr>req_line = l, req_fields = fold append_pair fs m\<rparr>"
  using assms
proof (induction fs arbitrary: m p)
  case Nil
  then show ?case using at_line_end [of m l p rest] by simp
next
  case (Cons kv fs)
  obtain k v where kv: "kv = (k, v)" by (cases kv)
  with Cons.prems have k: "is_token (name_value k)" and v: "wf_value v" by simp_all
  let ?more = "concat (map field_text fs) @ CRLF @ rest"
  obtain an where "parse p (name_value k @ '':'' @ ('' '' @ v @ CRLF @ ?more)) =
      parse \<lparr>m_current_state = Fields_skip_ws_before_field_value, m_state_after_newline = an,
        m_buffer = [], m_current_field_name = name_value k,
        m_req_header = \<lparr>req_line = l, req_fields = m\<rparr>\<rparr> ('' '' @ v @ CRLF @ ?more)"
    using at_line_name [OF Cons.prems(1) k] by blast
  moreover obtain p1 where "parse \<lparr>m_current_state = Fields_skip_ws_before_field_value, m_state_after_newline = an,
        m_buffer = [], m_current_field_name = name_value k,
        m_req_header = \<lparr>req_line = l, req_fields = m\<rparr>\<rparr> ('' '' @ v @ CRLF @ ?more) = parse p1 ?more"
    and at: "at_line (append_pair (Field_name (name_value k), v) m) l p1"
    using at_line_value [OF k v refl] by blast
  ultimately have step: "parse p (concat (map field_text (kv # fs)) @ CRLF @ rest) = parse p1 ?more"
    by (simp add: kv field_text_def)
  from Cons.IH [OF at] Cons.prems(2) show ?case
    unfolding step by (simp add: kv)
qed

lemma emplace_last:
  "om_ordered cmp (m @ [(k, v)]) \<Longrightarrow> (\<And>x y. cmp x y = Less_than \<longleftrightarrow> cmp y x = Greater_than) \<Longrightarrow>
   om_emplace cmp k v m = (m @ [(k, v)], True)"
  by (induction m) (auto simp: om_ordered_def)

lemma fold_append_ordered:
  "om_ordered field_name_cmp (m @ fs) \<Longrightarrow> fold append_pair fs m = m @ fs"
proof (induction fs arbitrary: m)
  case (Cons kv fs)
  obtain k v where kv: "kv = (k, v)" by (cases kv)
  have "om_ordered field_name_cmp (m @ [(k, v)])"
    using Cons.prems by (auto simp: kv om_ordered_def sorted_wrt_append)
  then have "append_pair kv m = m @ [kv]"
    by (simp add: kv append_pair_def field_map_append_def emplace_last field_order.cmp_swap)
  with Cons show ?case by simp
qed simp

lemma parse_text:
  assumes "wf_request_header h"
  shows "\<exists>p'. parse request_header_parser_init (request_text h @ rest) = Inr (p', rest, Completed)
    \<and> take_result p' = h"
proof -
  obtain m u v where l: "req_line h = \<lparr>rl_method = Request_method m, rl_request_target = Uri u,
      rl_http_version = v\<rparr>"
    by (metis request_line.cases request_method.exhaust uri.exhaust)
  have mu: "is_token m" "wf_uri u" and f: "wf_fields (req_fields h)"
    using assms by (simp_all add: wf_request_header_def l)
  let ?p = "\<lparr>m_current_state = Fields_terminate_at_no_field_name,
      m_state_after_newline = Fields_terminate_at_no_field_name, m_buffer = [],
      m_current_field_name = [], m_req_header = \<lparr>req_line = req_line h, req_fields = []\<rparr>\<rparr>"
  have "parse request_header_parser_init (request_text h @ rest) =
      parse ?p (concat (map field_text (req_fields h)) @ CRLF @ rest)"
    using parse_request_line [OF mu] by (simp add: request_text_def l)
  moreover have "at_line [] (req_line h) ?p" by (rule nothing_pending) simp_all
  ultimately obtain p' where "parse request_header_parser_init (request_text h @ rest) = Inr (p', rest, Completed)"
    and "m_req_header p' = \<lparr>req_line = req_line h, req_fields = fold append_pair (req_fields h) []\<rparr>"
    using parse_fields [of "[]" "req_line h" ?p "req_fields h" rest] f
    by (auto simp: wf_fields_def)
  moreover have "fold append_pair (req_fields h) [] = req_fields h"
    using fold_append_ordered [of "[]"] f by (simp add: wf_fields_def)
  ultimately show ?thesis by (simp add: take_result_def)
qed

text \<open>
  C12: a request header written out in the canonical form (single spaces, one field a
  line, no folding) is parsed back to itself, in whatever pieces it arrives, and the parser
  stops exactly after the empty line that ends it, leaving the bytes that follow. This
  holds for every header with a token for a method, a target without white space and
  valid, ordered fields, which is what the parser itself produces.
\<close>

theorem parse_request_text:
  assumes "wf_request_header h" and "concat pieces = request_text h @ rest"
  shows "\<exists>p'. parse_pieces request_header_parser_init pieces = Inr (p', rest, Completed)
    \<and> take_result p' = h"
  using parse_text [OF assms(1), of rest] by (simp add: parse_cut assms(2))

text \<open>A part of the text that does not reach its end is not enough.\<close>

lemma parse_text_prefix:
  assumes "wf_request_header h" and "request_text h = s @ t" and "t \<noteq> []"
  shows "\<exists>p'. parse request_header_parser_init s = Inr (p', [], More_data_needed)"
proof -
  from parse_inv_total [OF parser_inv_init] obtain p' rest ec
    where s: "parse request_header_parser_init s = Inr (p', rest, ec)" by blast
  from parse_text [OF assms(1), of "[]"] obtain q
    where "parse request_header_parser_init (s @ t) = Inr (q, [], Completed)"
    by (auto simp: assms(2))
  then have "ec = More_data_needed"
    using assms(3) by (auto simp: parse_append s split: if_splits)
  with s parse_more_data_iff [OF s] show ?thesis by simp
qed

definition example_header :: request_header where
  "example_header = \<lparr>req_line = \<lparr>rl_method = Request_method ''GET'', rl_request_target = Uri ''/'',
     rl_http_version = mk_version 1 1\<rparr>,
     req_fields = [(Field_name ''Accept'', ''a b''), (Field_name ''Host'', [])]\<rparr>"

lemma example_header_wf: "wf_request_header example_header"
  by (simp add: example_header_def wf_request_header_def wf_fields_def wf_uri_def wf_value_def
      is_token_iff is_token_char_def is_not_token_char_iff is_delimiter_def is_not_printable_iff
      is_strict_whitespace_def field_name_cmp_def three_way_def toupper_def)

theorem parse_request_text_witness:
  "\<exists>p'. parse_pieces request_header_parser_init
      [take 7 (request_text example_header), drop 7 (request_text example_header), ''body'']
      = Inr (p', ''body'', Completed) \<and> take_result p' = example_header"
  by (rule parse_request_text [OF example_header_wf]) simp

end
