(* ===== verification/Response_Serializer.thy ===== *)
theory Response_Serializer
  imports Field_Map
begin

text \<open>
  \<^verbatim>\<open>src/lib/http_response_header_serializer.hpp\<close>: the text of a response header,
  built once, and the range of it that is still to be written, handed out in pieces of
  whatever size the caller's buffer has.
\<close>

section \<open>Definitions\<close>

text \<open>
  \<open>m_range_to_write\<close> is a span into \<open>m_string_to_write\<close>: the offsets of its first byte
  and of the byte after its last.
\<close>

record response_header_serializer =
  m_range_begin :: nat
  m_range_end :: nat
  m_string_to_write :: string

definition status_line_text :: "status_line \<Rightarrow> string" where
  "status_line_text sl =
     ''HTTP/'' @ version_to_string (sl_http_version sl)
     @ '' '' @ std_to_string (nat (status_value (sl_status_code sl)))
     @ '' '' @ (if sl_reason_phrase sl = [] then status_to_string (sl_status_code sl)
                else sl_reason_phrase sl)
     @ CRLF"

fun fields_text :: "field_map \<Rightarrow> string" where
  "fields_text [] = []"
| "fields_text ((k, v) # items) = name_value k @ '': '' @ v @ CRLF @ fields_text items"

definition response_header_serializer_init ::
  "response_header \<Rightarrow> response_header_serializer" where
  "response_header_serializer_init resp_header =
     (let str = status_line_text (resp_status_line resp_header)
                @ fields_text (resp_fields resp_header) @ CRLF
      in \<lparr>m_range_begin = 0, m_range_end = length str, m_string_to_write = str\<rparr>)"

text \<open>
  \<open>serialize\<close> on an output buffer of \<open>out_size\<close> bytes: the bytes copied into it (the
  returned pointer is the end of them) and the serializer with the shorter range. Its
  error code type has no values to tell apart.
\<close>

definition serialize ::
  "response_header_serializer \<Rightarrow> nat \<Rightarrow> response_header_serializer \<times> string" where
  "serialize s out_size =
     (let n = min out_size (m_range_end s - m_range_begin s)
      in (s\<lparr>m_range_begin := m_range_begin s + n\<rparr>,
          take n (drop (m_range_begin s) (m_string_to_write s))))"

section \<open>Handing the text out in pieces\<close>

definition serializer_rest :: "response_header_serializer \<Rightarrow> string" where
  "serializer_rest s =
     take (m_range_end s - m_range_begin s) (drop (m_range_begin s) (m_string_to_write s))"

definition serializer_inv :: "response_header_serializer \<Rightarrow> bool" where
  "serializer_inv s \<longleftrightarrow>
     m_range_begin s \<le> m_range_end s \<and> m_range_end s = length (m_string_to_write s)"

definition response_text :: "response_header \<Rightarrow> string" where
  "response_text h =
     status_line_text (resp_status_line h) @ fields_text (resp_fields h) @ CRLF"

lemma serializer_init [simp, west_wf]:
  "serializer_inv (response_header_serializer_init h)"
  "serializer_rest (response_header_serializer_init h) = response_text h"
  by (simp_all add: serializer_inv_def serializer_rest_def response_header_serializer_init_def
      response_text_def Let_def)

lemma serialize_rest:
  assumes "serializer_inv s" and "serialize s out_size = (s', out)"
  shows "out = take out_size (serializer_rest s) \<and> serializer_rest s' = drop out_size (serializer_rest s)
    \<and> serializer_inv s'"
  using assms
  by (auto simp: serialize_def serializer_rest_def serializer_inv_def Let_def min_def
      add.commute)

fun serialize_all :: "response_header_serializer \<Rightarrow> nat list \<Rightarrow> response_header_serializer \<times> string" where
  "serialize_all s [] = (s, [])"
| "serialize_all s (n # ns) =
     (case serialize s n of (s1, out) \<Rightarrow>
      case serialize_all s1 ns of (s2, outs) \<Rightarrow> (s2, out @ outs))"

lemma serialize_all_rest:
  "serializer_inv s \<Longrightarrow> snd (serialize_all s ns) = take (sum_list ns) (serializer_rest s)"
proof (induction ns arbitrary: s)
  case (Cons n ns)
  obtain s1 out where e: "serialize s n = (s1, out)" by fastforce
  from serialize_rest [OF Cons.prems e] Cons.IH [of s1] show ?case
    by (simp add: e take_add split: prod.split) (metis snd_conv)
qed simp

text \<open>
  C30: however the output buffers are sized, the pieces handed out, put together, are the
  prefix of the header's text of their total size; once the sizes reach the length of the
  text, they are the whole text and nothing more.
\<close>

theorem serialize_pieces:
  "snd (serialize_all (response_header_serializer_init h) ns) = take (sum_list ns) (response_text h)"
  by (simp add: serialize_all_rest)

section \<open>The text\<close>

lemma std_to_string_length: "0 < length (std_to_string n)"
  by simp

lemma std_to_string_three_digits:
  assumes "100 \<le> n"
  shows "3 \<le> length (std_to_string n)"
proof -
  from assms have big: "\<not> n < 10" "\<not> n div 10 < 10" by simp_all
  have "length (std_to_string n) = length (std_to_string (n div 10 div 10)) + 2"
    using big by (simp add: std_to_string.simps [of n] std_to_string.simps [of "n div 10"]
        del: div_mult2_eq)
  then show ?thesis using std_to_string_length [of "n div 10 div 10"] by linarith
qed

text \<open>
  The text of a response header is at least 18 bytes long, whatever the header. The
  serializer is moved together with the span that points into its string, so the string
  must not be one that is stored inside the object. libstdc++ stores strings of up to 15
  bytes so, a bound the text always exceeds. (libc++ does up to 22 bytes, which the 19
  bytes of a response without fields do not exceed.)
\<close>

theorem response_text_not_small: "18 \<le> length (response_text h) \<and> 15 < length (response_text h)"
proof -
  let ?sl = "resp_status_line h"
  have "100 \<le> nat (status_value (sl_status_code ?sl))"
    using status_value_bounds [of "sl_status_code ?sl"] by linarith
  then have "3 \<le> length (std_to_string (nat (status_value (sl_status_code ?sl))))"
    by (rule std_to_string_three_digits)
  moreover have "0 < length (if sl_reason_phrase ?sl = [] then status_to_string (sl_status_code ?sl)
      else sl_reason_phrase ?sl)"
    by simp
  moreover note std_to_string_length [of "unat (major (sl_http_version ?sl))"]
    std_to_string_length [of "unat (minor (sl_http_version ?sl))"]
  moreover have "length (response_text h) =
      5 + length (std_to_string (unat (major (sl_http_version ?sl)))) + 1
      + length (std_to_string (unat (minor (sl_http_version ?sl)))) + 1
      + length (std_to_string (nat (status_value (sl_status_code ?sl)))) + 1
      + length (if sl_reason_phrase ?sl = [] then status_to_string (sl_status_code ?sl)
          else sl_reason_phrase ?sl) + 2 + length (fields_text (resp_fields h)) + 2"
    by (simp add: response_text_def status_line_text_def version_to_string_def)
  ultimately show ?thesis by linarith
qed

text \<open>
  What a reader that cuts the text at every carriage return and line feed sees.
\<close>

fun split_crlf :: "string \<Rightarrow> string list" where
  "split_crlf [] = [[]]"
| "split_crlf [c] = [[c]]"
| "split_crlf (c # d # s) =
     (if c = CR \<and> d = LF then [] # split_crlf s
      else (case split_crlf (d # s) of l # ls \<Rightarrow> (c # l) # ls | [] \<Rightarrow> [[c]]))"

definition one_line :: "string \<Rightarrow> bool" where
  "one_line s \<longleftrightarrow> list_all (\<lambda>c. c \<noteq> CR \<and> c \<noteq> LF) s"

lemma split_crlf_line: "one_line l \<Longrightarrow> split_crlf (l @ CRLF @ s) = l # split_crlf s"
proof (induction l)
  case (Cons c l)
  then have "split_crlf (l @ CRLF @ s) = l # split_crlf s" and "c \<noteq> CR"
    by (simp_all add: one_line_def)
  moreover obtain d t where "l @ CRLF @ s = d # t" by (cases l) auto
  ultimately show ?case by simp
qed simp

lemma split_crlf_lines:
  "\<forall>l \<in> set ls. one_line l \<Longrightarrow>
   split_crlf (concat (map (\<lambda>l. l @ CRLF) ls) @ CRLF) = ls @ [[], []]"
proof (induction ls)
  case (Cons l ls)
  then show ?case
    using split_crlf_line [of l "concat (map (\<lambda>l. l @ CRLF) ls) @ CRLF"] by simp
qed simp

lemma one_line_append [simp]: "one_line (s @ t) \<longleftrightarrow> one_line s \<and> one_line t"
  by (simp add: one_line_def)

lemma one_line_char [simp]: "one_line [] " "one_line (c # s) \<longleftrightarrow> c \<noteq> CR \<and> c \<noteq> LF \<and> one_line s"
  by (simp_all add: one_line_def)

lemma one_line_number [simp]: "one_line (std_to_string n)"
  using std_to_string_digits [of n]
  by (auto simp: one_line_def list_all_iff is_digit_def)

lemma one_line_status [simp]: "one_line (status_to_string st)"
  by (cases st) simp_all

lemma one_line_token: "is_token s \<Longrightarrow> one_line s"
  by (auto simp: one_line_def is_token_iff list_all_iff)

lemma one_line_value: "wf_value v \<Longrightarrow> one_line v"
  by (auto simp: one_line_def wf_value_def list_all_iff is_not_printable_iff is_strict_whitespace_def)

definition status_line_line :: "status_line \<Rightarrow> string" where
  "status_line_line sl =
     ''HTTP/'' @ version_to_string (sl_http_version sl)
     @ '' '' @ std_to_string (nat (status_value (sl_status_code sl)))
     @ '' '' @ (if sl_reason_phrase sl = [] then status_to_string (sl_status_code sl)
                else sl_reason_phrase sl)"

definition field_line :: "field_name \<times> string \<Rightarrow> string" where
  "field_line kv = name_value (fst kv) @ '': '' @ snd kv"

lemma response_text_lines:
  "response_text h = concat (map (\<lambda>l. l @ CRLF)
     (status_line_line (resp_status_line h) # map field_line (resp_fields h))) @ CRLF"
proof -
  have "fields_text m = concat (map (\<lambda>l. l @ CRLF) (map field_line m))" for m
    by (induction m rule: fields_text.induct) (simp_all add: field_line_def)
  then show ?thesis
    by (simp add: response_text_def status_line_text_def status_line_line_def)
qed

text \<open>
  C31: no response splitting. Whatever valid fields a response has, as long as its reason
  phrase is one line (nothing checks that one), its text consists of the status line, one
  line for each field in the order of the map, and an empty line: no field, however it
  was put together, adds a line of its own or ends the header early.
\<close>

theorem response_text_split:
  assumes "wf_fields (resp_fields h)" and "one_line (sl_reason_phrase (resp_status_line h))"
  shows "split_crlf (response_text h) =
    status_line_line (resp_status_line h) # map field_line (resp_fields h) @ [[], []]"
proof -
  have "one_line (status_line_line (resp_status_line h))"
    using assms(2) by (simp add: status_line_line_def version_to_string_def)
  moreover have "\<forall>l \<in> set (map field_line (resp_fields h)). one_line l"
    using assms(1) by (fastforce simp: wf_fields_def field_line_def one_line_token one_line_value)
  ultimately show ?thesis
    using split_crlf_lines [of "status_line_line (resp_status_line h) # map field_line (resp_fields h)"]
    unfolding response_text_lines by (simp del: concat.simps)
qed

definition example_response :: response_header where
  "example_response =
     \<lparr>resp_status_line = \<lparr>sl_http_version = mk_version 1 1, sl_status_code = Ok, sl_reason_phrase = ''Ok''\<rparr>,
      resp_fields = [(Field_name ''Content-Length'', ''5'')]\<rparr>"

lemma example_response_wf: "wf_fields (resp_fields example_response)"
  by (simp add: example_response_def wf_fields_def wf_value_def is_token_iff is_token_char_def
      is_not_token_char_iff is_delimiter_def is_not_printable_iff is_strict_whitespace_def)

theorem response_text_split_witness:
  "split_crlf (response_text example_response) =
     [''HTTP/1.1 200 Ok'', ''Content-Length: 5'', [], []]"
proof -
  have "one_line (sl_reason_phrase (resp_status_line example_response))"
    by (simp add: example_response_def)
  from response_text_split [OF example_response_wf this] show ?thesis
    by (simp add: example_response_def status_line_line_def field_line_def version_to_string_def
        std_to_string.simps digit_char_def) code_simp
qed

end
