(* ===== verification/Io_Adapter.thy ===== *)
theory Io_Adapter
  imports West_Prelude
begin

text \<open>
  \<^verbatim>\<open>src/lib/io_interfaces.hpp\<close>: the result of an I/O operation and the operations a
  socket has. \<^verbatim>\<open>src/lib/io_adapter.hpp\<close>: the window over a fixed buffer
  (\<open>buffer_span\<close>) and the loop that moves bytes from a reader to a writer through it
  (\<open>transfer_data\<close>), for any reader and writer.

  \<open>transfer_data\<close> is written with \<^theory_text>\<open>partial_function\<close>: \<open>None\<close> means
  that the loop does not end. The locales \<open>transfer_contract\<close> and \<open>transfer_stream\<close>
  state what the loop asks of its reader and writer and prove what it then promises.
\<close>

section \<open>I/O results and sockets\<close>

datatype operation_result = Op_completed | Op_would_block | Op_error

definition is_error_indicator :: "operation_result \<Rightarrow> bool" where
  "is_error_indicator res \<longleftrightarrow> res \<noteq> Op_completed"

text \<open>
  The concept \<open>socket\<close>: what the session code calls on a connection. A read is given the
  size of the span to fill and returns the bytes it put at the start of it (their number
  is \<open>bytes_read\<close>); a write is given the bytes and returns how many it took.
\<close>

record 's socket_ops =
  sock_read :: "'s \<Rightarrow> nat \<Rightarrow> 's \<times> string \<times> operation_result"
  sock_write :: "'s \<Rightarrow> string \<Rightarrow> 's \<times> nat \<times> operation_result"
  sock_stop_reading :: "'s \<Rightarrow> 's"

section \<open>Buffer window\<close>

text \<open>
  \<open>bs_array\<close> is the array \<open>m_start\<close> points to; \<open>m_begin\<close> and \<open>m_end\<close> are offsets
  into it. \<open>BufferSize\<close> is the length of the array.
\<close>

record buffer_span =
  bs_array :: string
  bs_begin :: nat
  bs_end :: nat

definition buffer_size :: "buffer_span \<Rightarrow> nat" where
  "buffer_size b = length (bs_array b)"

definition buffer_span_init :: "string \<Rightarrow> buffer_span" where
  "buffer_span_init arr = \<lparr>bs_array = arr, bs_begin = 0, bs_end = 0\<rparr>"

text \<open>The spans to write are ranges of the array from its start: their length.\<close>

definition span_to_write :: "buffer_span \<Rightarrow> nat" where
  "span_to_write b = buffer_size b"

definition span_to_write_max :: "nat \<Rightarrow> buffer_span \<Rightarrow> nat" where
  "span_to_write_max max_length b = min max_length (buffer_size b)"

text \<open>What a reader leaves in the array when it puts \<open>data\<close> at its start.\<close>

definition fill_span :: "string \<Rightarrow> buffer_span \<Rightarrow> buffer_span" where
  "fill_span data b =
     b\<lparr>bs_array := take (buffer_size b) (data @ drop (length data) (bs_array b))\<rparr>"

definition reset_with_new_length :: "nat \<Rightarrow> buffer_span \<Rightarrow> buffer_span faulty" where
  "reset_with_new_length len b =
     and_then (assert_that (len \<le> buffer_size b) ''length <= BufferSize'')
       (\<lambda>_. Inr (b\<lparr>bs_begin := 0, bs_end := len\<rparr>))"

definition span_to_read :: "buffer_span \<Rightarrow> string" where
  "span_to_read b = take (bs_end b - bs_begin b) (drop (bs_begin b) (bs_array b))"

definition span_to_read_max :: "nat \<Rightarrow> buffer_span \<Rightarrow> string" where
  "span_to_read_max max_length b =
     take (min max_length (length (span_to_read b))) (drop (bs_begin b) (bs_array b))"

definition consume_elements :: "nat \<Rightarrow> buffer_span \<Rightarrow> buffer_span faulty" where
  "consume_elements count b =
     and_then (assert_that (bs_end b - bs_begin b \<ge> count) ''m_end - m_begin >= count'')
       (\<lambda>_. Inr (b\<lparr>bs_begin := bs_begin b + count\<rparr>))"

definition wf_span :: "buffer_span \<Rightarrow> bool" where
  "wf_span b \<longleftrightarrow> bs_begin b \<le> bs_end b \<and> bs_end b \<le> buffer_size b"

lemma span_init [simp, west_wf]:
  "wf_span (buffer_span_init arr)" "span_to_read (buffer_span_init arr) = []"
  "buffer_size (buffer_span_init arr) = length arr"
  by (simp_all add: wf_span_def buffer_span_init_def span_to_read_def buffer_size_def)

lemma length_span_to_read: "wf_span b \<Longrightarrow> length (span_to_read b) = bs_end b - bs_begin b"
  by (auto simp: wf_span_def span_to_read_def buffer_size_def min_def)

lemma span_to_read_max_take: "wf_span b \<Longrightarrow> span_to_read_max n b = take n (span_to_read b)"
  by (simp add: span_to_read_max_def length_span_to_read) (simp add: span_to_read_def)

lemma length_span_le: "wf_span b \<Longrightarrow> length (span_to_read b) \<le> buffer_size b"
  by (auto simp: length_span_to_read wf_span_def)

text \<open>The window after a read: exactly the bytes read.\<close>

lemma fill_reset:
  assumes "length data \<le> buffer_size b"
  shows "\<exists>b'. reset_with_new_length (length data) (fill_span data b) = Inr b'
    \<and> wf_span b' \<and> span_to_read b' = data \<and> buffer_size b' = buffer_size b"
  using assms
  by (simp add: reset_with_new_length_def fill_span_def buffer_size_def span_to_read_def wf_span_def)

lemma reset_zero:
  "\<exists>b'. reset_with_new_length 0 b = Inr b' \<and> wf_span b' \<and> span_to_read b' = []
    \<and> buffer_size b' = buffer_size b"
  by (simp add: reset_with_new_length_def span_to_read_def wf_span_def buffer_size_def)

text \<open>The window after a write: the bytes taken are gone from its front.\<close>

lemma consume_drop:
  assumes "wf_span b" and "k \<le> length (span_to_read b)"
  shows "\<exists>b'. consume_elements k b = Inr b' \<and> wf_span b'
    \<and> span_to_read b' = drop k (span_to_read b) \<and> buffer_size b' = buffer_size b"
  using assms
  by (auto simp: consume_elements_def length_span_to_read span_to_read_def wf_span_def
      buffer_size_def drop_take add.commute diff_diff_left)

section \<open>The transfer loop\<close>

text \<open>
  How the loop ended: with the error code of a read, with the error code of a write, or
  because nothing was left to transfer. \<open>map_error_code\<close> is called with it last, so the
  callers apply their mapping to the result.
\<close>

datatype ('er, 'ew) transfer_exit = Read_exit 'er | Write_exit 'ew | All_transferred

text \<open>Subtraction on \<open>size_t\<close> wraps around.\<close>

definition size_minus :: "nat \<Rightarrow> nat \<Rightarrow> nat" where
  "size_minus n k = (if k \<le> n then n - k else 2 ^ 64 + n - k)"

partial_function (option) transfer_data ::
  "('c \<Rightarrow> nat \<Rightarrow> ('c \<times> string \<times> 'er) faulty) \<Rightarrow>
   ('c \<Rightarrow> string \<Rightarrow> nat \<Rightarrow> ('c \<times> nat \<times> 'ew) faulty) \<Rightarrow>
   ('er \<Rightarrow> bool) \<Rightarrow> ('ew \<Rightarrow> bool) \<Rightarrow> 'c \<Rightarrow> buffer_span \<Rightarrow> nat \<Rightarrow>
   ('c \<times> buffer_span \<times> nat \<times> ('er, 'ew) transfer_exit) faulty option" where
  "transfer_data rd wr rd_error wr_error c buffer bytes_to_read =
     (if bytes_to_read = 0 then Some (Inr (c, buffer, bytes_to_read, All_transferred))
      else if length (span_to_read buffer) = 0 then
        (case rd c (span_to_write buffer) of
           Inl e \<Rightarrow> Some (Inl e)
         | Inr (c1, data, ec) \<Rightarrow>
             (case reset_with_new_length (length data) (fill_span data buffer) of
                Inl e \<Rightarrow> Some (Inl e)
              | Inr buffer1 \<Rightarrow>
                  if rd_error ec \<or> length data = 0
                  then Some (Inr (c1, buffer1, bytes_to_read, Read_exit ec))
                  else transfer_data rd wr rd_error wr_error c1 buffer1 bytes_to_read))
      else
        (case wr c (span_to_read_max bytes_to_read buffer) bytes_to_read of
           Inl e \<Rightarrow> Some (Inl e)
         | Inr (c1, bytes_written, ec) \<Rightarrow>
             (case consume_elements bytes_written buffer of
                Inl e \<Rightarrow> Some (Inl e)
              | Inr buffer1 \<Rightarrow>
                  if wr_error ec \<or> bytes_written = 0
                  then Some (Inr (c1, buffer1, size_minus bytes_to_read bytes_written, Write_exit ec))
                  else transfer_data rd wr rd_error wr_error c1 buffer1
                         (size_minus bytes_to_read bytes_written))))"

section \<open>Contracts\<close>

text \<open>
  What the loop asks: a read stays within the span it is given, a write takes no more
  than it is given, and the faults of the two are among \<open>may_fault\<close>. \<open>inv\<close> holds of
  the state while the loop runs, \<open>ended\<close> relates how it ended to the state it ended in.
\<close>

locale transfer_contract =
  fixes rd :: "'c \<Rightarrow> nat \<Rightarrow> ('c \<times> string \<times> 'er) faulty"
    and wr :: "'c \<Rightarrow> string \<Rightarrow> nat \<Rightarrow> ('c \<times> nat \<times> 'ew) faulty"
    and rd_error :: "'er \<Rightarrow> bool"
    and wr_error :: "'ew \<Rightarrow> bool"
    and may_fault :: "fault \<Rightarrow> bool"
    and inv :: "'c \<Rightarrow> bool"
    and ended :: "('er, 'ew) transfer_exit \<Rightarrow> 'c \<Rightarrow> bool"
  assumes rd_ok: "inv c \<Longrightarrow>
      (case rd c n of Inl e \<Rightarrow> may_fault e
       | Inr (c', data, er) \<Rightarrow> length data \<le> n
           \<and> (if rd_error er \<or> data = [] then ended (Read_exit er) c' else inv c'))"
    and wr_ok: "inv c \<Longrightarrow> s \<noteq> [] \<Longrightarrow> length s \<le> n \<Longrightarrow>
      (case wr c s n of Inl e \<Rightarrow> may_fault e
       | Inr (c', k, ew) \<Rightarrow> k \<le> length s
           \<and> (if wr_error ew \<or> k = 0 then ended (Write_exit ew) c' else inv c'))"
    and all_ok: "inv c \<Longrightarrow> ended All_transferred c"
begin

text \<open>
  Two turns of the loop transfer at least a byte, so the number of turns is bounded by
  twice the bytes still to transfer; an empty window costs one more.
\<close>

definition turns :: "buffer_span \<Rightarrow> nat \<Rightarrow> nat" where
  "turns b n = 2 * n + (if span_to_read b = [] then 1 else 0)"

text \<open>
  Induction over the turns: a relation \<open>R\<close> between the arguments of the loop and its
  result holds if it holds where the loop returns and is kept by a read and by a write.
\<close>

lemma transfer_induct [consumes 2, case_names finished read_fault read_exit read_on write_fault write_exit write_on]:
  assumes "inv c" and "wf_span b"
    and finished: "\<And>c b. inv c \<Longrightarrow> wf_span b \<Longrightarrow> R c b 0 (Inr (c, b, 0, All_transferred))"
    and read_fault: "\<And>c b n e. inv c \<Longrightarrow> span_to_read b = [] \<Longrightarrow> rd c (buffer_size b) = Inl e \<Longrightarrow>
      may_fault e \<Longrightarrow> R c b n (Inl e)"
    and read_exit: "\<And>c b n c1 data er b1. inv c \<Longrightarrow> n \<noteq> 0 \<Longrightarrow> span_to_read b = [] \<Longrightarrow>
      rd c (buffer_size b) = Inr (c1, data, er) \<Longrightarrow> rd_error er \<or> data = [] \<Longrightarrow>
      ended (Read_exit er) c1 \<Longrightarrow> wf_span b1 \<Longrightarrow> span_to_read b1 = data \<Longrightarrow>
      buffer_size b1 = buffer_size b \<Longrightarrow> R c b n (Inr (c1, b1, n, Read_exit er))"
    and read_on: "\<And>c b n c1 data er b1 r. inv c \<Longrightarrow> n \<noteq> 0 \<Longrightarrow> span_to_read b = [] \<Longrightarrow>
      rd c (buffer_size b) = Inr (c1, data, er) \<Longrightarrow> \<not> rd_error er \<Longrightarrow> data \<noteq> [] \<Longrightarrow>
      inv c1 \<Longrightarrow> wf_span b1 \<Longrightarrow> span_to_read b1 = data \<Longrightarrow> buffer_size b1 = buffer_size b \<Longrightarrow>
      R c1 b1 n r \<Longrightarrow> R c b n r"
    and write_fault: "\<And>c b n s e. inv c \<Longrightarrow> s = take n (span_to_read b) \<Longrightarrow> s \<noteq> [] \<Longrightarrow>
      length s \<le> n \<Longrightarrow> wr c s n = Inl e \<Longrightarrow> may_fault e \<Longrightarrow> R c b n (Inl e)"
    and write_exit: "\<And>c b n s c1 k ew b1. inv c \<Longrightarrow> s = take n (span_to_read b) \<Longrightarrow> s \<noteq> [] \<Longrightarrow>
      length s \<le> n \<Longrightarrow> wr c s n = Inr (c1, k, ew) \<Longrightarrow> k \<le> length s \<Longrightarrow> wr_error ew \<or> k = 0 \<Longrightarrow>
      ended (Write_exit ew) c1 \<Longrightarrow> wf_span b1 \<Longrightarrow> span_to_read b1 = drop k (span_to_read b) \<Longrightarrow>
      buffer_size b1 = buffer_size b \<Longrightarrow> R c b n (Inr (c1, b1, n - k, Write_exit ew))"
    and write_on: "\<And>c b n s c1 k ew b1 r. inv c \<Longrightarrow> s = take n (span_to_read b) \<Longrightarrow> s \<noteq> [] \<Longrightarrow>
      length s \<le> n \<Longrightarrow> wr c s n = Inr (c1, k, ew) \<Longrightarrow> k \<le> length s \<Longrightarrow> \<not> wr_error ew \<Longrightarrow> k \<noteq> 0 \<Longrightarrow>
      inv c1 \<Longrightarrow> wf_span b1 \<Longrightarrow> span_to_read b1 = drop k (span_to_read b) \<Longrightarrow>
      buffer_size b1 = buffer_size b \<Longrightarrow> R c1 b1 (n - k) r \<Longrightarrow> R c b n r"
  shows "\<exists>r. transfer_data rd wr rd_error wr_error c b n = Some r \<and> R c b n r"
  using assms(1,2)
proof (induction "turns b n" arbitrary: c b n rule: less_induct)
  case less
  consider (finished) "n = 0" | (fetch) "n \<noteq> 0" "span_to_read b = []"
    | (put) "n \<noteq> 0" "span_to_read b \<noteq> []" by blast
  then show ?case
  proof cases
    case finished
    with less.prems show ?thesis
      by (subst transfer_data.simps) (simp add: assms(3))
  next
    case fetch
    show ?thesis
    proof (cases "rd c (buffer_size b)")
      case (Inl e)
      with rd_ok [OF less.prems(1), of "buffer_size b"] fetch less.prems(1) show ?thesis
        by (subst transfer_data.simps) (simp add: span_to_write_def read_fault [OF _ fetch(2)])
    next
      case (Inr t)
      then obtain c1 data er where rd: "rd c (buffer_size b) = Inr (c1, data, er)"
        by (cases t) auto
      with rd_ok [OF less.prems(1), of "buffer_size b"] have len: "length data \<le> buffer_size b"
        and post: "if rd_error er \<or> data = [] then ended (Read_exit er) c1 else inv c1"
        by simp_all
      from fill_reset [OF len] obtain b1
        where b1: "reset_with_new_length (length data) (fill_span data b) = Inr b1"
          "wf_span b1" "span_to_read b1 = data" "buffer_size b1 = buffer_size b"
        by blast
      show ?thesis
      proof (cases "rd_error er \<or> data = []")
        case True
        with post have "ended (Read_exit er) c1" by simp
        from read_exit [OF less.prems(1) fetch rd True this b1(2-4)] rd b1 True fetch show ?thesis
          by (subst transfer_data.simps) (simp add: span_to_write_def)
      next
        case False
        with post have inv: "inv c1" by simp
        from fetch b1(3) False have "turns b1 n < turns b n" by (simp add: turns_def)
        from less.hyps [OF this inv b1(2)] obtain r where
          r: "transfer_data rd wr rd_error wr_error c1 b1 n = Some r" "R c1 b1 n r" by blast
        have "R c b n r"
          using False by (intro read_on [OF less.prems(1) fetch rd _ _ inv b1(2-4) r(2)]) simp_all
        with r rd b1 False fetch show ?thesis
          by (subst transfer_data.simps) (simp add: span_to_write_def)
      qed
    qed
  next
    case put
    let ?s = "take n (span_to_read b)"
    have s: "?s \<noteq> []" "length ?s \<le> n" using put by simp_all
    note unfold = span_to_read_max_take [OF less.prems(2)]
    show ?thesis
    proof (cases "wr c ?s n")
      case (Inl e)
      with wr_ok [OF less.prems(1) s] put less.prems(1) show ?thesis
        by (subst transfer_data.simps) (simp add: unfold write_fault [OF _ refl s])
    next
      case (Inr t)
      then obtain c1 k ew where wr: "wr c ?s n = Inr (c1, k, ew)" by (cases t) auto
      with wr_ok [OF less.prems(1) s] have k: "k \<le> length ?s"
        and post: "if wr_error ew \<or> k = 0 then ended (Write_exit ew) c1 else inv c1"
        by simp_all
      from consume_drop [OF less.prems(2), of k] k obtain b1
        where b1: "consume_elements k b = Inr b1" "wf_span b1"
          "span_to_read b1 = drop k (span_to_read b)" "buffer_size b1 = buffer_size b"
        by auto
      have kn: "size_minus n k = n - k" "k \<le> n" using k by (simp_all add: size_minus_def)
      show ?thesis
      proof (cases "wr_error ew \<or> k = 0")
        case True
        with post have "ended (Write_exit ew) c1" by simp
        from write_exit [OF less.prems(1) refl s wr k True this b1(2-4)] wr b1 True put kn show ?thesis
          by (subst transfer_data.simps) (simp add: unfold)
      next
        case False
        with post have inv: "inv c1" by simp
        from False put kn have "turns b1 (n - k) < turns b n" by (auto simp: turns_def)
        from less.hyps [OF this inv b1(2)] obtain r where
          r: "transfer_data rd wr rd_error wr_error c1 b1 (n - k) = Some r" "R c1 b1 (n - k) r" by blast
        have "R c b n r"
          using False by (intro write_on [OF less.prems(1) refl s wr k _ _ inv b1(2-4) r(2)]) simp_all
        with r wr b1 False put kn show ?thesis
          by (subst transfer_data.simps) (simp add: unfold)
      qed
    qed
  qed
qed

text \<open>
  The loop always ends. It faults only as its reader and writer may; otherwise the window
  is well-formed and of the same size, and no more bytes are left than there were.
\<close>

lemma transfer_returns:
  assumes "inv c" and "wf_span b"
  shows "\<exists>r. transfer_data rd wr rd_error wr_error c b n = Some r
    \<and> (case r of Inl e \<Rightarrow> may_fault e
       | Inr (c', b', n', ex) \<Rightarrow> ended ex c' \<and> wf_span b' \<and> buffer_size b' = buffer_size b
           \<and> n' \<le> n \<and> (ex = All_transferred \<longrightarrow> n' = 0))"
  using assms
  by (induction rule: transfer_induct) (auto simp: all_ok split: sum.splits)

end

text \<open>
  What went through the loop. \<open>yields c got c'\<close> says that reads and writes took the state
  from \<open>c\<close> to \<open>c'\<close>, the reads returning \<open>got\<close> in all; \<open>absorbs c s c' None\<close> that the
  writer took \<open>s\<close> in all and can go on, \<open>absorbs c s c' (Some ec)\<close> that it stopped with
  \<open>ec\<close>. Both are given by how a single operation extends them at the front.
\<close>

locale transfer_stream = transfer_contract rd wr rd_error wr_error may_fault inv ended
  for rd :: "'c \<Rightarrow> nat \<Rightarrow> ('c \<times> string \<times> 'er) faulty"
    and wr :: "'c \<Rightarrow> string \<Rightarrow> nat \<Rightarrow> ('c \<times> nat \<times> 'ew) faulty"
    and rd_error :: "'er \<Rightarrow> bool"
    and wr_error :: "'ew \<Rightarrow> bool"
    and may_fault :: "fault \<Rightarrow> bool"
    and inv :: "'c \<Rightarrow> bool"
    and ended :: "('er, 'ew) transfer_exit \<Rightarrow> 'c \<Rightarrow> bool" +
  fixes yields :: "'c \<Rightarrow> string \<Rightarrow> 'c \<Rightarrow> bool"
    and absorbs :: "'c \<Rightarrow> string \<Rightarrow> 'c \<Rightarrow> 'ew option \<Rightarrow> bool"
  assumes yields_Nil: "inv c \<or> ended ex c \<Longrightarrow> yields c [] c"
    and absorbs_Nil: "inv c \<or> ended ex c \<Longrightarrow> absorbs c [] c None"
    and rd_yields: "inv c \<Longrightarrow> rd c n = Inr (c', data, er) \<Longrightarrow> yields c' got c'' \<Longrightarrow>
      yields c (data @ got) c''"
    and rd_absorbs: "inv c \<Longrightarrow> rd c n = Inr (c', data, er) \<Longrightarrow> absorbs c' s c'' stop \<Longrightarrow>
      absorbs c s c'' stop"
    and wr_yields: "inv c \<Longrightarrow> wr c s n = Inr (c', k, ew) \<Longrightarrow> yields c' got c'' \<Longrightarrow>
      yields c got c''"
    and wr_absorbs: "inv c \<Longrightarrow> s \<noteq> [] \<Longrightarrow> length s \<le> n \<Longrightarrow> wr c s n = Inr (c', k, ew) \<Longrightarrow>
      \<not> wr_error ew \<Longrightarrow> k \<noteq> 0 \<Longrightarrow> absorbs c' t c'' stop \<Longrightarrow> absorbs c (take k s @ t) c'' stop"
    and wr_stops: "inv c \<Longrightarrow> s \<noteq> [] \<Longrightarrow> length s \<le> n \<Longrightarrow> wr c s n = Inr (c', k, ew) \<Longrightarrow>
      wr_error ew \<or> k = 0 \<Longrightarrow> absorbs c (take k s) c' (Some ew)"
begin

definition stop_of :: "('er, 'ew) transfer_exit \<Rightarrow> 'ew option" where
  "stop_of ex = (case ex of Write_exit ew \<Rightarrow> Some ew | _ \<Rightarrow> None)"

text \<open>
  The bytes moved are a prefix of the window followed by what the reader returned; they
  went to the writer in order, and the rest is still in the window. When a read ended the
  loop, the window is what that read returned.
\<close>

definition moves :: "'c \<Rightarrow> buffer_span \<Rightarrow> nat \<Rightarrow> 'c \<Rightarrow> buffer_span \<Rightarrow> nat \<Rightarrow> ('er, 'ew) transfer_exit \<Rightarrow> bool" where
  "moves c b n c' b' n' ex \<longleftrightarrow> (\<exists>moved got.
     span_to_read b @ got = moved @ span_to_read b'
     \<and> yields c got c' \<and> absorbs c moved c' (stop_of ex)
     \<and> length moved \<le> n \<and> n' = n - length moved
     \<and> (\<forall>er. ex = Read_exit er \<longrightarrow> 0 < n' \<and> (rd_error er \<or> span_to_read b' = [])
          \<and> (\<exists>c0. inv c0 \<and> rd c0 (buffer_size b) = Inr (c', span_to_read b', er))))"

text \<open>
  Where a fault comes from: a read or a write that faulted after some bytes were moved; a
  write that faulted was given the bytes that came next.
\<close>

definition faults :: "'c \<Rightarrow> buffer_span \<Rightarrow> nat \<Rightarrow> fault \<Rightarrow> bool" where
  "faults c b n e \<longleftrightarrow> (\<exists>moved got rest c1. span_to_read b @ got = moved @ rest
     \<and> yields c got c1 \<and> absorbs c moved c1 None \<and> inv c1
     \<and> ((\<exists>m. rd c1 m = Inl e)
        \<or> (\<exists>s t m. wr c1 s m = Inl e \<and> rest = s @ t \<and> s \<noteq> [] \<and> length moved + length s \<le> n)))"

lemma faults_read:
  assumes "inv c" and "rd c m = Inr (c1, data, er)" and "span_to_read b = []"
    and "span_to_read b1 = data" and "faults c1 b1 n e"
  shows "faults c b n e"
proof -
  from assms(5) obtain moved got rest c2 where f: "data @ got = moved @ rest" "yields c1 got c2"
      "absorbs c1 moved c2 None" "inv c2"
    and or: "(\<exists>m. rd c2 m = Inl e)
        \<or> (\<exists>s t m. wr c2 s m = Inl e \<and> rest = s @ t \<and> s \<noteq> [] \<and> length moved + length s \<le> n)"
    unfolding faults_def assms(4) by blast
  show ?thesis
    unfolding faults_def
    by (rule exI [of _ moved], rule exI [of _ "data @ got"], rule exI [of _ rest], rule exI [of _ c2])
       (use f or assms(3) rd_yields [OF assms(1,2) f(2)] rd_absorbs [OF assms(1,2) f(3)] in simp)
qed

lemma faults_write:
  assumes "inv c" and "wr c s m = Inr (c1, k, ew)" and "\<not> wr_error ew" and "k \<noteq> 0"
    and s: "s = take n (span_to_read b)" and "s \<noteq> []" and "length s \<le> m" and "k \<le> length s"
    and b1: "span_to_read b1 = drop k (span_to_read b)" and "faults c1 b1 (n - k) e"
  shows "faults c b n e"
proof -
  from assms(10) obtain moved got rest c2 where f: "drop k (span_to_read b) @ got = moved @ rest"
      "yields c1 got c2" "absorbs c1 moved c2 None" "inv c2"
    and or: "(\<exists>m. rd c2 m = Inl e)
        \<or> (\<exists>s t m. wr c2 s m = Inl e \<and> rest = s @ t \<and> s \<noteq> [] \<and> length moved + length s \<le> n - k)"
    unfolding faults_def b1 by blast
  have k: "k \<le> n" using s assms(8) by simp
  then have "take k s = take k (span_to_read b)" using s by (simp add: min_def)
  then have "span_to_read b = take k s @ drop k (span_to_read b)" by simp
  with f(1) have "span_to_read b @ got = (take k s @ moved) @ rest" by (metis append.assoc)
  moreover have "(\<exists>m. rd c2 m = Inl e) \<or> (\<exists>u t m. wr c2 u m = Inl e \<and> rest = u @ t \<and> u \<noteq> []
      \<and> length (take k s @ moved) + length u \<le> n)"
  proof (cases "\<exists>m. rd c2 m = Inl e")
    case False
    with or obtain u t m where "wr c2 u m = Inl e" "rest = u @ t" "u \<noteq> []" "length moved + length u \<le> n - k"
      by blast
    moreover from this have "length (take k s @ moved) + length u \<le> n" using assms(8) k by simp
    ultimately show ?thesis by blast
  qed simp
  ultimately show ?thesis
    using wr_yields [OF assms(1,2) f(2)] wr_absorbs [OF assms(1,6,7,2,3,4) f(3)] f(4)
    unfolding faults_def by blast
qed

lemma moves_read:
  assumes "inv c" and "rd c m = Inr (c1, data, er)" and "span_to_read b = []"
    and "span_to_read b1 = data" and "buffer_size b1 = buffer_size b" and "moves c1 b1 n c' b' n' ex"
  shows "moves c b n c' b' n' ex"
proof -
  from assms(6) obtain moved got where m: "data @ got = moved @ span_to_read b'"
    "yields c1 got c'" "absorbs c1 moved c' (stop_of ex)" "length moved \<le> n" "n' = n - length moved"
    "\<forall>er. ex = Read_exit er \<longrightarrow> 0 < n' \<and> (rd_error er \<or> span_to_read b' = [])
          \<and> (\<exists>c0. inv c0 \<and> rd c0 (buffer_size b) = Inr (c', span_to_read b', er))"
    unfolding moves_def assms(4,5) by blast
  moreover note rd_yields [OF assms(1,2) m(2)] rd_absorbs [OF assms(1,2) m(3)]
  ultimately show ?thesis
    using assms(3) unfolding moves_def
    by - (rule exI [of _ moved], rule exI [of _ "data @ got"], simp)
qed

lemma moves_write:
  assumes "inv c" and "wr c s m = Inr (c1, k, ew)" and "\<not> wr_error ew" and "k \<noteq> 0"
    and "s = take n (span_to_read b)" and "s \<noteq> []" and "length s \<le> m" and "k \<le> length s"
    and "span_to_read b1 = drop k (span_to_read b)" and "buffer_size b1 = buffer_size b"
    and "moves c1 b1 (n - k) c' b' n' ex"
  shows "moves c b n c' b' n' ex"
proof -
  from assms(11) obtain moved got where m: "drop k (span_to_read b) @ got = moved @ span_to_read b'"
      "yields c1 got c'" "absorbs c1 moved c' (stop_of ex)"
      "length moved \<le> n - k" "n' = n - k - length moved"
    and x: "\<forall>er. ex = Read_exit er \<longrightarrow> 0 < n' \<and> (rd_error er \<or> span_to_read b' = [])
          \<and> (\<exists>c0. inv c0 \<and> rd c0 (buffer_size b) = Inr (c', span_to_read b', er))"
    unfolding moves_def assms(9,10) by blast
  have "k \<le> n" using assms(5,8) by simp
  then have t: "take k s = take k (span_to_read b)" using assms(5) by (simp add: min_def)
  then have "span_to_read b @ got = (take k s @ moved) @ span_to_read b'"
    using m(1) by (metis append.assoc append_take_drop_id)
  moreover have "length (take k s @ moved) \<le> n" "n' = n - length (take k s @ moved)"
    using m(4,5) assms(5,8) by auto
  moreover have "absorbs c (take k s @ moved) c' (stop_of ex)"
    by (rule wr_absorbs [OF assms(1,6,7,2,3,4) m(3)])
  moreover note wr_yields [OF assms(1,2) m(2)]
  ultimately show ?thesis using x unfolding moves_def by blast
qed

lemma transfer_moves:
  assumes "inv c" and "wf_span b"
  shows "\<exists>r. transfer_data rd wr rd_error wr_error c b n = Some r
    \<and> (case r of Inl e \<Rightarrow> faults c b n e | Inr (c', b', n', ex) \<Rightarrow> moves c b n c' b' n' ex)"
  using assms
proof (induction rule: transfer_induct)
  case (read_fault c b n e)
  then show ?case
    using yields_Nil [of c] absorbs_Nil [of c]
    by (auto simp: faults_def intro!: exI [of _ "[]"] exI [of _ c])
next
  case (write_fault c b n s e)
  then have "span_to_read b @ [] = [] @ s @ drop n (span_to_read b)" by simp
  with write_fault(1,3-5) yields_Nil [of c] absorbs_Nil [of c] show ?case
    unfolding faults_def sum.case
    by (intro exI [of _ "[]"] exI [of _ "s @ drop n (span_to_read b)"] exI [of _ c]) auto
next
  case (finished c b)
  then show ?case
    by (auto simp: moves_def stop_of_def absorbs_Nil yields_Nil)
next
  case (read_exit c b n c1 data er b1)
  then have "yields c data c1" "absorbs c [] c1 None"
    using rd_yields [OF read_exit(1,4), of "[]"] rd_absorbs [OF read_exit(1,4), of "[]" c1 None]
      yields_Nil [of c1] absorbs_Nil [of c1] by auto
  with read_exit show ?case
    by (auto simp: moves_def stop_of_def intro!: exI [of _ "[]"])
next
  case (read_on c b n c1 data er b1 r)
  then show ?case
    by (auto split: sum.splits intro: moves_read [OF read_on(1,4,3,9,10)] faults_read [OF read_on(1,4,3,9)])
next
  case (write_exit c b n s c1 k ew b1)
  have "k \<le> n" using write_exit by simp
  then have "take k s @ drop k (span_to_read b) = span_to_read b"
    using write_exit(2) by (simp add: min_def)
  moreover have "yields c [] c1"
    using wr_yields [OF write_exit(1,5)] yields_Nil [of c1] write_exit(8) by blast
  moreover note wr_stops [OF write_exit(1,3-5,7)]
  ultimately show ?case
    using write_exit(2-6,10) unfolding moves_def stop_of_def
    by simp (rule exI [of _ "take k s"], rule exI [of _ "[]"], simp)
next
  case (write_on c b n s c1 k ew b1 r)
  have "k \<le> n" using write_on(2,6) by simp
  with write_on show ?case
    by (auto split: sum.splits
        intro: moves_write [OF write_on(1,5,7,8,2,3,4,6,11,12)] faults_write [OF write_on(1,5,7,8,2,3,4,6,11)])
qed

text \<open>Everything the loop promises: it ends, and how.\<close>

lemma transfer_cases [consumes 2]:
  assumes "inv c" and "wf_span b"
  obtains (faults) e where "transfer_data rd wr rd_error wr_error c b n = Some (Inl e)" "may_fault e"
      "faults c b n e"
  | (returns) c' b' n' ex moved got where
      "transfer_data rd wr rd_error wr_error c b n = Some (Inr (c', b', n', ex))"
      "ended ex c'" "wf_span b'" "buffer_size b' = buffer_size b" "ex = All_transferred \<Longrightarrow> n' = 0"
      "span_to_read b @ got = moved @ span_to_read b'" "yields c got c'"
      "absorbs c moved c' (stop_of ex)" "length moved \<le> n" "n' = n - length moved"
      "\<And>er. ex = Read_exit er \<Longrightarrow> 0 < n' \<and> (rd_error er \<or> span_to_read b' = [])"
      "\<And>er. ex = Read_exit er \<Longrightarrow>
         \<exists>c0. inv c0 \<and> rd c0 (buffer_size b) = Inr (c', span_to_read b', er)"
proof -
  from transfer_returns [OF assms, of n] transfer_moves [OF assms, of n] obtain r where
    r: "transfer_data rd wr rd_error wr_error c b n = Some r"
    and p: "case r of Inl e \<Rightarrow> may_fault e
       | Inr (c', b', n', ex) \<Rightarrow> ended ex c' \<and> wf_span b' \<and> buffer_size b' = buffer_size b
           \<and> n' \<le> n \<and> (ex = All_transferred \<longrightarrow> n' = 0)"
    and m: "case r of Inl e \<Rightarrow> faults c b n e | Inr (c', b', n', ex) \<Rightarrow> moves c b n c' b' n' ex"
    by auto
  show ?thesis
  proof (cases r)
    case (Inl e)
    with r p m show ?thesis by (intro that(1)) simp_all
  next
    case (Inr t)
    obtain c' b' n' ex where t: "t = (c', b', n', ex)" by (cases t)
    from m show ?thesis
      unfolding Inr t moves_def sum.case prod.case
      by (elim exE conjE) (rule that(2), use r p in \<open>auto simp: Inr t\<close>)
  qed
qed

end

end
