(* ===== verification/Session.thy ===== *)
theory Session
  imports Request_Parser Response_Serializer Io_Adapter
begin

text \<open>
  \<^verbatim>\<open>src/lib/http_request_handler.hpp\<close>: what an application's request handler
  offers (the concept \<open>request_handler\<close>) and the result of its \<open>finalize_state\<close>.
  \<^verbatim>\<open>src/lib/http_session.hpp\<close>: the session, its outcome codes and the responses a
  state makes out of an I/O result.
\<close>

section \<open>Request handler\<close>

record finalize_state_result =
  http_status :: status
  error_message :: "string option"

text \<open>
  The concept \<open>request_handler\<close> as a record of operations on a handler state \<open>'h\<close>,
  with \<open>'e\<close> the handler's own error code and the three functions on it that the framework
  calls. The overloads of \<open>finalize_state\<close> are told apart by name. An operation may
  throw; one that reads content is given the size of the span to fill.
\<close>

record ('h, 'e) handler_ops =
  finalize_header :: "'h \<Rightarrow> request_header \<Rightarrow> ('h \<times> finalize_state_result) faulty"
  process_request_content :: "'h \<Rightarrow> string \<Rightarrow> nat \<Rightarrow> ('h \<times> nat \<times> 'e) faulty"
  finalize_body :: "'h \<Rightarrow> field_map \<Rightarrow> ('h \<times> field_map \<times> finalize_state_result) faulty"
  finalize_error :: "'h \<Rightarrow> field_map \<Rightarrow> finalize_state_result \<Rightarrow> ('h \<times> field_map) faulty"
  read_response_content :: "'h \<Rightarrow> nat \<Rightarrow> ('h \<times> string \<times> 'e) faulty"
  ec_is_error_indicator :: "'e \<Rightarrow> bool"
  ec_can_continue :: "'e \<Rightarrow> bool"
  ec_to_string :: "'e \<Rightarrow> string"

section \<open>Session\<close>

datatype session_state_status =
    State_completed
  | Connection_closed
  | State_more_data_needed
  | Client_error_detected
  | Write_response_failed
  | State_io_error

record request_info =
  ri_header :: request_header
  ri_content_length :: nat

record response_info =
  rsp_header :: response_header

record ('s, 'h) session =
  connection :: 's
  request_handler :: 'h
  s_request_info :: request_info
  s_response_info :: response_info

record session_state_response =
  st_status :: session_state_status
  st_result :: finalize_state_result

definition request_info_default :: request_info where
  "request_info_default = \<lparr>ri_header = request_header_default, ri_content_length = 0\<rparr>"

text \<open>
  A value-initialised response. Its status code is the enumeration's zero, which is no
  enumerator; every use of a fresh response writes the code before anything reads it, so
  \<open>Ok\<close> stands for it here.
\<close>

definition response_info_default :: response_info where
  "response_info_default =
     \<lparr>rsp_header = \<lparr>resp_status_line = \<lparr>sl_http_version = version_default, sl_status_code = Ok,
        sl_reason_phrase = []\<rparr>, resp_fields = []\<rparr>\<rparr>"

definition state_response :: "session_state_status \<Rightarrow> status \<Rightarrow> string option \<Rightarrow> session_state_response" where
  "state_response st code msg =
     \<lparr>st_status = st, st_result = \<lparr>http_status = code, error_message = msg\<rparr>\<rparr>"

definition make_read_response :: "operation_result \<Rightarrow> string \<Rightarrow> session_state_response" where
  "make_read_response res at_conn_close_msg =
     (case res of
        Op_completed \<Rightarrow>
          state_response Client_error_detected Bad_request (make_unique_cstr at_conn_close_msg)
      | Op_would_block \<Rightarrow> state_response State_more_data_needed Ok None
      | Op_error \<Rightarrow>
          state_response State_io_error Internal_server_error (make_unique_cstr ''I/O error''))"

definition make_write_response :: "operation_result \<Rightarrow> session_state_response" where
  "make_write_response res =
     (case res of
        Op_completed \<Rightarrow> state_response Connection_closed Ok None
      | Op_would_block \<Rightarrow> state_response State_more_data_needed Ok None
      | Op_error \<Rightarrow>
          state_response State_io_error Internal_server_error (make_unique_cstr ''I/O error''))"

lemma state_response_simps [simp]:
  "st_status (state_response st code msg) = st"
  "http_status (st_result (state_response st code msg)) = code"
  "error_message (st_result (state_response st code msg)) = msg"
  by (simp_all add: state_response_def)

lemma state_response_eq [simp]:
  "state_response st code msg = state_response st' code' msg'
     \<longleftrightarrow> st = st' \<and> code = code' \<and> msg = msg'"
  by (auto simp: state_response_def)

section \<open>Contracts of the template parameters\<close>

text \<open>
  The concept \<open>data_source\<close>: a read stays within the span, hands out the incoming bytes
  in order and reports bytes with the code \<open>Op_completed\<close> only; no bytes with that code
  means that there are no more to come. \<open>incoming\<close> are the bytes that reads will return.
\<close>

locale source_contract =
  fixes src_read :: "'s \<Rightarrow> nat \<Rightarrow> 's \<times> string \<times> operation_result"
    and incoming :: "'s \<Rightarrow> string"
  assumes src_read: "src_read s n = (s', data, ec) \<Longrightarrow>
      length data \<le> n \<and> incoming s = data @ incoming s' \<and> (data \<noteq> [] \<longrightarrow> ec = Op_completed)"
    and src_eof: "src_read s n = (s', [], Op_completed) \<Longrightarrow> 0 < n \<Longrightarrow> incoming s = []"

text \<open>The concept \<open>data_sink\<close>: a write takes a prefix. \<open>sent\<close> are the bytes taken.\<close>

locale sink_contract =
  fixes snk_write :: "'s \<Rightarrow> string \<Rightarrow> 's \<times> nat \<times> operation_result"
    and sent :: "'s \<Rightarrow> string"
  assumes snk_write: "snk_write s bytes = (s', k, ec) \<Longrightarrow>
      k \<le> length bytes \<and> sent s' = sent s @ take k bytes"

text \<open>
  The concept \<open>socket\<close>: both, independent of each other; after \<open>stop_reading\<close> every read
  returns no bytes and completes.
\<close>

locale socket_contract =
  source_contract "sock_read ops" incoming + sink_contract "sock_write ops" sent
  for ops :: "'s socket_ops"
    and incoming :: "'s \<Rightarrow> string"
    and sent :: "'s \<Rightarrow> string" +
  fixes read_stopped :: "'s \<Rightarrow> bool"
  assumes read_frame: "sock_read ops s n = (s', data, ec) \<Longrightarrow>
      sent s' = sent s \<and> (read_stopped s' \<longleftrightarrow> read_stopped s)"
    and write_frame: "sock_write ops s bytes = (s', k, ew) \<Longrightarrow>
      incoming s' = incoming s \<and> (read_stopped s' \<longleftrightarrow> read_stopped s)"
    and stop_reading: "read_stopped (sock_stop_reading ops s)
      \<and> sent (sock_stop_reading ops s) = sent s \<and> incoming (sock_stop_reading ops s) = []"
    and read_when_stopped: "read_stopped s \<Longrightarrow> sock_read ops s n = (s', data, ec) \<Longrightarrow>
      data = [] \<and> ec = Op_completed"

text \<open>
  What the framework asks of a handler. An operation may throw; when it does not, content
  operations respect the size of the spans, a refusal comes with a message, and the fields
  of a response are valid, announce a length that is a number and announce no transfer
  encoding, and fit in memory with room to spare (the text of a header is one string). \<open>h_inv\<close> holds throughout; \<open>h_responding\<close> holds once a response has been
  finalized, and only then is response content read.
\<close>

definition wf_response_fields :: "field_map \<Rightarrow> bool" where
  "wf_response_fields m \<longleftrightarrow>
     wf_fields m \<and> get_content_length m \<noteq> None \<and> \<not> field_map_contains ''Transfer-encoding'' m
     \<and> length (fields_text m) < 2 ^ 62"

definition thrown :: "fault \<Rightarrow> bool" where
  "thrown e \<longleftrightarrow> (\<exists>msg. e = Exception_thrown msg) \<or> (\<exists>msg err. e = System_error msg err)"

text \<open>An exception has a text, if the C library can describe its error number.\<close>

lemma thrown_what:
  "thrown e \<Longrightarrow> \<forall>err. strerrordesc_np err \<noteq> None \<Longrightarrow> \<exists>description. what_text strerrordesc_np e = Inr description"
  by (auto simp: thrown_def system_error_def split: option.split)

locale handler_contract =
  fixes hops :: "('h, 'e) handler_ops"
    and h_inv :: "'h \<Rightarrow> bool"
    and h_responding :: "'h \<Rightarrow> bool"
  assumes h_responding_inv: "h_responding h \<Longrightarrow> h_inv h"
    and h_header: "h_inv h \<Longrightarrow> wf_request_header hdr \<Longrightarrow>
      (case finalize_header hops h hdr of Inl e \<Rightarrow> thrown e
       | Inr (h', res) \<Rightarrow> h_inv h' \<and> (is_error (http_status res) \<longrightarrow> error_message res \<noteq> None))"
    and h_content: "h_inv h \<Longrightarrow>
      (case process_request_content hops h bytes n of Inl e \<Rightarrow> thrown e
       | Inr (h', k, ec) \<Rightarrow> k \<le> length bytes \<and> h_inv h')"
    and h_body: "h_inv h \<Longrightarrow>
      (case finalize_body hops h [] of Inl e \<Rightarrow> thrown e
       | Inr (h', m, res) \<Rightarrow> h_responding h' \<and> wf_response_fields m
           \<and> (is_error (http_status res) \<longrightarrow> error_message res \<noteq> None))"
    and h_error: "h_inv h \<Longrightarrow> error_message res \<noteq> None \<Longrightarrow>
      (case finalize_error hops h [] res of Inl e \<Rightarrow> thrown e
       | Inr (h', m) \<Rightarrow> h_responding h' \<and> wf_response_fields m)"
    and h_read: "h_responding h \<Longrightarrow>
      (case read_response_content hops h out_size of Inl e \<Rightarrow> thrown e
       | Inr (h', data, ec) \<Rightarrow> length data \<le> out_size \<and> h_responding h')"

end
