(* ===== verification/Inet_Connection.thy ===== *)
theory Inet_Connection
  imports Session
begin

text \<open>
  Connected sockets: \<open>inet_connection\<close> of
  \<^verbatim>\<open>src/lib/io_inet_server_socket.hpp\<close>, over a kernel that is a parameter, and the
  in-memory source of \<^verbatim>\<open>src/stubs/data_source.hpp\<close>. The locale
  \<open>kernel_contract\<close> states what POSIX documents of \<open>read\<close>, \<open>send\<close> and \<open>shutdown\<close>
  on a stream socket; under it an \<open>inet_connection\<close> meets \<open>socket_contract\<close>.
\<close>

section \<open>System calls\<close>

text \<open>
  A system call returns a value, or -1 with \<open>errno\<close> set. The descriptor is fixed: the
  kernel state \<open>'k\<close> is that of the connection's peer and buffers.
\<close>

datatype 'a sys_result = Returned 'a | Failed errno

record 'k kernel_ops =
  sys_read :: "'k \<Rightarrow> nat \<Rightarrow> 'k \<times> string sys_result"
  sys_send :: "'k \<Rightarrow> string \<Rightarrow> 'k \<times> nat sys_result"
  sys_shutdown_read :: "'k \<Rightarrow> 'k"

definition errno_result :: "errno \<Rightarrow> operation_result" where
  "errno_result e = (if e = EAGAIN \<or> e = EWOULDBLOCK then Op_would_block else Op_error)"

section \<open>Connections\<close>

text \<open>
  The remote address, a number of 32 bits, and the remote port only pass through; \<open>m_fd\<close> is
  the kernel state.
\<close>

record 'k inet_connection =
  m_fd :: 'k
  m_remote_address :: "32 word"
  m_remote_port :: "16 word"
  m_read_disabled :: bool

definition inet_connection_init :: "'k \<Rightarrow> 32 word \<Rightarrow> 16 word \<Rightarrow> 'k inet_connection" where
  "inet_connection_init fd remote_address remote_port =
     \<lparr>m_fd = fd, m_remote_address = remote_address, m_remote_port = remote_port, m_read_disabled = False\<rparr>"

definition inet_read ::
  "'k kernel_ops \<Rightarrow> 'k inet_connection \<Rightarrow> nat \<Rightarrow> 'k inet_connection \<times> string \<times> operation_result" where
  "inet_read kops conn len =
     (if m_read_disabled conn then (conn, [], Op_completed)
      else
        (case sys_read kops (m_fd conn) len of (k', res) \<Rightarrow>
           (case res of
              Failed e \<Rightarrow> (conn\<lparr>m_fd := k'\<rparr>, [], errno_result e)
            | Returned data \<Rightarrow> (conn\<lparr>m_fd := k'\<rparr>, data, Op_completed))))"

definition inet_write ::
  "'k kernel_ops \<Rightarrow> 'k inet_connection \<Rightarrow> string \<Rightarrow> 'k inet_connection \<times> nat \<times> operation_result" where
  "inet_write kops conn bytes =
     (case sys_send kops (m_fd conn) bytes of (k', res) \<Rightarrow>
        (case res of
           Failed e \<Rightarrow> (conn\<lparr>m_fd := k'\<rparr>, 0, errno_result e)
         | Returned n \<Rightarrow> (conn\<lparr>m_fd := k'\<rparr>, n, Op_completed)))"

definition inet_stop_reading :: "'k kernel_ops \<Rightarrow> 'k inet_connection \<Rightarrow> 'k inet_connection" where
  "inet_stop_reading kops conn =
     conn\<lparr>m_fd := sys_shutdown_read kops (m_fd conn), m_read_disabled := True\<rparr>"

definition inet_ops :: "'k kernel_ops \<Rightarrow> 'k inet_connection socket_ops" where
  "inet_ops kops =
     \<lparr>sock_read = inet_read kops, sock_write = inet_write kops,
      sock_stop_reading = inet_stop_reading kops\<rparr>"

text \<open>
  What POSIX says of a stream socket: a read returns at most the bytes asked for, from
  the front of those that arrive, and none only when the peer has closed its end and all
  have been read; a send takes a prefix; a failed call moves nothing.
\<close>

locale kernel_contract =
  fixes kops :: "'k kernel_ops"
    and arriving :: "'k \<Rightarrow> string"
    and delivered :: "'k \<Rightarrow> string"
  assumes k_read: "sys_read kops k n = (k', r) \<Longrightarrow> delivered k' = delivered k \<and>
      (case r of Returned data \<Rightarrow> length data \<le> n \<and> arriving k = data @ arriving k'
       | Failed _ \<Rightarrow> arriving k' = arriving k)"
    and k_eof: "sys_read kops k n = (k', Returned []) \<Longrightarrow> 0 < n \<Longrightarrow> arriving k = []"
    and k_send: "sys_send kops k bytes = (k', w) \<Longrightarrow> arriving k' = arriving k \<and>
      (case w of Returned m \<Rightarrow> m \<le> length bytes \<and> delivered k' = delivered k @ take m bytes
       | Failed _ \<Rightarrow> delivered k' = delivered k)"
    and k_shutdown: "delivered (sys_shutdown_read kops k) = delivered k"
begin

definition inet_incoming :: "'k inet_connection \<Rightarrow> string" where
  "inet_incoming conn = (if m_read_disabled conn then [] else arriving (m_fd conn))"

definition inet_sent :: "'k inet_connection \<Rightarrow> string" where
  "inet_sent conn = delivered (m_fd conn)"

end

sublocale kernel_contract \<subseteq> inet: socket_contract "inet_ops kops" inet_incoming inet_sent m_read_disabled
proof unfold_locales
  fix s s' data ec n
  assume r: "sock_read (inet_ops kops) s n = (s', data, ec)"
  show "length data \<le> n \<and> inet_incoming s = data @ inet_incoming s' \<and> (data \<noteq> [] \<longrightarrow> ec = Op_completed)"
    and "inet_sent s' = inet_sent s \<and> m_read_disabled s' = m_read_disabled s"
    using r k_read [of "m_fd s" n]
    by (auto simp: inet_ops_def inet_read_def inet_incoming_def inet_sent_def
        split: prod.splits sys_result.splits if_splits)
next
  fix s s' n
  assume "sock_read (inet_ops kops) s n = (s', [], Op_completed)" and "0 < n"
  then show "inet_incoming s = []"
    by (auto simp: inet_ops_def inet_read_def inet_incoming_def errno_result_def
        split: prod.splits sys_result.splits if_splits dest: k_eof)
next
  fix s bytes s' k ew
  assume w: "sock_write (inet_ops kops) s bytes = (s', k, ew)"
  show "k \<le> length bytes \<and> inet_sent s' = inet_sent s @ take k bytes"
    and "inet_incoming s' = inet_incoming s \<and> m_read_disabled s' = m_read_disabled s"
    using w k_send [of "m_fd s" bytes]
    by (auto simp: inet_ops_def inet_write_def inet_incoming_def inet_sent_def
        split: prod.splits sys_result.splits)
qed (auto simp: inet_ops_def inet_read_def inet_stop_reading_def inet_sent_def inet_incoming_def k_shutdown)

section \<open>A kernel that follows a script\<close>

text \<open>
  A kernel whose answers are listed in advance: for each read, the bytes that had arrived
  or a failure, and for each send, how many bytes there was room for or a failure. An
  empty piece stands for the peer closing its end: every read from there on returns
  nothing. A read smaller than what arrived leaves the rest for the next one; past the end
  of the script both calls would block. Any behaviour of a peer over a finite time is such
  a script.
\<close>

record script_kernel =
  k_reads :: "string sys_result list"
  k_sends :: "nat sys_result list"
  k_delivered :: string

definition script_read :: "script_kernel \<Rightarrow> nat \<Rightarrow> script_kernel \<times> string sys_result" where
  "script_read k n =
     (case k_reads k of
        [] \<Rightarrow> (k, Failed EAGAIN)
      | Failed e # rs \<Rightarrow> (k\<lparr>k_reads := rs\<rparr>, Failed e)
      | Returned data # rs \<Rightarrow>
          if data = [] then (k, Returned [])
          else if length data \<le> n then (k\<lparr>k_reads := rs\<rparr>, Returned data)
          else (k\<lparr>k_reads := Returned (drop n data) # rs\<rparr>, Returned (take n data)))"

definition script_send :: "script_kernel \<Rightarrow> string \<Rightarrow> script_kernel \<times> nat sys_result" where
  "script_send k bytes =
     (case k_sends k of
        [] \<Rightarrow> (k, Failed EAGAIN)
      | Failed e # ws \<Rightarrow> (k\<lparr>k_sends := ws\<rparr>, Failed e)
      | Returned m # ws \<Rightarrow>
          (let m' = min m (length bytes) in
           (k\<lparr>k_sends := ws, k_delivered := k_delivered k @ take m' bytes\<rparr>, Returned m')))"

definition script_ops :: "script_kernel kernel_ops" where
  "script_ops = \<lparr>sys_read = script_read, sys_send = script_send, sys_shutdown_read = (\<lambda>k. k)\<rparr>"

fun pieces_arriving :: "string sys_result list \<Rightarrow> string" where
  "pieces_arriving [] = []"
| "pieces_arriving (Failed e # rs) = pieces_arriving rs"
| "pieces_arriving (Returned data # rs) = (if data = [] then [] else data @ pieces_arriving rs)"

definition script_arriving :: "script_kernel \<Rightarrow> string" where
  "script_arriving k = pieces_arriving (k_reads k)"

interpretation script: kernel_contract script_ops script_arriving k_delivered
proof unfold_locales
  fix k n k' r
  assume "sys_read script_ops k n = (k', r)"
  then show "k_delivered k' = k_delivered k \<and>
      (case r of Returned data \<Rightarrow> length data \<le> n \<and> script_arriving k = data @ script_arriving k'
       | Failed _ \<Rightarrow> script_arriving k' = script_arriving k)"
    by (auto simp: script_ops_def script_read_def script_arriving_def
        split: list.splits sys_result.splits if_splits)
next
  fix k n k'
  assume "sys_read script_ops k n = (k', Returned [])" and "0 < n"
  then show "script_arriving k = []"
    by (auto simp: script_ops_def script_read_def script_arriving_def
        split: list.splits sys_result.splits if_splits)
next
  fix k bytes k' w
  assume "sys_send script_ops k bytes = (k', w)"
  then show "script_arriving k' = script_arriving k \<and>
      (case w of Returned m \<Rightarrow> m \<le> length bytes \<and> k_delivered k' = k_delivered k @ take m bytes
       | Failed _ \<Rightarrow> k_delivered k' = k_delivered k)"
    by (auto simp: script_ops_def script_send_def script_arriving_def Let_def
        split: list.splits sys_result.splits)
qed (simp add: script_ops_def)

section \<open>The in-memory source of the tests\<close>

datatype source_mode = Mode_normal | Mode_blocking | Mode_error

record data_source =
  ds_buffer :: string
  ds_ptr :: nat
  ds_mode :: source_mode

definition data_source_init :: "string \<Rightarrow> data_source" where
  "data_source_init buffer = \<lparr>ds_buffer = buffer, ds_ptr = 0, ds_mode = Mode_normal\<rparr>"

definition data_source_read ::
  "data_source \<Rightarrow> nat \<Rightarrow> data_source \<times> string \<times> operation_result" where
  "data_source_read src out_size =
     (case ds_mode src of
        Mode_normal \<Rightarrow>
          (let remaining = length (ds_buffer src) - ds_ptr src;
               bytes_to_read = min (min out_size remaining) 13
           in (src\<lparr>ds_ptr := ds_ptr src + bytes_to_read\<rparr>,
               take bytes_to_read (drop (ds_ptr src) (ds_buffer src)), Op_completed))
      | Mode_blocking \<Rightarrow> (src, [], Op_would_block)
      | Mode_error \<Rightarrow> (src, [], Op_error))"

definition data_source_set_mode :: "source_mode \<Rightarrow> data_source \<Rightarrow> data_source" where
  "data_source_set_mode new_mode src = src\<lparr>ds_mode := new_mode\<rparr>"

definition data_source_rest :: "data_source \<Rightarrow> string" where
  "data_source_rest src = drop (ds_ptr src) (ds_buffer src)"

interpretation stub: source_contract data_source_read data_source_rest
proof unfold_locales
  fix s s' data ec n
  assume r: "data_source_read s n = (s', data, ec)"
  have "take k (drop p b) @ drop (p + k) b = drop p b" for k p and b :: string
    using append_take_drop_id [of k "drop p b"] by (simp add: add.commute)
  then show "length data \<le> n \<and> data_source_rest s = data @ data_source_rest s' \<and>
      (data \<noteq> [] \<longrightarrow> ec = Op_completed)"
    using r by (auto simp: data_source_read_def data_source_rest_def Let_def
        split: source_mode.splits)
next
  fix s s' n
  assume "data_source_read s n = (s', [], Op_completed)" and "0 < n"
  then show "data_source_rest s = []"
    by (auto simp: data_source_read_def data_source_rest_def Let_def split: source_mode.splits)
qed

end
