(* ===== verification/Server_Socket.thy ===== *)
theory Server_Socket
  imports Inet_Connection
begin

text \<open>
  Server sockets: \<open>inet_server_socket\<close>, \<open>bind\<close> and \<open>try_bind\<close> of
  \<^verbatim>\<open>src/lib/io_inet_server_socket.hpp\<close>, with the wrappers of
  \<^verbatim>\<open>src/lib/io_fd.hpp\<close> they use. A descriptor is closed when its owner is destroyed: the
  closing is written out where that happens. The locale \<open>descriptor_calls\<close> states what the
  calls do to the set of open descriptors.
\<close>

section \<open>System calls\<close>

type_synonym fd = int

text \<open>
  The system calls on server sockets. An accepted connection has a descriptor, the state of
  its own stream and the address and port fields of the peer's address. \<open>bind\<close> returns -1 when it fails.
\<close>

record ('k, 'c) server_calls =
  sys_socket :: "'k \<Rightarrow> 'k \<times> fd sys_result"
  sys_bind :: "'k \<Rightarrow> fd \<Rightarrow> 32 word \<Rightarrow> 16 word \<Rightarrow> 'k \<times> unit sys_result"
  sys_listen :: "'k \<Rightarrow> fd \<Rightarrow> int \<Rightarrow> 'k \<times> unit sys_result"
  sys_accept :: "'k \<Rightarrow> fd \<Rightarrow> 'k \<times> (fd \<times> 'c \<times> 32 word \<times> 16 word) sys_result"
  sys_set_send_buffer :: "'k \<Rightarrow> fd \<Rightarrow> int \<Rightarrow> 'k \<times> unit sys_result"
  sys_set_non_blocking :: "'k \<Rightarrow> fd \<Rightarrow> 'k \<times> unit sys_result"
  sys_close :: "'k \<Rightarrow> fd \<Rightarrow> 'k"
  sys_errno :: "'k \<Rightarrow> errno"

text \<open>The result of a call that throws when it fails, with the state of the kernel after it.\<close>

definition checked :: "'k \<times> 'a sys_result \<Rightarrow> string \<Rightarrow> 'k \<times> 'a faulty" where
  "checked r msg = (case r of
     (k, Returned x) \<Rightarrow> (k, Inr x) | (k, Failed e) \<Rightarrow> (k, Inl (System_error msg e)))"

definition create_socket :: "('k, 'c) server_calls \<Rightarrow> 'k \<Rightarrow> 'k \<times> fd faulty" where
  "create_socket calls k = checked (sys_socket calls k) ''Failed to create socket''"

definition set_non_blocking :: "('k, 'c) server_calls \<Rightarrow> fd \<Rightarrow> 'k \<Rightarrow> 'k \<times> unit faulty" where
  "set_non_blocking calls fd k =
     checked (sys_set_non_blocking calls k fd) ''Failed to enable nonblocking mode''"

section \<open>Server sockets\<close>

record inet_server_socket =
  srv_fd :: fd
  srv_port :: "16 word"
  m_conn_send_size :: "int option"

definition try_bind ::
  "('k, 'c) server_calls \<Rightarrow> fd \<Rightarrow> 32 word \<Rightarrow> 16 word \<Rightarrow> 'k \<Rightarrow> 'k \<times> unit sys_result" where
  "try_bind calls fd client_address port k = sys_bind calls k fd client_address port"

text \<open>
  \<open>bind\<close> tries the ports of a half-open range in order and returns the first that can
  be bound; with none it throws, with the \<open>errno\<close> of the last attempt, or the one from before
  when there are no ports. \<open>bind_func\<close> is a parameter as in the code; ports are cut to 16
  bits before they are tried and when one is returned.
\<close>

fun bind_ports ::
  "(16 word \<Rightarrow> 'k \<Rightarrow> 'k \<times> unit sys_result) \<Rightarrow> int list \<Rightarrow> errno \<Rightarrow> 'k \<Rightarrow> 'k \<times> (16 word) faulty" where
  "bind_ports bind_func [] err k = (k, Inl (System_error ''Failed to bind socket'' err))"
| "bind_ports bind_func (port # ports_to_try) err k =
     (case bind_func (word_of_int port) k of
        (k1, Returned _) \<Rightarrow> (k1, Inr (word_of_int port))
      | (k1, Failed e) \<Rightarrow> bind_ports bind_func ports_to_try e k1)"

text \<open>The constructor; the owner of the descriptor, a member, is destroyed when it throws.\<close>

definition inet_server_socket_init ::
  "('k, 'c) server_calls \<Rightarrow> 32 word \<Rightarrow> int list \<Rightarrow> int \<Rightarrow> int option \<Rightarrow> 'k \<Rightarrow>
   'k \<times> inet_server_socket faulty" where
  "inet_server_socket_init calls client_address ports_to_try listen_backlock conn_send_size k =
     (case create_socket calls k of
        (k1, Inl e) \<Rightarrow> (k1, Inl e)
      | (k1, Inr fd) \<Rightarrow>
          (case bind_ports (try_bind calls fd client_address) ports_to_try (sys_errno calls k1) k1 of
             (k2, Inl e) \<Rightarrow> (sys_close calls k2 fd, Inl e)
           | (k2, Inr port) \<Rightarrow>
               (case checked (sys_listen calls k2 fd listen_backlock) ''Failed to listen on socket'' of
                  (k3, Inl e) \<Rightarrow> (sys_close calls k3 fd, Inl e)
                | (k3, Inr _) \<Rightarrow>
                    (k3, Inr \<lparr>srv_fd = fd, srv_port = port, m_conn_send_size = conn_send_size\<rparr>))))"

definition inet_accept ::
  "('k, 'c) server_calls \<Rightarrow> inet_server_socket \<Rightarrow> 'k \<Rightarrow> 'k \<times> (fd \<times> 'c inet_connection) faulty" where
  "inet_accept calls srv k =
     (case checked (sys_accept calls k (srv_fd srv)) ''Failed to establish a connection'' of
        (k1, Inl e) \<Rightarrow> (k1, Inl e)
      | (k1, Inr (fd, c, sin_addr, sin_port)) \<Rightarrow>
          (case m_conn_send_size srv of
             None \<Rightarrow> (k1, Inr (fd, inet_connection_init c sin_addr sin_port))
           | Some send_size \<Rightarrow>
               (case checked (sys_set_send_buffer calls k1 fd send_size) ''Failed to set SO_SNDBUF'' of
                  (k2, Inl e) \<Rightarrow> (sys_close calls k2 fd, Inl e)
                | (k2, Inr _) \<Rightarrow> (k2, Inr (fd, inet_connection_init c sin_addr sin_port)))))"

section \<open>Open descriptors\<close>

text \<open>
  What POSIX says of open descriptors: a new socket gets one that was not open, closing
  one makes it not open, and no other call changes which are.
\<close>

locale descriptor_calls =
  fixes calls :: "('k, 'c) server_calls"
    and opened :: "'k \<Rightarrow> fd set"
  assumes op_socket: "sys_socket calls k = (k', r) \<Longrightarrow>
      (case r of Returned fd \<Rightarrow> fd \<notin> opened k \<and> opened k' = insert fd (opened k)
       | Failed _ \<Rightarrow> opened k' = opened k)"
    and op_bind: "sys_bind calls k fd addr port = (k', res) \<Longrightarrow> opened k' = opened k"
    and op_listen: "sys_listen calls k fd n = (k', u) \<Longrightarrow> opened k' = opened k"
    and op_accept: "sys_accept calls k fd = (k', a) \<Longrightarrow>
      (case a of Returned (cfd, c, address, port) \<Rightarrow> cfd \<notin> opened k \<and> opened k' = insert cfd (opened k)
       | Failed _ \<Rightarrow> opened k' = opened k)"
    and op_send_buffer: "sys_set_send_buffer calls k fd n = (k', u) \<Longrightarrow> opened k' = opened k"
    and op_non_blocking: "sys_set_non_blocking calls k fd = (k', u) \<Longrightarrow> opened k' = opened k"
    and op_close: "opened (sys_close calls k fd) = opened k - {fd}"
begin

lemma bind_ports_opened:
  "bind_ports (try_bind calls fd addr) ports err k = (k', r) \<Longrightarrow> opened k' = opened k"
proof (induction ports arbitrary: err k)
  case (Cons port ports)
  obtain k1 res where b: "sys_bind calls k fd addr (word_of_int port) = (k1, res)" by fastforce
  from Cons op_bind [OF b] show ?case by (auto simp: try_bind_def b split: sys_result.splits)
qed simp

lemma inet_server_socket_init_opened:
  assumes "inet_server_socket_init calls addr ports backlog send_size k = (k', r)"
  shows "case r of
      Inl e \<Rightarrow> opened k' = opened k
    | Inr srv \<Rightarrow> srv_fd srv \<notin> opened k \<and> opened k' = insert (srv_fd srv) (opened k)"
proof -
  obtain k1 s where s: "sys_socket calls k = (k1, s)" by fastforce
  note sock = op_socket [OF s]
  show ?thesis
  proof (cases s)
    case (Failed e)
    with assms sock show ?thesis
      by (auto simp: inet_server_socket_init_def create_socket_def checked_def s)
  next
    case (Returned fd)
    obtain k2 b where b: "bind_ports (try_bind calls fd addr) ports (sys_errno calls k1) k1 = (k2, b)" by fastforce
    show ?thesis
    proof (cases b)
      case (Inl e)
      with assms sock bind_ports_opened [OF b] show ?thesis
        by (auto simp: inet_server_socket_init_def create_socket_def checked_def s Returned b op_close)
    next
      case (Inr port)
      obtain k3 l where l: "sys_listen calls k2 fd backlog = (k3, l)" by fastforce
      from assms sock bind_ports_opened [OF b] op_listen [OF l] Inr show ?thesis
        by (cases l)
           (auto simp: inet_server_socket_init_def create_socket_def checked_def s Returned b l op_close)
    qed
  qed
qed

lemma inet_accept_opened:
  assumes "inet_accept calls srv k = (k', r)"
  shows "case r of
      Inl e \<Rightarrow> opened k' = opened k
    | Inr (fd, conn) \<Rightarrow> fd \<notin> opened k \<and> opened k' = insert fd (opened k)"
proof -
  obtain k1 a where a: "sys_accept calls k (srv_fd srv) = (k1, a)" by fastforce
  note acc = op_accept [OF a]
  show ?thesis
  proof (cases a)
    case (Failed e)
    with assms a acc show ?thesis by (auto simp: inet_accept_def checked_def)
  next
    case (Returned x)
    obtain fd c address port where x: "x = (fd, c, address, port)" by (cases x)
    show ?thesis
    proof (cases "m_conn_send_size srv")
      case None
      with assms a acc show ?thesis by (auto simp: inet_accept_def checked_def Returned x)
    next
      case (Some send_size)
      obtain k2 b where b: "sys_set_send_buffer calls k1 fd send_size = (k2, b)" by fastforce
      from assms a acc Some b op_send_buffer [OF b] show ?thesis
        by (cases b) (auto simp: inet_accept_def checked_def Returned x op_close)
    qed
  qed
qed

end

section \<open>The port of a server socket\<close>

text \<open>
  The ports that were tried, in order, each by the state in which it was, and refused; and the
  \<open>errno\<close> that is left, which is that of the last of them.
\<close>

fun ports_refused ::
  "(16 word \<Rightarrow> 'k \<Rightarrow> 'k \<times> unit sys_result) \<Rightarrow> int list \<Rightarrow> errno \<Rightarrow> 'k \<Rightarrow> errno \<Rightarrow> 'k \<Rightarrow> bool" where
  "ports_refused bind_func [] err k err' k' \<longleftrightarrow> err' = err \<and> k' = k"
| "ports_refused bind_func (port # ports) err k err' k' \<longleftrightarrow>
     (case bind_func (word_of_int port) k of
        (k1, Returned _) \<Rightarrow> False
      | (k1, Failed e) \<Rightarrow> ports_refused bind_func ports e k1 err' k')"

lemma bind_ports_first:
  "bind_ports bind_func ports err k = (k', r) \<Longrightarrow>
     (case r of
        Inl e \<Rightarrow> \<exists>err'. e = System_error ''Failed to bind socket'' err' \<and> ports_refused bind_func ports err k err' k'
      | Inr p \<Rightarrow> \<exists>tried port rest err1 k1. ports = tried @ port # rest \<and> p = word_of_int port
          \<and> ports_refused bind_func tried err k err1 k1 \<and> bind_func p k1 = (k', Returned ()))"
proof (induction ports arbitrary: err k)
  case (Cons port ports)
  obtain k1 res where b: "bind_func (word_of_int port) k = (k1, res)" by fastforce
  show ?case
  proof (cases res)
    case (Failed e)
    with Cons.prems b have rest: "bind_ports bind_func ports e k1 = (k', r)" by simp
    show ?thesis
    proof (cases r)
      case (Inl e')
      with Cons.IH [OF rest] b Failed show ?thesis by simp
    next
      case (Inr p)
      with Cons.IH [OF rest] obtain tried q rest' err2 k2 where
        "ports = tried @ q # rest'" "p = word_of_int q" "ports_refused bind_func tried e k1 err2 k2"
        "bind_func p k2 = (k', Returned ())" by auto
      then have "port # ports = (port # tried) @ q # rest' \<and> p = word_of_int q
          \<and> ports_refused bind_func (port # tried) err k err2 k2 \<and> bind_func p k2 = (k', Returned ())"
        using b Failed by simp
      with Inr show ?thesis by (simp only: sum.case) blast
    qed
  next
    case (Returned u)
    with Cons.prems b have "r = Inr (word_of_int port)" "k' = k1" by simp_all
    with b Returned show ?thesis
      by (simp only: sum.case)
         (rule exI [of _ "[]"], rule exI [of _ port], rule exI [of _ ports], rule exI [of _ err],
          rule exI [of _ k], simp)
  qed
qed auto

lemma inet_server_socket_initD:
  assumes "inet_server_socket_init calls addr ports backlog send_size k = (k', Inr srv)"
  shows "\<exists>k1 k2. sys_socket calls k = (k1, Returned (srv_fd srv))
    \<and> bind_ports (try_bind calls (srv_fd srv) addr) ports (sys_errno calls k1) k1 = (k2, Inr (srv_port srv))
    \<and> sys_listen calls k2 (srv_fd srv) backlog = (k', Returned ())
    \<and> m_conn_send_size srv = send_size"
  using assms
  by (auto simp: inet_server_socket_init_def create_socket_def checked_def
      split: prod.splits sum.splits sys_result.splits)

text \<open>Why it throws: which call failed, and what has been tried before.\<close>

lemma inet_server_socket_init_refused:
  assumes "inet_server_socket_init calls addr ports backlog send_size k = (k', Inl e)"
  shows "(\<exists>err. sys_socket calls k = (k', Failed err) \<and> e = System_error ''Failed to create socket'' err)
    \<or> (\<exists>fd k1 k2 err. sys_socket calls k = (k1, Returned fd)
        \<and> ports_refused (try_bind calls fd addr) ports (sys_errno calls k1) k1 err k2
        \<and> k' = sys_close calls k2 fd \<and> e = System_error ''Failed to bind socket'' err)
    \<or> (\<exists>fd tried port rest k1 err1 k2 k3 k4 err. ports = tried @ port # rest
        \<and> sys_socket calls k = (k1, Returned fd)
        \<and> ports_refused (try_bind calls fd addr) tried (sys_errno calls k1) k1 err1 k2
        \<and> sys_bind calls k2 fd addr (word_of_int port) = (k3, Returned ())
        \<and> sys_listen calls k3 fd backlog = (k4, Failed err)
        \<and> k' = sys_close calls k4 fd \<and> e = System_error ''Failed to listen on socket'' err)"
    (is "?no_socket \<or> ?no_port \<or> ?not_listening")
proof -
  obtain k1 s where s: "sys_socket calls k = (k1, s)" by fastforce
  show ?thesis
  proof (cases s)
    case (Failed err)
    with assms have ?no_socket by (simp add: inet_server_socket_init_def create_socket_def checked_def s)
    then show ?thesis ..
  next
    case (Returned fd)
    let ?attempt = "try_bind calls fd addr"
    obtain k3 b where b: "bind_ports ?attempt ports (sys_errno calls k1) k1 = (k3, b)" by fastforce
    show ?thesis
    proof (cases b)
      case (Inl e')
      with bind_ports_first [OF b] obtain err where
        "e' = System_error ''Failed to bind socket'' err"
        "ports_refused ?attempt ports (sys_errno calls k1) k1 err k3" by auto
      moreover have "k' = sys_close calls k3 fd" "e = e'"
        using assms by (simp_all add: inet_server_socket_init_def create_socket_def checked_def s Returned b Inl)
      ultimately have ?no_port using s Returned by blast
      then show ?thesis by blast
    next
      case (Inr p)
      with bind_ports_first [OF b] obtain tried port rest err1 k2 where
        t: "ports = tried @ port # rest" "p = word_of_int port"
          "ports_refused ?attempt tried (sys_errno calls k1) k1 err1 k2" "?attempt p k2 = (k3, Returned ())"
        by auto
      obtain k4 l where l: "sys_listen calls k3 fd backlog = (k4, l)" by fastforce
      obtain err where "l = Failed err" "k' = sys_close calls k4 fd"
        "e = System_error ''Failed to listen on socket'' err"
        using assms
        by (cases l) (simp_all add: inet_server_socket_init_def create_socket_def checked_def s Returned b Inr l)
      with t s Returned l have ?not_listening by (simp only: try_bind_def) blast
      then show ?thesis by blast
    qed
  qed
qed

text \<open>
  C25: making a server socket. It listens on the first port of the range, in order, that the
  kernel binds it to, having been refused all before, and \<open>port\<close> is that port; the one new
  descriptor is its own. Otherwise it throws, with the \<open>errno\<close> of the call that failed, and no
  descriptor is left open: there was no socket; or every port of the range, in order, has
  been refused; or the socket was bound to the first that was not, and could not listen.
  (The ports of the range must be ports: \<open>bind\<close> cuts them to 16 bits.)
\<close>

theorem server_socket_listens:
  assumes "descriptor_calls calls opened" and "set ports \<subseteq> {0..<65536}"
    and "inet_server_socket_init calls addr ports backlog send_size k = (k', r)"
  shows "case r of
      Inl e \<Rightarrow> thrown e \<and> opened k' = opened k
        \<and> ((\<exists>err. sys_socket calls k = (k', Failed err) \<and> e = System_error ''Failed to create socket'' err)
           \<or> (\<exists>fd k1 k2 err. sys_socket calls k = (k1, Returned fd)
                \<and> ports_refused (try_bind calls fd addr) ports (sys_errno calls k1) k1 err k2
                \<and> k' = sys_close calls k2 fd \<and> e = System_error ''Failed to bind socket'' err)
           \<or> (\<exists>fd tried port rest k1 err1 k2 k3 k4 err. ports = tried @ port # rest
                \<and> sys_socket calls k = (k1, Returned fd)
                \<and> ports_refused (try_bind calls fd addr) tried (sys_errno calls k1) k1 err1 k2
                \<and> sys_bind calls k2 fd addr (word_of_int port) = (k3, Returned ())
                \<and> sys_listen calls k3 fd backlog = (k4, Failed err)
                \<and> k' = sys_close calls k4 fd \<and> e = System_error ''Failed to listen on socket'' err))
    | Inr srv \<Rightarrow> srv_fd srv \<notin> opened k \<and> opened k' = insert (srv_fd srv) (opened k)
        \<and> m_conn_send_size srv = send_size
        \<and> (\<exists>tried rest k1 err1 k2 k3. ports = tried @ uint (srv_port srv) # rest
             \<and> sys_socket calls k = (k1, Returned (srv_fd srv))
             \<and> ports_refused (try_bind calls (srv_fd srv) addr) tried (sys_errno calls k1) k1 err1 k2
             \<and> sys_bind calls k2 (srv_fd srv) addr (srv_port srv) = (k3, Returned ())
             \<and> sys_listen calls k3 (srv_fd srv) backlog = (k', Returned ()))"
proof -
  note opened = descriptor_calls.inet_server_socket_init_opened [OF assms(1,3)]
  show ?thesis
  proof (cases r)
    case (Inl e)
    note why = inet_server_socket_init_refused [OF assms(3) [unfolded Inl]]
    then have "thrown e" by (auto simp: thrown_def)
    with why opened show ?thesis by (simp only: Inl sum.case simp_thms)
  next
    case (Inr srv)
    let ?attempt = "try_bind calls (srv_fd srv) addr"
    from inet_server_socket_initD [OF assms(3) [unfolded Inr]] obtain k1 k3 where
      sock: "sys_socket calls k = (k1, Returned (srv_fd srv))"
      and b: "bind_ports ?attempt ports (sys_errno calls k1) k1 = (k3, Inr (srv_port srv))"
      and l: "sys_listen calls k3 (srv_fd srv) backlog = (k', Returned ())"
      and n: "m_conn_send_size srv = send_size" by blast
    from bind_ports_first [OF b, unfolded sum.case] obtain tried port rest err1 k2 where
      f: "ports = tried @ port # rest" "srv_port srv = word_of_int port"
        "ports_refused ?attempt tried (sys_errno calls k1) k1 err1 k2"
        "?attempt (srv_port srv) k2 = (k3, Returned ())" by blast
    have "0 \<le> port" "port < 2 ^ 16" using assms(2) f(1) by auto
    then have "port = uint (srv_port srv)" by (simp add: f(2) uint_word_of_int)
    with f(1) have "ports = tried @ uint (srv_port srv) # rest" by simp
    with f(3,4) sock l have "ports = tried @ uint (srv_port srv) # rest
        \<and> sys_socket calls k = (k1, Returned (srv_fd srv))
        \<and> ports_refused ?attempt tried (sys_errno calls k1) k1 err1 k2
        \<and> sys_bind calls k2 (srv_fd srv) addr (srv_port srv) = (k3, Returned ())
        \<and> sys_listen calls k3 (srv_fd srv) backlog = (k', Returned ())"
      by (simp only: try_bind_def simp_thms)
    with opened n show ?thesis by (simp only: Inr sum.case) blast
  qed
qed

text \<open>A kernel with nothing but ports: 8080 is taken, 8081 is free.\<close>

record port_kernel =
  pk_open :: "fd list"
  pk_bound :: "16 word list"

definition port_calls :: "(port_kernel, unit) server_calls" where
  "port_calls =
     \<lparr>sys_socket = (\<lambda>k. let fd = Max (insert 0 (set (pk_open k))) + 1 in (k\<lparr>pk_open := fd # pk_open k\<rparr>, Returned fd)),
      sys_bind = (\<lambda>k fd addr port.
        if port \<in> set (pk_bound k) then (k, Failed (Other_errno 98))
        else (k\<lparr>pk_bound := port # pk_bound k\<rparr>, Returned ())),
      sys_listen = (\<lambda>k fd n. (k, Returned ())),
      sys_accept = (\<lambda>k fd. (k, Failed EAGAIN)),
      sys_set_send_buffer = (\<lambda>k fd n. (k, Returned ())),
      sys_set_non_blocking = (\<lambda>k fd. (k, Returned ())),
      sys_close = (\<lambda>k fd. k\<lparr>pk_open := filter (\<lambda>f. f \<noteq> fd) (pk_open k)\<rparr>),
      sys_errno = (\<lambda>k. Other_errno 0)\<rparr>"

interpretation ports: descriptor_calls port_calls "\<lambda>k. set (pk_open k)"
proof unfold_locales
  have fresh: "Max (insert 0 (set fds)) + 1 \<notin> set fds" for fds :: "int list"
    using Max_ge [of "insert 0 (set fds)" "Max (insert 0 (set fds)) + 1"] by fastforce
  fix k k' r
  assume "sys_socket port_calls k = (k', r)"
  then have "k' = k\<lparr>pk_open := (Max (insert 0 (set (pk_open k))) + 1) # pk_open k\<rparr>"
    "r = Returned (Max (insert 0 (set (pk_open k))) + 1)" by (simp_all add: port_calls_def Let_def)
  then show "case r of Returned fd \<Rightarrow> fd \<notin> set (pk_open k) \<and> set (pk_open k') = insert fd (set (pk_open k))
      | Failed _ \<Rightarrow> set (pk_open k') = set (pk_open k)"
    using fresh [of "pk_open k"] by simp
qed (auto simp: port_calls_def split: if_splits)

theorem server_socket_listens_witness:
  "inet_server_socket_init port_calls 0x7F000001 [8080, 8081, 8082] 128 None
      \<lparr>pk_open = [2, 1], pk_bound = [8080]\<rparr>
    = (\<lparr>pk_open = [3, 2, 1], pk_bound = [8081, 8080]\<rparr>,
       Inr \<lparr>srv_fd = 3, srv_port = 8081, m_conn_send_size = None\<rparr>)
   \<and> (\<exists>tried rest. [8080, 8081, 8082] = tried @ uint (8081 :: 16 word) # rest)"
  (is "?init = (?k', Inr ?srv) \<and> _")
proof -
  have made: "?init = (?k', Inr ?srv)"
    by (simp add: inet_server_socket_init_def create_socket_def checked_def try_bind_def port_calls_def Let_def)
  have "set [8080, 8081, 8082] \<subseteq> {0..<65536 :: int}" by simp
  from server_socket_listens [OF ports.descriptor_calls_axioms this made] made show ?thesis
    by (simp only: sum.case) auto
qed

end
