(* ===== verification/Event_Monitor.thy ===== *)
theory Event_Monitor
  imports Server_Socket
begin

text \<open>
  \<^verbatim>\<open>src/lib/io_fd_event_monitor.hpp\<close>: the monitor of file descriptors, over epoll. It
  keeps a listener for every descriptor it watches and a list of deadlines, ordered by
  time; each listener knows its node in the list. A cycle waits for events, calls the
  listeners of the descriptors that are ready, then the listeners that have been inactive,
  and then drops the listeners that were removed during the cycle.

  The kernel (epoll and the clock) is a parameter, with the locale \<open>epoll_contract\<close> for
  what its documentation says; so are the listeners, with \<open>listener_contract\<close>. A call
  that faults keeps the state it had reached, because an exception does.
\<close>

section \<open>The kernel\<close>

datatype listen_on = Read_is_possible | Write_is_possible | Readwrite_is_possible

text \<open>The system calls on an epoll instance, and the clock. Time is counted in nanoseconds.\<close>

record 'k epoll_ops =
  sys_epoll_create :: "'k \<Rightarrow> 'k \<times> unit sys_result"
  sys_epoll_add :: "'k \<Rightarrow> fd \<Rightarrow> listen_on \<Rightarrow> 'k \<times> unit sys_result"
  sys_epoll_mod :: "'k \<Rightarrow> fd \<Rightarrow> listen_on \<Rightarrow> 'k \<times> unit sys_result"
  sys_epoll_del :: "'k \<Rightarrow> fd \<Rightarrow> 'k \<times> unit sys_result"
  sys_epoll_wait :: "'k \<Rightarrow> nat \<Rightarrow> 'k \<times> fd list sys_result"
  sys_now :: "'k \<Rightarrow> 'k \<times> nat"

section \<open>The state of the monitor\<close>

definition inactivity_period :: nat where
  "inactivity_period = 20 * 10 ^ 9"

text \<open>
  A listener is its object and its timer. The timer is an iterator of the deadline list;
  a node of that list keeps its name however it is moved, and names are not used again.
  \<open>next_node\<close> is the next name. The elements of the list are the name of the node, the
  deadline and the descriptor.
\<close>

record 'l listener =
  m_object :: 'l
  m_timer :: nat

type_synonym fd_activity_list = "(nat \<times> nat \<times> fd) list"

record ('k, 'l) fd_event_monitor =
  m_epoll :: 'k
  m_event_buffer_capacity :: nat
  m_listeners :: "(fd \<times> 'l listener) list"
  m_fds_to_remove :: "fd list"
  m_fd_activity_timestamps :: fd_activity_list
  m_reg_should_be_cleared :: bool
  next_node :: nat

text \<open>A state, and the fault that ended the call in it, if one did.\<close>

type_synonym ('k, 'l) monitor_run = "('k, 'l) fd_event_monitor \<times> fault option"

definition run_then ::
  "('k, 'l) monitor_run \<Rightarrow> (('k, 'l) fd_event_monitor \<Rightarrow> ('k, 'l) monitor_run) \<Rightarrow>
   ('k, 'l) monitor_run" where
  "run_then r f = (case r of (mon, None) \<Rightarrow> f mon | (mon, Some e) \<Rightarrow> (mon, Some e))"

text \<open>
  A listener's two functions, on its object, with the monitor itself as the registry:
  through \<open>fd_callback_registry_ref\<close> they call \<open>monitor_add\<close>, \<open>monitor_modify\<close>,
  \<open>deferred_remove\<close> and \<open>deferred_clear\<close> below. The third is the deleter of the object,
  which is told the descriptor it was registered for: the objects of the program own it.
\<close>

record ('k, 'l) listener_ops =
  call_fd_is_ready :: "'l \<Rightarrow> fd \<Rightarrow> ('k, 'l) fd_event_monitor \<Rightarrow> 'l \<times> ('k, 'l) monitor_run"
  call_fd_is_idle :: "'l \<Rightarrow> fd \<Rightarrow> ('k, 'l) fd_event_monitor \<Rightarrow> 'l \<times> ('k, 'l) monitor_run"
  call_destroy :: "'l \<Rightarrow> fd \<Rightarrow> 'k \<Rightarrow> 'k"

definition fd_event_monitor_init :: "'k \<Rightarrow> ('k, 'l) fd_event_monitor" where
  "fd_event_monitor_init k =
     \<lparr>m_epoll = k, m_event_buffer_capacity = 0, m_listeners = [], m_fds_to_remove = [],
      m_fd_activity_timestamps = [], m_reg_should_be_cleared = False, next_node = 0\<rparr>"

section \<open>The registry\<close>

definition erase_listener :: "fd \<Rightarrow> (fd \<times> 'l listener) list \<Rightarrow> (fd \<times> 'l listener) list" where
  "erase_listener fd ls = filter (\<lambda>e. fst e \<noteq> fd) ls"

definition erase_timer :: "nat \<Rightarrow> fd_activity_list \<Rightarrow> fd_activity_list" where
  "erase_timer n ts = filter (\<lambda>e. fst e \<noteq> n) ts"

definition monitor_add ::
  "'k epoll_ops \<Rightarrow> ('l \<Rightarrow> fd \<Rightarrow> 'k \<Rightarrow> 'k) \<Rightarrow> fd \<Rightarrow> 'l \<Rightarrow> listen_on \<Rightarrow>
   ('k, 'l) fd_event_monitor \<Rightarrow> ('k, 'l) monitor_run" where
  "monitor_add eops destroy fd l events mon =
     (if map_of (m_listeners mon) fd \<noteq> None
      then (mon, Some (Assertion_failed ''!m_listeners.contains(fd)''))
      else
        (case sys_now eops (m_epoll mon) of (k, now) \<Rightarrow>
           let timer = next_node mon;
               mon1 = mon\<lparr>m_epoll := k, next_node := Suc timer,
                          m_fd_activity_timestamps :=
                            m_fd_activity_timestamps mon @ [(timer, now + inactivity_period, fd)],
                          m_listeners := m_listeners mon @ [(fd, \<lparr>m_object = l, m_timer = timer\<rparr>)]\<rparr>
           in case sys_epoll_add eops k fd events of
                (k1, Returned _) \<Rightarrow> (mon1\<lparr>m_epoll := k1\<rparr>, None)
              | (k1, Failed e) \<Rightarrow>
                  (mon1\<lparr>m_epoll := destroy l fd k1, m_listeners := erase_listener fd (m_listeners mon1)\<rparr>,
                   Some (System_error ''Failed to add event listener for file descriptor'' e))))"

definition monitor_modify ::
  "'k epoll_ops \<Rightarrow> fd \<Rightarrow> listen_on \<Rightarrow> ('k, 'l) fd_event_monitor \<Rightarrow> ('k, 'l) monitor_run" where
  "monitor_modify eops fd new_events mon =
     (if map_of (m_listeners mon) fd = None
      then (mon, Some (Assertion_failed ''i != std::end(m_listeners)''))
      else
        (case sys_epoll_mod eops (m_epoll mon) fd new_events of
           (k, Returned _) \<Rightarrow> (mon\<lparr>m_epoll := k\<rparr>, None)
         | (k, Failed e) \<Rightarrow>
             (mon\<lparr>m_epoll := k\<rparr>, Some (System_error ''Failed to modify event listener'' e))))"

definition deferred_remove :: "fd \<Rightarrow> ('k, 'l) fd_event_monitor \<Rightarrow> ('k, 'l) fd_event_monitor" where
  "deferred_remove fd mon = mon\<lparr>m_fds_to_remove := m_fds_to_remove mon @ [fd]\<rparr>"

definition deferred_clear :: "('k, 'l) fd_event_monitor \<Rightarrow> ('k, 'l) fd_event_monitor" where
  "deferred_clear mon = mon\<lparr>m_reg_should_be_cleared := True\<rparr>"

text \<open>
  \<open>fd_callback_registry_ref\<close>: what a listener is given of the monitor. Each function is the
  monitor's of another name.
\<close>

abbreviation registry_add ::
  "'k epoll_ops \<Rightarrow> ('l \<Rightarrow> fd \<Rightarrow> 'k \<Rightarrow> 'k) \<Rightarrow> fd \<Rightarrow> 'l \<Rightarrow> listen_on \<Rightarrow> ('k, 'l) fd_event_monitor \<Rightarrow>
   ('k, 'l) monitor_run" where
  "registry_add eops destroy fd l events registry \<equiv> monitor_add eops destroy fd l events registry"

abbreviation registry_modify ::
  "'k epoll_ops \<Rightarrow> fd \<Rightarrow> listen_on \<Rightarrow> ('k, 'l) fd_event_monitor \<Rightarrow> ('k, 'l) monitor_run" where
  "registry_modify eops fd new_events registry \<equiv> monitor_modify eops fd new_events registry"

abbreviation registry_remove :: "fd \<Rightarrow> ('k, 'l) fd_event_monitor \<Rightarrow> ('k, 'l) fd_event_monitor" where
  "registry_remove fd registry \<equiv> deferred_remove fd registry"

abbreviation registry_clear :: "('k, 'l) fd_event_monitor \<Rightarrow> ('k, 'l) fd_event_monitor" where
  "registry_clear registry \<equiv> deferred_clear registry"

section \<open>Calling listeners\<close>

text \<open>
  \<open>listener::fd_is_ready\<close> and \<open>fd_is_idle\<close>: the call, which changes the object in place,
  and then the new deadline, with the node moved to the end of the list. The listener is
  the one found under the descriptor; a node that is not in the list would be a dangling
  iterator.
\<close>

definition set_object :: "fd \<Rightarrow> 'l \<Rightarrow> (fd \<times> 'l listener) list \<Rightarrow> (fd \<times> 'l listener) list" where
  "set_object fd obj ls = map (\<lambda>(f, l). (f, if f = fd then l\<lparr>m_object := obj\<rparr> else l)) ls"

definition touch_timer ::
  "'k epoll_ops \<Rightarrow> nat \<Rightarrow> ('k, 'l) fd_event_monitor \<Rightarrow> ('k, 'l) monitor_run" where
  "touch_timer eops n mon =
     (case sys_now eops (m_epoll mon) of (k, now) \<Rightarrow>
        let mon1 = mon\<lparr>m_epoll := k\<rparr> in
        case map_of (m_fd_activity_timestamps mon1) n of
          None \<Rightarrow> (mon1, Some (Undefined_behaviour ''dangling timer''))
        | Some (t, fd) \<Rightarrow>
            (mon1\<lparr>m_fd_activity_timestamps :=
               erase_timer n (m_fd_activity_timestamps mon1) @ [(n, now + inactivity_period, fd)]\<rparr>, None))"

definition call_listener ::
  "'k epoll_ops \<Rightarrow> ('l \<Rightarrow> fd \<Rightarrow> ('k, 'l) fd_event_monitor \<Rightarrow> 'l \<times> ('k, 'l) monitor_run) \<Rightarrow>
   fd \<Rightarrow> 'l listener \<Rightarrow> ('k, 'l) fd_event_monitor \<Rightarrow> ('k, 'l) monitor_run" where
  "call_listener eops callback fd l mon =
     (case callback (m_object l) fd mon of (obj, mon1, exc) \<Rightarrow>
        run_then (mon1\<lparr>m_listeners := set_object fd obj (m_listeners mon1)\<rparr>, exc)
          (touch_timer eops (m_timer l)))"

section \<open>A cycle\<close>

text \<open>An event carries a pointer to its listener's entry: dangling, if there is none.\<close>

fun dispatch_events ::
  "'k epoll_ops \<Rightarrow> ('k, 'l) listener_ops \<Rightarrow> fd list \<Rightarrow> ('k, 'l) fd_event_monitor \<Rightarrow>
   ('k, 'l) monitor_run" where
  "dispatch_events eops lops [] mon = (mon, None)"
| "dispatch_events eops lops (fd # events) mon =
     run_then
       (case map_of (m_listeners mon) fd of
          None \<Rightarrow> (mon, Some (Undefined_behaviour ''dangling event data''))
        | Some l \<Rightarrow> call_listener eops (call_fd_is_ready lops) fd l mon)
       (dispatch_events eops lops events)"

lemma dispatch_events_keeps:
  assumes "\<And>fd l mon mon' exc. P mon \<Longrightarrow>
    call_listener eops (call_fd_is_ready lops) fd l mon = (mon', exc) \<Longrightarrow> P mon'"
  shows "P mon \<Longrightarrow> dispatch_events eops lops events mon = (mon', exc) \<Longrightarrow> P mon'"
proof (induction events arbitrary: mon)
  case (Cons fd events)
  show ?case
  proof (cases "map_of (m_listeners mon) fd")
    case None
    with Cons.prems show ?thesis by (simp add: run_then_def)
  next
    case l: (Some l)
    obtain mon1 exc1 where call: "call_listener eops (call_fd_is_ready lops) fd l mon = (mon1, exc1)"
      by fastforce
    with Cons.prems(2) l Cons.IH assms [OF Cons.prems(1) call] show ?thesis
      by (cases exc1) (simp_all add: run_then_def)
  qed
qed simp

text \<open>
  The loop over the deadlines. Its iterator is the name of a node, or \<open>None\<close> at the end;
  \<open>++i\<close> goes to the node that follows at that time.
\<close>

fun node_after :: "nat \<Rightarrow> fd_activity_list \<Rightarrow> nat option" where
  "node_after n [] = None"
| "node_after n [e] = None"
| "node_after n (e # e' # ts) = (if fst e = n then Some (fst e') else node_after n (e' # ts))"

partial_function (option) process_idle_from ::
  "'k epoll_ops \<Rightarrow> ('k, 'l) listener_ops \<Rightarrow> nat \<Rightarrow> nat option \<Rightarrow> ('k, 'l) fd_event_monitor \<Rightarrow>
   ('k, 'l) monitor_run option" where
  "process_idle_from eops lops now i mon =
     (case i of
        None \<Rightarrow> Some (mon, None)
      | Some n \<Rightarrow>
          (case map_of (m_fd_activity_timestamps mon) n of
             None \<Rightarrow> Some (mon, Some (Undefined_behaviour ''dangling iterator''))
           | Some (t, fd) \<Rightarrow>
               if t > now then Some (mon, None)
               else
                 (case map_of (m_listeners mon) fd of
                    None \<Rightarrow> Some (mon, Some (Assertion_failed ''item != std::end(m_listeners)''))
                  | Some l \<Rightarrow>
                      (case call_listener eops (call_fd_is_idle lops) fd l mon of
                         (mon1, Some e) \<Rightarrow> Some (mon1, Some e)
                       | (mon1, None) \<Rightarrow>
                           process_idle_from eops lops now
                             (node_after n (m_fd_activity_timestamps mon1)) mon1))))"

definition process_idle_fds ::
  "'k epoll_ops \<Rightarrow> ('k, 'l) listener_ops \<Rightarrow> ('k, 'l) fd_event_monitor \<Rightarrow>
   ('k, 'l) monitor_run option" where
  "process_idle_fds eops lops mon =
     (case sys_now eops (m_epoll mon) of (k, now) \<Rightarrow>
        process_idle_from eops lops now
          (case m_fd_activity_timestamps mon of [] \<Rightarrow> None | e # _ \<Rightarrow> Some (fst e))
          (mon\<lparr>m_epoll := k\<rparr>))"

text \<open>
  The result of \<open>EPOLL_CTL_DEL\<close> is not looked at. Assigning a new monitor makes a new epoll
  instance and then drops all listeners and timers, here in the order they were added, the
  old instance being closed. An object that is erased is destroyed.
\<close>

fun remove_fds ::
  "'k epoll_ops \<Rightarrow> ('l \<Rightarrow> fd \<Rightarrow> 'k \<Rightarrow> 'k) \<Rightarrow> fd list \<Rightarrow> ('k, 'l) fd_event_monitor \<Rightarrow>
   ('k, 'l) monitor_run" where
  "remove_fds eops destroy [] mon = (mon, None)"
| "remove_fds eops destroy (fd # fds) mon =
     (let mon1 = mon\<lparr>m_epoll := fst (sys_epoll_del eops (m_epoll mon) fd)\<rparr> in
      case map_of (m_listeners mon1) fd of
        None \<Rightarrow> (mon1, Some (Assertion_failed ''i != std::end(m_listeners)''))
      | Some l \<Rightarrow>
          if m_timer l \<notin> set (map fst (m_fd_activity_timestamps mon1))
          then (mon1, Some (Undefined_behaviour ''dangling timer''))
          else
            remove_fds eops destroy fds
              (mon1\<lparr>m_epoll := destroy (m_object l) fd (m_epoll mon1),
                    m_fd_activity_timestamps := erase_timer (m_timer l) (m_fd_activity_timestamps mon1),
                    m_listeners := erase_listener fd (m_listeners mon1)\<rparr>))"

definition destroy_all :: "('l \<Rightarrow> fd \<Rightarrow> 'k \<Rightarrow> 'k) \<Rightarrow> (fd \<times> 'l listener) list \<Rightarrow> 'k \<Rightarrow> 'k" where
  "destroy_all destroy ls = fold (\<lambda>(fd, l). destroy (m_object l) fd) ls"

definition flush_fds_to_remove ::
  "'k epoll_ops \<Rightarrow> ('l \<Rightarrow> fd \<Rightarrow> 'k \<Rightarrow> 'k) \<Rightarrow> ('k, 'l) fd_event_monitor \<Rightarrow> ('k, 'l) monitor_run" where
  "flush_fds_to_remove eops destroy mon =
     (if m_reg_should_be_cleared mon then
        (case sys_epoll_create eops (m_epoll mon) of
           (k, Returned _) \<Rightarrow>
             ((fd_event_monitor_init (destroy_all destroy (m_listeners mon) k))
                \<lparr>next_node := next_node mon\<rparr>, None)
         | (k, Failed e) \<Rightarrow>
             (mon\<lparr>m_epoll := k\<rparr>, Some (System_error ''Failed to create epoll instance'' e)))
      else
        run_then (remove_fds eops destroy (m_fds_to_remove mon) mon) (\<lambda>mon1. (mon1\<lparr>m_fds_to_remove := []\<rparr>, None)))"

text \<open>The buffer for events is replaced when there are more listeners than it has room for.\<close>

definition grow_event_buffer :: "('k, 'l) fd_event_monitor \<Rightarrow> ('k, 'l) fd_event_monitor" where
  "grow_event_buffer mon =
     (let num_listeners = length (m_listeners mon) in
      if num_listeners > m_event_buffer_capacity mon
      then mon\<lparr>m_event_buffer_capacity := num_listeners\<rparr> else mon)"

text \<open>\<open>wait_for_and_dispatch_events\<close>: the state, and the fault or the value returned.\<close>

definition wait_for_and_dispatch_events ::
  "'k epoll_ops \<Rightarrow> ('k, 'l) listener_ops \<Rightarrow> ('k, 'l) fd_event_monitor \<Rightarrow>
   (('k, 'l) fd_event_monitor \<times> bool faulty) option" where
  "wait_for_and_dispatch_events eops lops mon =
     (let num_listeners = length (m_listeners mon) in
      if num_listeners = 0 then Some (mon, Inr False)
      else
        let mon0 = grow_event_buffer mon in
        case sys_epoll_wait eops (m_epoll mon0) num_listeners of
          (k, Failed e) \<Rightarrow> Some (mon0\<lparr>m_epoll := k\<rparr>, Inl (System_error ''epoll_wait failed'' e))
        | (k, Returned events) \<Rightarrow>
            (case dispatch_events eops lops events (mon0\<lparr>m_epoll := k\<rparr>) of
               (mon1, Some e) \<Rightarrow> Some (mon1, Inl e)
             | (mon1, None) \<Rightarrow>
                 (case process_idle_fds eops lops mon1 of
                    None \<Rightarrow> None
                  | Some (mon2, Some e) \<Rightarrow> Some (mon2, Inl e)
                  | Some (mon2, None) \<Rightarrow>
                      (case flush_fds_to_remove eops (call_destroy lops) mon2 of
                         (mon3, Some e) \<Rightarrow> Some (mon3, Inl e)
                       | (mon3, None) \<Rightarrow> Some (mon3, Inr True)))))"

section \<open>Contracts\<close>

text \<open>
  What the kernel documents: \<open>watched\<close> is the interest list of the epoll instance,
  \<open>clock\<close> a time that does not run backwards. Events are reported for watched
  descriptors, once each. Adding refuses a descriptor that is watched, removing one that
  is not leaves it unwatched.
\<close>

locale epoll_contract =
  fixes eops :: "'k epoll_ops"
    and watched :: "'k \<Rightarrow> fd \<Rightarrow> listen_on option"
    and clock :: "'k \<Rightarrow> nat"
  assumes ep_now: "sys_now eops k = (k', now) \<Longrightarrow>
      watched k' = watched k \<and> clock k \<le> now \<and> clock k' = now"
    and ep_create: "sys_epoll_create eops k = (k', r) \<Longrightarrow> clock k \<le> clock k' \<and>
      (case r of Returned _ \<Rightarrow> watched k' = (\<lambda>_. None) | Failed _ \<Rightarrow> watched k' = watched k)"
    and ep_add: "sys_epoll_add eops k fd ev = (k', r) \<Longrightarrow> clock k \<le> clock k' \<and>
      (case r of Returned _ \<Rightarrow> watched k fd = None \<and> watched k' = (watched k)(fd := Some ev)
       | Failed _ \<Rightarrow> watched k' = watched k)"
    and ep_mod: "sys_epoll_mod eops k fd ev = (k', r) \<Longrightarrow> clock k \<le> clock k' \<and>
      (case r of Returned _ \<Rightarrow> watched k fd \<noteq> None \<and> watched k' = (watched k)(fd := Some ev)
       | Failed _ \<Rightarrow> watched k' = watched k)"
    and ep_del: "sys_epoll_del eops k fd = (k', r) \<Longrightarrow> clock k \<le> clock k' \<and>
      watched k' = (watched k)(fd := None)"
    and ep_wait: "sys_epoll_wait eops k n = (k', w) \<Longrightarrow> clock k \<le> clock k' \<and> watched k' = watched k \<and>
      (case w of Returned events \<Rightarrow> distinct events \<and> length events \<le> n
                   \<and> (\<forall>fd \<in> set events. watched k fd \<noteq> None)
       | Failed _ \<Rightarrow> True)"

text \<open>
  The invariant of the monitor. Every listener has one node in the deadline list, which
  names its descriptor, and every node belongs to a listener; the list is ordered by
  time, with no deadline further ahead than the period; what the kernel watches is what
  has a listener; and what waits to be removed is there, once.
\<close>

definition timers_match :: "(fd \<times> 'l listener) list \<Rightarrow> fd_activity_list \<Rightarrow> bool" where
  "timers_match ls ts \<longleftrightarrow> distinct (map fst ls) \<and> distinct (map fst ts)
     \<and> (\<forall>n t fd. map_of ts n = Some (t, fd) \<longrightarrow> (\<exists>l. map_of ls fd = Some l \<and> m_timer l = n))
     \<and> (\<forall>fd l. map_of ls fd = Some l \<longrightarrow> (\<exists>t. map_of ts (m_timer l) = Some (t, fd)))"

definition deadlines :: "fd_activity_list \<Rightarrow> nat list" where
  "deadlines ts = map (\<lambda>(n, t, fd). t) ts"

definition monitor_inv ::
  "('k \<Rightarrow> fd \<Rightarrow> listen_on option) \<Rightarrow> ('k \<Rightarrow> nat) \<Rightarrow> ('k, 'l) fd_event_monitor \<Rightarrow> bool" where
  "monitor_inv watched clock mon \<longleftrightarrow>
     timers_match (m_listeners mon) (m_fd_activity_timestamps mon)
     \<and> (\<forall>n \<in> set (map fst (m_fd_activity_timestamps mon)). n < next_node mon)
     \<and> sorted (deadlines (m_fd_activity_timestamps mon))
     \<and> (\<forall>t \<in> set (deadlines (m_fd_activity_timestamps mon)). t \<le> clock (m_epoll mon) + inactivity_period)
     \<and> dom (watched (m_epoll mon)) = dom (map_of (m_listeners mon))
     \<and> set (m_fds_to_remove mon) \<subseteq> dom (map_of (m_listeners mon)) \<and> distinct (m_fds_to_remove mon)"

text \<open>
  Every listener that is not about to be removed satisfies its own invariant, which may
  depend on the events its descriptor is watched for.
\<close>

definition listeners_ok ::
  "('k \<Rightarrow> fd \<Rightarrow> listen_on option) \<Rightarrow> (listen_on \<Rightarrow> 'l \<Rightarrow> bool) \<Rightarrow> ('k, 'l) fd_event_monitor \<Rightarrow> bool" where
  "listeners_ok watched l_ok mon \<longleftrightarrow>
     (\<forall>fd l. map_of (m_listeners mon) fd = Some l \<and> fd \<notin> set (m_fds_to_remove mon) \<longrightarrow>
        (\<exists>ev. watched (m_epoll mon) fd = Some ev \<and> l_ok ev (m_object l)))"

text \<open>
  What a listener may do while it is called: add listeners, modify, remove its own
  descriptor and ask for everything to be cleared. Whatever it does, the other listeners
  and the deadlines stay.
\<close>

definition callback_post ::
  "('k \<Rightarrow> fd \<Rightarrow> listen_on option) \<Rightarrow> ('k \<Rightarrow> nat) \<Rightarrow> (listen_on \<Rightarrow> 'l \<Rightarrow> bool) \<Rightarrow> fd \<Rightarrow> 'l \<Rightarrow>
   ('k, 'l) fd_event_monitor \<Rightarrow> ('k, 'l) fd_event_monitor \<Rightarrow> bool" where
  "callback_post watched clock l_ok fd obj mon mon' \<longleftrightarrow>
     monitor_inv watched clock mon'
     \<and> listeners_ok watched l_ok (mon'\<lparr>m_listeners := set_object fd obj (m_listeners mon')\<rparr>)
     \<and> map_of (m_listeners mon) \<subseteq>\<^sub>m map_of (m_listeners mon')
     \<and> map_of (m_fd_activity_timestamps mon) \<subseteq>\<^sub>m map_of (m_fd_activity_timestamps mon')
     \<and> (m_fds_to_remove mon' = m_fds_to_remove mon \<or> m_fds_to_remove mon' = m_fds_to_remove mon @ [fd])
     \<and> (m_reg_should_be_cleared mon \<le> m_reg_should_be_cleared mon')
     \<and> clock (m_epoll mon) \<le> clock (m_epoll mon')"

definition callback_contract ::
  "('k \<Rightarrow> fd \<Rightarrow> listen_on option) \<Rightarrow> ('k \<Rightarrow> nat) \<Rightarrow> (listen_on \<Rightarrow> 'l \<Rightarrow> bool) \<Rightarrow>
   ('l \<Rightarrow> fd \<Rightarrow> ('k, 'l) fd_event_monitor \<Rightarrow> 'l \<times> ('k, 'l) monitor_run) \<Rightarrow> bool" where
  "callback_contract watched clock l_ok callback \<longleftrightarrow>
     (\<forall>mon fd l obj mon' exc.
        monitor_inv watched clock mon \<and> listeners_ok watched l_ok mon
        \<and> map_of (m_listeners mon) fd = Some l \<and> fd \<notin> set (m_fds_to_remove mon)
        \<and> callback (m_object l) fd mon = (obj, mon', exc) \<longrightarrow>
        (case exc of
           None \<Rightarrow> callback_post watched clock l_ok fd obj mon mon'
         | Some e \<Rightarrow> thrown e \<and> clock (m_epoll mon) \<le> clock (m_epoll mon')))"

text \<open>
  What destroying an object does to the kernel: the descriptor is closed, if it was not
  already, and so no longer watched; no other is touched.
\<close>

definition destroy_contract ::
  "('k \<Rightarrow> fd \<Rightarrow> listen_on option) \<Rightarrow> ('k \<Rightarrow> nat) \<Rightarrow> ('l \<Rightarrow> fd \<Rightarrow> 'k \<Rightarrow> 'k) \<Rightarrow> bool" where
  "destroy_contract watched clock destroy \<longleftrightarrow>
     (\<forall>l fd k. watched (destroy l fd k) = (watched k)(fd := None) \<and> clock k \<le> clock (destroy l fd k))"

lemma destroy_contractD:
  assumes "destroy_contract watched clock destroy"
  shows "watched (destroy l fd k) = (watched k)(fd := None)" and "clock k \<le> clock (destroy l fd k)"
  using assms by (simp_all add: destroy_contract_def)

lemma destroy_all_ok:
  assumes "destroy_contract watched clock destroy"
  shows "clock k \<le> clock (destroy_all destroy ls k)"
    and "watched k = Map.empty \<Longrightarrow> watched (destroy_all destroy ls k) = Map.empty"
proof -
  have "clock k \<le> clock (destroy_all destroy ls k)
      \<and> (watched k = Map.empty \<longrightarrow> watched (destroy_all destroy ls k) = Map.empty)"
  proof (induction ls arbitrary: k)
    case (Cons e ls)
    obtain fd l where e: "e = (fd, l)" by (cases e)
    from Cons [of "destroy (m_object l) fd k"] destroy_contractD [OF assms, where l = "m_object l" and fd = fd and k = k]
    show ?case by (auto simp: destroy_all_def e intro: order_trans)
  qed (simp add: destroy_all_def)
  then show "clock k \<le> clock (destroy_all destroy ls k)"
    and "watched k = Map.empty \<Longrightarrow> watched (destroy_all destroy ls k) = Map.empty" by simp_all
qed

locale listener_contract = epoll_contract eops watched clock
  for eops :: "'k epoll_ops" and watched clock +
  fixes lops :: "('k, 'l) listener_ops"
    and l_ok :: "listen_on \<Rightarrow> 'l \<Rightarrow> bool"
  assumes ready_contract: "callback_contract watched clock l_ok (call_fd_is_ready lops)"
    and idle_contract: "callback_contract watched clock l_ok (call_fd_is_idle lops)"
    and lops_destroy: "destroy_contract watched clock (call_destroy lops)"

section \<open>The registry keeps the invariant\<close>

lemma map_of_set_object:
  "map_of (set_object fd obj ls) f =
     (if f = fd then map_option (\<lambda>l. l\<lparr>m_object := obj\<rparr>) (map_of ls f) else map_of ls f)"
  by (induction ls) (auto simp: set_object_def)

lemma map_of_erase_listener: "map_of (erase_listener fd ls) = (map_of ls)(fd := None)"
  by (induction ls) (auto simp: erase_listener_def)

lemma map_of_erase_timer: "map_of (erase_timer n ts) = (map_of ts)(n := None)"
  by (induction ts) (auto simp: erase_timer_def)

lemma map_fst_set_object [simp]: "map fst (set_object fd obj ls) = map fst ls"
  by (simp add: set_object_def split_def)

lemma map_fst_erase_timer: "map fst (erase_timer n ts) = filter (\<lambda>m. m \<noteq> n) (map fst ts)"
  by (induction ts) (auto simp: erase_timer_def)

lemma map_fst_erase_listener: "map fst (erase_listener fd ls) = filter (\<lambda>f. f \<noteq> fd) (map fst ls)"
  by (induction ls) (auto simp: erase_listener_def)

lemma deadlines_simps [simp]:
  "deadlines (ts @ us) = deadlines ts @ deadlines us" "deadlines [(n, t, fd)] = [t]" "deadlines [] = []"
  by (simp_all add: deadlines_def)

lemma sorted_deadlines_erase: "sorted (deadlines ts) \<Longrightarrow> sorted (deadlines (erase_timer n ts))"
  by (simp add: deadlines_def erase_timer_def sorted_filter)

lemma set_deadlines_erase: "set (deadlines (erase_timer n ts)) \<subseteq> set (deadlines ts)"
  by (force simp: deadlines_def erase_timer_def)

lemma timers_match_set_object [simp]: "timers_match (set_object fd obj ls) ts \<longleftrightarrow> timers_match ls ts"
proof -
  have l: "(\<exists>l. map_of (set_object fd obj ls) f = Some l \<and> m_timer l = n)
      \<longleftrightarrow> (\<exists>l. map_of ls f = Some l \<and> m_timer l = n)" for f n
    by (auto simp: map_of_set_object)
  have t: "(\<forall>f l. map_of (set_object fd obj ls) f = Some l \<longrightarrow> (\<exists>t. map_of ts (m_timer l) = Some (t, f)))
      \<longleftrightarrow> (\<forall>f l. map_of ls f = Some l \<longrightarrow> (\<exists>t. map_of ts (m_timer l) = Some (t, f)))"
    by (auto simp: map_of_set_object split: if_splits)
  show ?thesis by (simp only: timers_match_def l t map_fst_set_object)
qed

text \<open>Adding a pair of a listener and a node, moving a node to the end, dropping a pair.\<close>

lemma timers_matchI:
  assumes "distinct (map fst ls)" and "distinct (map fst ts)"
    and "\<And>n t fd. map_of ts n = Some (t, fd) \<Longrightarrow> \<exists>l. map_of ls fd = Some l \<and> m_timer l = n"
    and "\<And>fd l. map_of ls fd = Some l \<Longrightarrow> \<exists>t. map_of ts (m_timer l) = Some (t, fd)"
  shows "timers_match ls ts"
  using assms by (simp add: timers_match_def)

lemma timers_matchD:
  assumes "timers_match ls ts"
  shows "distinct (map fst ls)" and "distinct (map fst ts)"
    and "map_of ts n = Some (t, fd) \<Longrightarrow> \<exists>l. map_of ls fd = Some l \<and> m_timer l = n"
    and "map_of ls fd = Some l \<Longrightarrow> \<exists>t. map_of ts (m_timer l) = Some (t, fd)"
  using assms unfolding timers_match_def by blast+

lemma timers_match_add:
  assumes "timers_match ls ts" and "map_of ls fd = None" and "n \<notin> set (map fst ts)"
  shows "timers_match (ls @ [(fd, \<lparr>m_object = l, m_timer = n\<rparr>)]) (ts @ [(n, t, fd)])"
proof (rule timers_matchI)
  note m = timers_matchD [OF assms(1)]
  have n: "map_of ts n = None" using assms(3) by (simp add: map_of_eq_None_iff)
  show "distinct (map fst (ls @ [(fd, \<lparr>m_object = l, m_timer = n\<rparr>)]))"
    using m(1) assms(2) by (simp add: map_of_eq_None_iff)
  show "distinct (map fst (ts @ [(n, t, fd)]))" using m(2) assms(3) by simp
  show "\<exists>l'. map_of (ls @ [(fd, \<lparr>m_object = l, m_timer = n\<rparr>)]) f = Some l' \<and> m_timer l' = n'"
    if "map_of (ts @ [(n, t, fd)]) n' = Some (t', f)" for n' t' f
    using that assms(2) n m(3) [of n' t' f]
    by (auto simp: map_add_def split: option.splits if_splits)
  show "\<exists>t'. map_of (ts @ [(n, t, fd)]) (m_timer l') = Some (t', f)"
    if "map_of (ls @ [(fd, \<lparr>m_object = l, m_timer = n\<rparr>)]) f = Some l'" for f l'
    using that assms(2) n m(4) [of f l']
    by (auto simp: map_add_def split: option.splits if_splits)
qed

lemma timers_match_touch:
  assumes "timers_match ls ts" and "map_of ts n = Some (t, fd)"
  shows "timers_match ls (erase_timer n ts @ [(n, t', fd)])"
proof (rule timers_matchI)
  note m = timers_matchD [OF assms(1)]
  show "distinct (map fst ls)" by (rule m(1))
  show "distinct (map fst (erase_timer n ts @ [(n, t', fd)]))"
    using m(2) by (simp add: map_fst_erase_timer del: set_map)
  show "\<exists>l. map_of ls f = Some l \<and> m_timer l = n'"
    if "map_of (erase_timer n ts @ [(n, t', fd)]) n' = Some (u, f)" for n' u f
    using that assms(2) m(3) [of n' t fd] m(3) [of n' u f]
    by (auto simp: map_add_def map_of_erase_timer split: option.splits if_splits)
  show "\<exists>u. map_of (erase_timer n ts @ [(n, t', fd)]) (m_timer l) = Some (u, f)"
    if "map_of ls f = Some l" for f l
    using m(4) [OF that] assms(2)
    by (auto simp: map_add_def map_of_erase_timer split: option.splits if_splits)
qed

lemma timers_match_erase:
  assumes "timers_match ls ts" and "map_of ls fd = Some l"
  shows "timers_match (erase_listener fd ls) (erase_timer (m_timer l) ts)"
proof (rule timers_matchI)
  note m = timers_matchD [OF assms(1)]
  show "distinct (map fst (erase_listener fd ls))" "distinct (map fst (erase_timer (m_timer l) ts))"
    using m(1,2) by (simp_all add: map_fst_erase_listener map_fst_erase_timer)
  show "\<exists>l'. map_of (erase_listener fd ls) f = Some l' \<and> m_timer l' = n"
    if t: "map_of (erase_timer (m_timer l) ts) n = Some (t, f)" for n t f
  proof -
    have n: "n \<noteq> m_timer l" "map_of ts n = Some (t, f)"
      using t by (auto simp: map_of_erase_timer split: if_splits)
    from m(3) [OF n(2)] obtain l' where l': "map_of ls f = Some l'" "m_timer l' = n" by blast
    with n(1) assms(2) have "f \<noteq> fd" by auto
    with l' show ?thesis by (simp add: map_of_erase_listener)
  qed
  show "\<exists>t. map_of (erase_timer (m_timer l) ts) (m_timer l') = Some (t, f)"
    if l': "map_of (erase_listener fd ls) f = Some l'" for f l'
  proof -
    have f: "f \<noteq> fd" "map_of ls f = Some l'"
      using l' by (auto simp: map_of_erase_listener split: if_splits)
    from m(4) [OF f(2)] m(4) [OF assms(2)] f(1) show ?thesis by (auto simp: map_of_erase_timer)
  qed
qed

lemma monitor_inv_epoll:
  assumes "monitor_inv watched clock mon" and "watched k = watched (m_epoll mon)"
    and "clock (m_epoll mon) \<le> clock k"
  shows "monitor_inv watched clock (mon\<lparr>m_epoll := k\<rparr>)"
  using assms by (auto simp: monitor_inv_def intro: order_trans)

lemma listeners_ok_epoll:
  "listeners_ok watched l_ok mon \<Longrightarrow> watched k = watched (m_epoll mon) \<Longrightarrow>
   listeners_ok watched l_ok (mon\<lparr>m_epoll := k\<rparr>)"
  by (simp add: listeners_ok_def)

text \<open>The calls that adding makes, and what it leaves when the kernel refuses.\<close>

lemma monitor_add_calls:
  assumes "monitor_add eops destroy fd l events mon = (mon', exc)"
    and "map_of (m_listeners mon) fd = None"
  shows "\<exists>k now k1 r. sys_now eops (m_epoll mon) = (k, now) \<and> sys_epoll_add eops k fd events = (k1, r)
    \<and> m_fd_activity_timestamps mon'
        = m_fd_activity_timestamps mon @ [(next_node mon, now + inactivity_period, fd)]
    \<and> (case r of
         Returned _ \<Rightarrow> exc = None \<and> m_epoll mon' = k1
           \<and> m_listeners mon' = m_listeners mon @ [(fd, \<lparr>m_object = l, m_timer = next_node mon\<rparr>)]
       | Failed e \<Rightarrow> exc = Some (System_error ''Failed to add event listener for file descriptor'' e)
           \<and> m_epoll mon' = destroy l fd k1 \<and> m_listeners mon' = m_listeners mon)"
proof -
  have "fd \<notin> set (map fst (m_listeners mon))" using assms(2) by (simp add: map_of_eq_None_iff)
  then have erased: "erase_listener fd (m_listeners mon @ [(fd, x)]) = m_listeners mon" for x
    by (force simp: erase_listener_def filter_id_conv)
  obtain k now where k: "sys_now eops (m_epoll mon) = (k, now)" by fastforce
  obtain k1 r where k1: "sys_epoll_add eops k fd events = (k1, r)" by fastforce
  show ?thesis
    using assms k k1 erased by (cases r) (auto simp: monitor_add_def Let_def)
qed

context epoll_contract
begin

lemma monitor_add_ok:
  assumes inv: "monitor_inv watched clock mon" and fresh: "watched (m_epoll mon) fd = None"
    and destroy: "destroy_contract watched clock destroy"
    and add: "monitor_add eops destroy fd l events mon = (mon', exc)"
  shows "case exc of
      None \<Rightarrow> monitor_inv watched clock mon' \<and> clock (m_epoll mon) \<le> clock (m_epoll mon')
        \<and> (\<exists>n t. n \<notin> set (map fst (m_fd_activity_timestamps mon))
             \<and> m_listeners mon' = m_listeners mon @ [(fd, \<lparr>m_object = l, m_timer = n\<rparr>)]
             \<and> m_fd_activity_timestamps mon' = m_fd_activity_timestamps mon @ [(n, t, fd)])
        \<and> m_fds_to_remove mon' = m_fds_to_remove mon
        \<and> m_reg_should_be_cleared mon' = m_reg_should_be_cleared mon
        \<and> watched (m_epoll mon') = (watched (m_epoll mon))(fd := Some events)
    | Some e \<Rightarrow> thrown e \<and> clock (m_epoll mon) \<le> clock (m_epoll mon')"
proof -
  obtain k now where k: "sys_now eops (m_epoll mon) = (k, now)" by fastforce
  obtain k1 r where k1: "sys_epoll_add eops k fd events = (k1, r)" by fastforce
  have none: "map_of (m_listeners mon) fd = None"
    using inv fresh by (metis monitor_inv_def domIff)
  have node: "next_node mon \<notin> set (map fst (m_fd_activity_timestamps mon))"
    using inv by (auto simp: monitor_inv_def)
  note now = ep_now [OF k] and ctl = ep_add [OF k1]
  show ?thesis
  proof (cases r)
    case (Returned u)
    let ?mon = "mon\<lparr>next_node := Suc (next_node mon),
       m_fd_activity_timestamps := m_fd_activity_timestamps mon @ [(next_node mon, now + inactivity_period, fd)],
       m_listeners := m_listeners mon @ [(fd, \<lparr>m_object = l, m_timer = next_node mon\<rparr>)], m_epoll := k1\<rparr>"
    have mon': "mon' = ?mon" "exc = None"
      using add by (simp_all add: monitor_add_def none k k1 Returned Let_def)
    have "monitor_inv watched clock ?mon"
      unfolding monitor_inv_def
    proof (intro conjI)
      show "timers_match (m_listeners ?mon) (m_fd_activity_timestamps ?mon)"
        using inv none node by (simp add: monitor_inv_def timers_match_add del: set_map)
      show "sorted (deadlines (m_fd_activity_timestamps ?mon))"
        using inv now by (auto simp: monitor_inv_def sorted_append)
      show "dom (watched (m_epoll ?mon)) = dom (map_of (m_listeners ?mon))"
        using inv now ctl by (auto simp: monitor_inv_def Returned)
    qed (use inv now ctl in \<open>auto simp: monitor_inv_def Returned\<close>)
    with node now ctl show ?thesis by (auto simp: mon' Returned)
  next
    case (Failed e)
    have "clock k1 \<le> clock (destroy l fd k1)" using destroy by (rule destroy_contractD)
    with add now ctl Failed show ?thesis
      by (auto simp: monitor_add_def none k k1 Let_def thrown_def)
  qed
qed

lemma monitor_modify_ok:
  assumes inv: "monitor_inv watched clock mon" and "map_of (m_listeners mon) fd = Some l"
    and modify: "monitor_modify eops fd events mon = (mon', exc)"
  shows "case exc of
      None \<Rightarrow> monitor_inv watched clock mon' \<and> clock (m_epoll mon) \<le> clock (m_epoll mon')
        \<and> mon' = mon\<lparr>m_epoll := m_epoll mon'\<rparr>
        \<and> watched (m_epoll mon') = (watched (m_epoll mon))(fd := Some events)
    | Some e \<Rightarrow> thrown e \<and> clock (m_epoll mon) \<le> clock (m_epoll mon')"
proof -
  obtain k r where k: "sys_epoll_mod eops (m_epoll mon) fd events = (k, r)" by fastforce
  note ctl = ep_mod [OF k]
  show ?thesis
  proof (cases r)
    case (Returned u)
    have "monitor_inv watched clock (mon\<lparr>m_epoll := k\<rparr>)"
      using inv ctl assms(2) by (auto simp: monitor_inv_def Returned intro: order_trans)
    with modify assms(2) ctl show ?thesis by (auto simp: monitor_modify_def k Returned)
  next
    case (Failed e)
    with modify assms(2) ctl show ?thesis by (auto simp: monitor_modify_def k thrown_def)
  qed
qed

lemma deferred_remove_ok:
  "monitor_inv watched clock mon \<Longrightarrow> map_of (m_listeners mon) fd \<noteq> None \<Longrightarrow>
   fd \<notin> set (m_fds_to_remove mon) \<Longrightarrow> monitor_inv watched clock (deferred_remove fd mon)"
  by (auto simp: monitor_inv_def deferred_remove_def)

lemma deferred_clear_ok:
  "monitor_inv watched clock mon \<Longrightarrow> monitor_inv watched clock (deferred_clear mon)"
  by (simp add: monitor_inv_def deferred_clear_def)

end

section \<open>A cycle keeps the invariant\<close>

lemma monitor_inv_set_object:
  "monitor_inv watched clock mon \<Longrightarrow>
   monitor_inv watched clock (mon\<lparr>m_listeners := set_object fd obj (m_listeners mon)\<rparr>)"
  by (auto simp: monitor_inv_def map_of_set_object dom_def)

text \<open>
  A descriptor that waits to be removed was called in this cycle, which began at \<open>c0\<close>, so
  its deadline is at least the period away from that.
\<close>

definition removed_late :: "nat \<Rightarrow> ('k, 'l) fd_event_monitor \<Rightarrow> bool" where
  "removed_late c0 mon \<longleftrightarrow> (\<forall>fd \<in> set (m_fds_to_remove mon).
     \<exists>n t. map_of (m_fd_activity_timestamps mon) n = Some (t, fd) \<and> c0 + inactivity_period \<le> t)"

text \<open>
  A function of a listener has really run: it was called with the listener's object, it returned,
  and what it did is what is there afterwards: its object, the removals it has asked for, and
  a new deadline, the whole period after it returned.
\<close>

definition callback_ran ::
  "('k \<Rightarrow> nat) \<Rightarrow> ('l \<Rightarrow> fd \<Rightarrow> ('k, 'l) fd_event_monitor \<Rightarrow> 'l \<times> ('k, 'l) monitor_run) \<Rightarrow>
   fd \<Rightarrow> 'l listener \<Rightarrow> ('k, 'l) fd_event_monitor \<Rightarrow> ('k, 'l) fd_event_monitor \<Rightarrow> bool" where
  "callback_ran clock callback fd l mon mon' \<longleftrightarrow> map_of (m_listeners mon) fd = Some l
     \<and> (\<exists>obj mon1 t. callback (m_object l) fd mon = (obj, mon1, None)
          \<and> map_of (m_listeners mon') fd = Some (l\<lparr>m_object := obj\<rparr>)
          \<and> m_fds_to_remove mon' = m_fds_to_remove mon1
          \<and> m_reg_should_be_cleared mon' = m_reg_should_be_cleared mon1
          \<and> map_of (m_fd_activity_timestamps mon') (m_timer l) = Some (t, fd)
          \<and> clock (m_epoll mon1) + inactivity_period \<le> t)"

lemma removed_late_Nil [simp]: "m_fds_to_remove mon = [] \<Longrightarrow> removed_late c0 mon"
  by (simp add: removed_late_def)

lemma node_after_last: "n \<notin> set (map fst ts) \<Longrightarrow> node_after n (ts @ [(n, x)]) = None"
  by (induction n ts rule: node_after.induct) auto

lemma process_idle_from_end: "process_idle_from eops lops now None mon = Some (mon, None)"
  by (subst process_idle_from.simps) simp

context epoll_contract
begin

lemma touch_timer_ok:
  assumes inv: "monitor_inv watched clock mon"
    and n: "map_of (m_fd_activity_timestamps mon) n = Some (t, fd)"
    and touch: "touch_timer eops n mon = (mon', exc)"
  shows "exc = None \<and> monitor_inv watched clock mon' \<and> clock (m_epoll mon) \<le> clock (m_epoll mon')
    \<and> watched (m_epoll mon') = watched (m_epoll mon)
    \<and> m_listeners mon' = m_listeners mon \<and> m_fds_to_remove mon' = m_fds_to_remove mon
    \<and> m_reg_should_be_cleared mon' = m_reg_should_be_cleared mon
    \<and> m_fd_activity_timestamps mon' = erase_timer n (m_fd_activity_timestamps mon)
        @ [(n, clock (m_epoll mon') + inactivity_period, fd)]"
proof -
  obtain k now where k: "sys_now eops (m_epoll mon) = (k, now)" by fastforce
  note now = ep_now [OF k]
  let ?ts = "erase_timer n (m_fd_activity_timestamps mon) @ [(n, now + inactivity_period, fd)]"
  let ?mon = "mon\<lparr>m_epoll := k, m_fd_activity_timestamps := ?ts\<rparr>"
  have mon': "mon' = ?mon" "exc = None" using touch n by (simp_all add: touch_timer_def k Let_def)
  have old: "\<forall>t \<in> set (deadlines (erase_timer n (m_fd_activity_timestamps mon))). t \<le> now + inactivity_period"
  proof
    fix t assume "t \<in> set (deadlines (erase_timer n (m_fd_activity_timestamps mon)))"
    then have "t \<le> clock (m_epoll mon) + inactivity_period"
      using inv set_deadlines_erase [of n] unfolding monitor_inv_def by blast
    with now show "t \<le> now + inactivity_period" by simp
  qed
  have "n \<in> set (map fst (m_fd_activity_timestamps mon))"
    using map_of_SomeD [OF n] by force
  then have node: "n < next_node mon" using inv unfolding monitor_inv_def by blast
  have "monitor_inv watched clock ?mon"
    unfolding monitor_inv_def
  proof (intro conjI)
    show "timers_match (m_listeners ?mon) (m_fd_activity_timestamps ?mon)"
      using inv n by (simp add: monitor_inv_def timers_match_touch)
    show "sorted (deadlines (m_fd_activity_timestamps ?mon))"
      using inv old by (simp add: monitor_inv_def sorted_append sorted_deadlines_erase)
    show "\<forall>n \<in> set (map fst (m_fd_activity_timestamps ?mon)). n < next_node ?mon"
      using inv node by (auto simp: monitor_inv_def map_fst_erase_timer simp del: set_map)
  qed (use inv now old in \<open>auto simp: monitor_inv_def\<close>)
  with now show ?thesis by (simp add: mon')
qed

end

context listener_contract
begin

lemma call_listener_ok:
  assumes cb: "callback_contract watched clock l_ok callback"
    and inv: "monitor_inv watched clock mon" and ok: "listeners_ok watched l_ok mon"
    and l: "map_of (m_listeners mon) fd = Some l" and here: "fd \<notin> set (m_fds_to_remove mon)"
    and late: "removed_late c0 mon" "c0 \<le> clock (m_epoll mon)"
    and call: "call_listener eops callback fd l mon = (mon', exc)"
  shows "clock (m_epoll mon) \<le> clock (m_epoll mon') \<and> (case exc of
      Some e \<Rightarrow> thrown e
    | None \<Rightarrow> monitor_inv watched clock mon' \<and> listeners_ok watched l_ok mon'
        \<and> removed_late c0 mon'
        \<and> (\<forall>f. f \<noteq> fd \<longrightarrow> map_of (m_listeners mon) f \<noteq> None \<longrightarrow>
              map_of (m_listeners mon') f = map_of (m_listeners mon) f)
        \<and> dom (map_of (m_listeners mon)) \<subseteq> dom (map_of (m_listeners mon'))
        \<and> set (m_fds_to_remove mon') \<subseteq> insert fd (set (m_fds_to_remove mon))
        \<and> (m_reg_should_be_cleared mon \<le> m_reg_should_be_cleared mon')
        \<and> node_after (m_timer l) (m_fd_activity_timestamps mon') = None)"
proof -
  obtain obj mon1 exc1 where c: "callback (m_object l) fd mon = (obj, mon1, exc1)"
    by (cases "callback (m_object l) fd mon")
  have post: "case exc1 of None \<Rightarrow> callback_post watched clock l_ok fd obj mon mon1
      | Some e \<Rightarrow> thrown e \<and> clock (m_epoll mon) \<le> clock (m_epoll mon1)"
    using cb inv ok l here c unfolding callback_contract_def by blast
  let ?mon2 = "mon1\<lparr>m_listeners := set_object fd obj (m_listeners mon1)\<rparr>"
  show ?thesis
  proof (cases exc1)
    case (Some e)
    with call c post show ?thesis by (auto simp: call_listener_def run_then_def)
  next
    case None
    then have p: "callback_post watched clock l_ok fd obj mon mon1" using post by simp
    then have inv2: "monitor_inv watched clock ?mon2"
      by (simp add: callback_post_def monitor_inv_set_object)
    obtain t where "map_of (m_fd_activity_timestamps mon) (m_timer l) = Some (t, fd)"
      using inv timers_matchD(4) l unfolding monitor_inv_def by blast
    then have t: "map_of (m_fd_activity_timestamps ?mon2) (m_timer l) = Some (t, fd)"
      using p by (simp add: callback_post_def) (metis map_le_def domI)
    have touch: "touch_timer eops (m_timer l) ?mon2 = (mon', exc)"
      using call c None by (simp add: call_listener_def run_then_def)
    note tch = touch_timer_ok [OF inv2 t touch]
    then have exc: "exc = None" and ts': "m_fd_activity_timestamps mon'
        = erase_timer (m_timer l) (m_fd_activity_timestamps mon1)
          @ [(m_timer l, clock (m_epoll mon') + inactivity_period, fd)]" by simp_all
    have ok': "listeners_ok watched l_ok mon'"
      using p tch by (simp add: callback_post_def listeners_ok_def)
    have clk: "clock (m_epoll mon) \<le> clock (m_epoll mon')"
      using p tch by (simp add: callback_post_def)
    have tr: "set (m_fds_to_remove mon') \<subseteq> insert fd (set (m_fds_to_remove mon))"
      using p tch by (auto simp: callback_post_def)
    have late': "removed_late c0 mon'"
      unfolding removed_late_def
    proof
      fix f assume f: "f \<in> set (m_fds_to_remove mon')"
      have last: "map_of (m_fd_activity_timestamps mon') (m_timer l)
          = Some (clock (m_epoll mon') + inactivity_period, fd)"
        by (simp add: ts' map_add_def map_of_erase_timer)
      show "\<exists>n t. map_of (m_fd_activity_timestamps mon') n = Some (t, f) \<and> c0 + inactivity_period \<le> t"
      proof (cases "f = fd")
        case True
        with last clk late(2) show ?thesis
          by (intro exI [of _ "m_timer l"] exI [of _ "clock (m_epoll mon') + inactivity_period"]) simp
      next
        case False
        with f tr have "f \<in> set (m_fds_to_remove mon)" by blast
        with late(1) obtain n u where u: "map_of (m_fd_activity_timestamps mon) n = Some (u, f)"
          "c0 + inactivity_period \<le> u" unfolding removed_late_def by blast
        from u(1) p have u1: "map_of (m_fd_activity_timestamps mon1) n = Some (u, f)"
          by (simp add: callback_post_def) (metis map_le_def domI)
        have "n \<noteq> m_timer l" using u1 t False by auto
        then have "map_of (m_fd_activity_timestamps mon') n = Some (u, f)"
          using u1 by (simp add: ts' map_add_def map_of_erase_timer)
        with u(2) show ?thesis by blast
      qed
    qed
    have dom: "dom (map_of (m_listeners mon)) \<subseteq> dom (map_of (m_listeners mon'))"
      using p tch map_le_implies_dom_le
      by (force simp: callback_post_def map_of_set_object dom_def map_le_def)
    have "node_after (m_timer l) (m_fd_activity_timestamps mon') = None"
      unfolding ts' by (rule node_after_last) (simp add: map_fst_erase_timer del: set_map)
    moreover have "map_of (m_listeners mon') f = map_of (m_listeners mon) f"
      if "f \<noteq> fd" "map_of (m_listeners mon) f \<noteq> None" for f
    proof -
      have "map_of (m_listeners mon) \<subseteq>\<^sub>m map_of (m_listeners mon1)" using p by (simp add: callback_post_def)
      with that tch show ?thesis by (auto simp: map_of_set_object map_le_def dom_def)
    qed
    moreover have "m_reg_should_be_cleared mon \<le> m_reg_should_be_cleared mon'"
      using p tch by (simp add: callback_post_def)
    ultimately show ?thesis using exc tch ok' clk tr late' dom by simp
  qed
qed

text \<open>A call that returns has run, its node is the last one, and the other nodes are untouched.\<close>

lemma call_listener_effect:
  assumes cb: "callback_contract watched clock l_ok callback"
    and inv: "monitor_inv watched clock mon" and ok: "listeners_ok watched l_ok mon"
    and l: "map_of (m_listeners mon) fd = Some l" and here: "fd \<notin> set (m_fds_to_remove mon)"
    and call: "call_listener eops callback fd l mon = (mon', None)"
  shows "callback_ran clock callback fd l mon mon'"
    and "\<exists>ts u. m_fd_activity_timestamps mon' = ts @ [(m_timer l, u, fd)]
      \<and> m_timer l \<notin> set (map fst ts) \<and> clock (m_epoll mon) + inactivity_period \<le> u"
    and "map_of (m_fd_activity_timestamps mon) n = Some (t, f) \<Longrightarrow> f \<noteq> fd \<Longrightarrow>
      map_of (m_fd_activity_timestamps mon') n = Some (t, f)"
proof -
  obtain obj mon1 exc1 where c: "callback (m_object l) fd mon = (obj, mon1, exc1)"
    by (cases "callback (m_object l) fd mon")
  with call have exc1: "exc1 = None" by (cases exc1) (simp_all add: call_listener_def run_then_def)
  have p: "callback_post watched clock l_ok fd obj mon mon1"
    using cb inv ok l here c unfolding callback_contract_def exc1 by fastforce
  let ?mon2 = "mon1\<lparr>m_listeners := set_object fd obj (m_listeners mon1)\<rparr>"
  have inv2: "monitor_inv watched clock ?mon2"
    using p by (simp add: callback_post_def monitor_inv_set_object)
  obtain u where u: "map_of (m_fd_activity_timestamps mon) (m_timer l) = Some (u, fd)"
    using inv timers_matchD(4) l unfolding monitor_inv_def by blast
  have keeps: "map_of (m_fd_activity_timestamps mon1) m = Some x"
    if "map_of (m_fd_activity_timestamps mon) m = Some x" for m x
    using p that by (simp add: callback_post_def) (metis map_le_def domI)
  have u2: "map_of (m_fd_activity_timestamps ?mon2) (m_timer l) = Some (u, fd)" using keeps [OF u] by simp
  have l2: "map_of (m_listeners mon1) fd = Some l"
    using p l by (simp add: callback_post_def) (metis map_le_def domI)
  have touch: "touch_timer eops (m_timer l) ?mon2 = (mon', None)"
    using call c exc1 by (simp add: call_listener_def run_then_def)
  note tch = touch_timer_ok [OF inv2 u2 touch]
  have ts': "m_fd_activity_timestamps mon' = erase_timer (m_timer l) (m_fd_activity_timestamps mon1)
      @ [(m_timer l, clock (m_epoll mon') + inactivity_period, fd)]" using tch by simp
  have fresh: "m_timer l \<notin> set (map fst (erase_timer (m_timer l) (m_fd_activity_timestamps mon1)))"
    by (simp add: map_fst_erase_timer del: set_map)
  have "map_of (m_fd_activity_timestamps mon') (m_timer l)
      = Some (clock (m_epoll mon') + inactivity_period, fd)"
    by (simp add: ts' map_add_def map_of_erase_timer)
  with tch l l2 c exc1 show "callback_ran clock callback fd l mon mon'"
    by (simp add: callback_ran_def map_of_set_object)
  have "clock (m_epoll mon) \<le> clock (m_epoll mon')" using p tch by (simp add: callback_post_def)
  with ts' fresh show "\<exists>ts u. m_fd_activity_timestamps mon' = ts @ [(m_timer l, u, fd)]
      \<and> m_timer l \<notin> set (map fst ts) \<and> clock (m_epoll mon) + inactivity_period \<le> u"
    by (metis add_le_mono1)
  assume n: "map_of (m_fd_activity_timestamps mon) n = Some (t, f)" and "f \<noteq> fd"
  then have "n \<noteq> m_timer l" using u by auto
  with keeps [OF n] show "map_of (m_fd_activity_timestamps mon') n = Some (t, f)"
    by (simp add: ts' map_add_def map_of_erase_timer)
qed

lemma dispatch_events_ok:
  assumes "dispatch_events eops lops events mon = (mon', exc)"
    and "monitor_inv watched clock mon" and "listeners_ok watched l_ok mon"
    and "removed_late c0 mon" and "c0 \<le> clock (m_epoll mon)"
    and "distinct events" and "set events \<subseteq> dom (map_of (m_listeners mon))"
    and "set events \<inter> set (m_fds_to_remove mon) = {}"
  shows "c0 \<le> clock (m_epoll mon') \<and> (case exc of
      Some e \<Rightarrow> thrown e
    | None \<Rightarrow> monitor_inv watched clock mon' \<and> listeners_ok watched l_ok mon' \<and> removed_late c0 mon'
        \<and> (m_reg_should_be_cleared mon \<le> m_reg_should_be_cleared mon'))"
  using assms
proof (induction events arbitrary: mon)
  case Nil
  then show ?case by auto
next
  case (Cons fd events)
  obtain l where l: "map_of (m_listeners mon) fd = Some l" using Cons.prems(7) by auto
  obtain mon1 exc1 where call: "call_listener eops (call_fd_is_ready lops) fd l mon = (mon1, exc1)"
    by fastforce
  have fresh: "fd \<notin> set (m_fds_to_remove mon)" using Cons.prems(8) by auto
  note one = call_listener_ok [OF ready_contract Cons.prems(2,3) l fresh Cons.prems(4,5) call]
  show ?case
  proof (cases exc1)
    case (Some e)
    with one Cons.prems(1,5) l call show ?thesis by (auto simp: run_then_def)
  next
    case None
    have rest: "dispatch_events eops lops events mon1 = (mon', exc)"
      using Cons.prems(1) l call None by (simp add: run_then_def)
    have c: "c0 \<le> clock (m_epoll mon1)" using one Cons.prems(5) by simp
    have d: "set events \<subseteq> dom (map_of (m_listeners mon1))"
    proof -
      have "dom (map_of (m_listeners mon)) \<subseteq> dom (map_of (m_listeners mon1))" using one None by simp
      with Cons.prems(7) show ?thesis by (meson order_trans set_subset_Cons)
    qed
    have r: "set events \<inter> set (m_fds_to_remove mon1) = {}"
      using one None Cons.prems(6,8) by auto
    from Cons.IH [OF rest _ _ _ c _ d r] one None Cons.prems(6)
    show ?thesis by (auto split: option.splits)
  qed
qed

text \<open>
  The idle loop calls at most one listener: its node is then the last of the list, so the
  iterator has nowhere to go.
\<close>

lemma process_idle_once:
  assumes inv: "monitor_inv watched clock mon" and ok: "listeners_ok watched l_ok mon"
    and late: "removed_late c0 mon" "c0 \<le> clock (m_epoll mon)"
    and now: "sys_now eops (m_epoll mon) = (k, now)"
      "m_fds_to_remove mon \<noteq> [] \<Longrightarrow> now < c0 + inactivity_period"
  shows "process_idle_fds eops lops mon =
    (case m_fd_activity_timestamps mon of
       [] \<Rightarrow> Some (mon\<lparr>m_epoll := k\<rparr>, None)
     | (n, t, fd) # _ \<Rightarrow>
         if now < t then Some (mon\<lparr>m_epoll := k\<rparr>, None)
         else Some (call_listener eops (call_fd_is_idle lops) fd (the (map_of (m_listeners mon) fd))
                      (mon\<lparr>m_epoll := k\<rparr>)))"
    and "process_idle_fds eops lops mon = Some (mon', exc) \<Longrightarrow>
      c0 \<le> clock (m_epoll mon') \<and> (case exc of
        Some e \<Rightarrow> thrown e
      | None \<Rightarrow> monitor_inv watched clock mon' \<and> listeners_ok watched l_ok mon'
          \<and> (m_reg_should_be_cleared mon \<le> m_reg_should_be_cleared mon'))"
proof -
  let ?mon = "mon\<lparr>m_epoll := k\<rparr>"
  note nw = ep_now [OF now(1)]
  have inv': "monitor_inv watched clock ?mon" using inv nw by (intro monitor_inv_epoll) simp_all
  have ok': "listeners_ok watched l_ok ?mon" using ok nw by (intro listeners_ok_epoll) simp_all
  have late': "removed_late c0 ?mon" "c0 \<le> clock (m_epoll ?mon)"
    using late nw by (simp_all add: removed_late_def)
  have both: "process_idle_fds eops lops mon =
      (case m_fd_activity_timestamps mon of
         [] \<Rightarrow> Some (?mon, None)
       | (n, t, fd) # _ \<Rightarrow>
           if now < t then Some (?mon, None)
           else Some (call_listener eops (call_fd_is_idle lops) fd (the (map_of (m_listeners mon) fd)) ?mon))
    \<and> (process_idle_fds eops lops mon = Some (mon', exc) \<longrightarrow>
      c0 \<le> clock (m_epoll mon') \<and> (case exc of
        Some e \<Rightarrow> thrown e
      | None \<Rightarrow> monitor_inv watched clock mon' \<and> listeners_ok watched l_ok mon'
          \<and> (m_reg_should_be_cleared mon \<le> m_reg_should_be_cleared mon')))"
  proof (cases "m_fd_activity_timestamps mon")
    case Nil
    with inv' ok' late' show ?thesis
      by (auto simp: process_idle_fds_def now(1) process_idle_from_end)
  next
    case (Cons e ts)
    obtain n t fd where e: "e = (n, t, fd)" by (cases e)
    have n: "map_of (m_fd_activity_timestamps ?mon) n = Some (t, fd)" by (simp add: Cons e)
    obtain l where l: "map_of (m_listeners mon) fd = Some l" "m_timer l = n"
    proof -
      have "timers_match (m_listeners mon) (m_fd_activity_timestamps mon)"
        using inv by (simp add: monitor_inv_def)
      moreover have "map_of (m_fd_activity_timestamps mon) n = Some (t, fd)" using n by simp
      ultimately show ?thesis using that timers_matchD(3) by blast
    qed
    show ?thesis
    proof (cases "now < t")
      case True
      with n inv' ok' late' show ?thesis
        by (auto simp: process_idle_fds_def now(1) Cons e process_idle_from.simps [of _ _ _ "Some n"])
    next
      case False
      have here: "fd \<notin> set (m_fds_to_remove ?mon)"
      proof
        assume "fd \<in> set (m_fds_to_remove ?mon)"
        with late(1) obtain m u where u: "map_of (m_fd_activity_timestamps mon) m = Some (u, fd)"
          "c0 + inactivity_period \<le> u" by (auto simp: removed_late_def)
        obtain l' where "map_of (m_listeners mon) fd = Some l'" "m_timer l' = m"
          using inv u(1) timers_matchD(3) unfolding monitor_inv_def by blast
        moreover have "now < c0 + inactivity_period"
          using now(2) \<open>fd \<in> set (m_fds_to_remove ?mon)\<close> by fastforce
        ultimately show False using l u n False by simp
      qed
      obtain mon1 exc1 where call: "call_listener eops (call_fd_is_idle lops) fd l ?mon = (mon1, exc1)"
        by fastforce
      have l': "map_of (m_listeners ?mon) fd = Some l" using l by simp
      note one = call_listener_ok [OF idle_contract inv' ok' l' here late' call]
      have "process_idle_fds eops lops mon = Some (mon1, exc1)"
        using n l False call one
        by (simp add: process_idle_fds_def now(1) Cons e process_idle_from.simps [of _ _ _ "Some n"]
            process_idle_from_end split: option.splits)
      with one late' l False call show ?thesis by (auto simp: Cons e split: option.splits)
    qed
  qed
  from both show "process_idle_fds eops lops mon =
    (case m_fd_activity_timestamps mon of
       [] \<Rightarrow> Some (?mon, None)
     | (n, t, fd) # _ \<Rightarrow>
         if now < t then Some (?mon, None)
         else Some (call_listener eops (call_fd_is_idle lops) fd (the (map_of (m_listeners mon) fd)) ?mon))"
    by (rule conjunct1)
  from both show "process_idle_fds eops lops mon = Some (mon', exc) \<Longrightarrow>
      c0 \<le> clock (m_epoll mon') \<and> (case exc of
        Some e \<Rightarrow> thrown e
      | None \<Rightarrow> monitor_inv watched clock mon' \<and> listeners_ok watched l_ok mon'
          \<and> (m_reg_should_be_cleared mon \<le> m_reg_should_be_cleared mon'))"
    by blast
qed

end

text \<open>Dropping the listeners that were removed.\<close>

context epoll_contract
begin

lemma remove_fds_ok:
  assumes destroy: "destroy_contract watched clock destroy"
    and "monitor_inv watched clock (mon\<lparr>m_fds_to_remove := fds\<rparr>)"
    and "listeners_ok watched l_ok (mon\<lparr>m_fds_to_remove := fds\<rparr>)"
  shows "\<exists>mon'. remove_fds eops destroy fds mon = (mon', None)
    \<and> monitor_inv watched clock (mon'\<lparr>m_fds_to_remove := []\<rparr>)
    \<and> listeners_ok watched l_ok (mon'\<lparr>m_fds_to_remove := []\<rparr>)
    \<and> clock (m_epoll mon) \<le> clock (m_epoll mon')
    \<and> map_of (m_listeners mon') = map_of (m_listeners mon) |` (- set fds)"
  using assms(2,3)
proof (induction fds arbitrary: mon)
  case Nil
  then show ?case by (auto simp: restrict_map_def)
next
  case (Cons fd fds)
  let ?ls = "m_listeners mon" and ?ts = "m_fd_activity_timestamps mon"
  obtain k r where k: "sys_epoll_del eops (m_epoll mon) fd = (k, r)" by fastforce
  have match: "timers_match ?ls ?ts" using Cons.prems(1) by (simp add: monitor_inv_def)
  obtain l where l: "map_of ?ls fd = Some l" using Cons.prems(1) by (auto simp: monitor_inv_def)
  from timers_matchD(4) [OF match l] obtain t where t: "map_of ?ts (m_timer l) = Some (t, fd)" by blast
  have node: "m_timer l \<in> set (map fst ?ts)" using map_of_SomeD [OF t] by force
  let ?k = "destroy (m_object l) fd k"
  have del: "clock (m_epoll mon) \<le> clock ?k" "watched ?k = (watched (m_epoll mon))(fd := None)"
    using ep_del [OF k] destroy_contractD [OF destroy, where l = "m_object l" and fd = fd and k = k] by simp_all
  let ?mon = "mon\<lparr>m_epoll := ?k, m_fd_activity_timestamps := erase_timer (m_timer l) ?ts,
                  m_listeners := erase_listener fd ?ls\<rparr>"
  have step: "remove_fds eops destroy (fd # fds) mon = remove_fds eops destroy fds ?mon"
    using l node by (simp add: k Let_def del: set_map)
  have inv: "monitor_inv watched clock (?mon\<lparr>m_fds_to_remove := fds\<rparr>)"
    unfolding monitor_inv_def
  proof (intro conjI)
    show "timers_match (m_listeners (?mon\<lparr>m_fds_to_remove := fds\<rparr>))
        (m_fd_activity_timestamps (?mon\<lparr>m_fds_to_remove := fds\<rparr>))"
      using timers_match_erase [OF match l] by simp
    show "\<forall>n \<in> set (map fst (m_fd_activity_timestamps (?mon\<lparr>m_fds_to_remove := fds\<rparr>))).
        n < next_node (?mon\<lparr>m_fds_to_remove := fds\<rparr>)"
      using Cons.prems(1) by (auto simp: monitor_inv_def map_fst_erase_timer simp del: set_map)
    show "sorted (deadlines (m_fd_activity_timestamps (?mon\<lparr>m_fds_to_remove := fds\<rparr>)))"
      using Cons.prems(1) by (simp add: monitor_inv_def sorted_deadlines_erase)
    show "\<forall>t \<in> set (deadlines (m_fd_activity_timestamps (?mon\<lparr>m_fds_to_remove := fds\<rparr>))).
        t \<le> clock (m_epoll (?mon\<lparr>m_fds_to_remove := fds\<rparr>)) + inactivity_period"
    proof
      fix t assume "t \<in> set (deadlines (m_fd_activity_timestamps (?mon\<lparr>m_fds_to_remove := fds\<rparr>)))"
      then have "t \<in> set (deadlines ?ts)" using set_deadlines_erase [of "m_timer l" ?ts] by auto
      with Cons.prems(1) have "t \<le> clock (m_epoll mon) + inactivity_period"
        by (simp add: monitor_inv_def)
      with del show "t \<le> clock (m_epoll (?mon\<lparr>m_fds_to_remove := fds\<rparr>)) + inactivity_period" by simp
    qed
  qed (use Cons.prems(1) del in \<open>auto simp: monitor_inv_def map_of_erase_listener\<close>)
  have ok: "listeners_ok watched l_ok (?mon\<lparr>m_fds_to_remove := fds\<rparr>)"
    using Cons.prems(2) del by (auto simp: listeners_ok_def map_of_erase_listener)
  have restrict: "map_of (erase_listener fd ?ls) |` (- set fds) = map_of ?ls |` (- set (fd # fds))"
    by (auto simp: map_of_erase_listener restrict_map_def)
  from Cons.IH [where mon = ?mon] inv ok del restrict show ?case
    unfolding step by (auto intro: order_trans)
qed

lemma flush_fds_to_remove_ok:
  assumes destroy: "destroy_contract watched clock destroy"
    and inv: "monitor_inv watched clock mon" and ok: "listeners_ok watched l_ok mon"
    and flush: "flush_fds_to_remove eops destroy mon = (mon', exc)"
  shows "case exc of
      Some e \<Rightarrow> thrown e
    | None \<Rightarrow> monitor_inv watched clock mon' \<and> listeners_ok watched l_ok mon'
        \<and> m_fds_to_remove mon' = []
        \<and> map_of (m_listeners mon') =
            (if m_reg_should_be_cleared mon then Map.empty
             else map_of (m_listeners mon) |` (- set (m_fds_to_remove mon)))"
proof (cases "m_reg_should_be_cleared mon")
  case True
  obtain k r where k: "sys_epoll_create eops (m_epoll mon) = (k, r)" by fastforce
  note create = ep_create [OF k]
  show ?thesis
  proof (cases r)
    case (Returned u)
    with create have "watched k = Map.empty" by simp
    then have "watched (destroy_all destroy (m_listeners mon) k) = Map.empty"
      by (rule destroy_all_ok(2) [OF destroy])
    with flush True show ?thesis
      by (auto simp: flush_fds_to_remove_def k Returned fd_event_monitor_init_def monitor_inv_def
          timers_match_def listeners_ok_def)
  next
    case (Failed e)
    with flush True show ?thesis by (auto simp: flush_fds_to_remove_def k thrown_def)
  qed
next
  case False
  have same: "mon\<lparr>m_fds_to_remove := m_fds_to_remove mon\<rparr> = mon" by simp
  have ok1: "listeners_ok watched l_ok (mon\<lparr>m_fds_to_remove := m_fds_to_remove mon\<rparr>)" using ok by simp
  from remove_fds_ok [OF destroy, where mon = mon and fds = "m_fds_to_remove mon" and l_ok = l_ok]
    inv ok1 flush False show ?thesis
    by (auto simp: same flush_fds_to_remove_def run_then_def)
qed

end

text \<open>
  A cycle is quick if the idle loop begins within the period after the cycle has begun: the
  ready listeners together took less than that.
\<close>

definition quick_cycle ::
  "'k epoll_ops \<Rightarrow> ('k, 'l) listener_ops \<Rightarrow> ('k \<Rightarrow> nat) \<Rightarrow> ('k, 'l) fd_event_monitor \<Rightarrow> bool" where
  "quick_cycle eops lops clock mon =
     (case sys_epoll_wait eops (m_epoll mon) (length (m_listeners mon)) of
        (k, Failed e) \<Rightarrow> True
      | (k, Returned events) \<Rightarrow>
          (case dispatch_events eops lops events ((grow_event_buffer mon)\<lparr>m_epoll := k\<rparr>) of
             (mon1, Some e) \<Rightarrow> True
           | (mon1, None) \<Rightarrow>
               snd (sys_now eops (m_epoll mon1)) < clock (m_epoll mon) + inactivity_period))"

text \<open>The ready listeners of a cycle asked for everything to be cleared.\<close>

definition cleared_by_events ::
  "'k epoll_ops \<Rightarrow> ('k, 'l) listener_ops \<Rightarrow> ('k, 'l) fd_event_monitor \<Rightarrow> bool" where
  "cleared_by_events eops lops mon =
     (case sys_epoll_wait eops (m_epoll mon) (length (m_listeners mon)) of
        (k, Failed e) \<Rightarrow> False
      | (k, Returned events) \<Rightarrow>
          m_reg_should_be_cleared
            (fst (dispatch_events eops lops events ((grow_event_buffer mon)\<lparr>m_epoll := k\<rparr>))))"

lemma grow_event_buffer_simps [simp]:
  "m_epoll (grow_event_buffer mon) = m_epoll mon"
  "m_listeners (grow_event_buffer mon) = m_listeners mon"
  "m_fds_to_remove (grow_event_buffer mon) = m_fds_to_remove mon"
  "m_fd_activity_timestamps (grow_event_buffer mon) = m_fd_activity_timestamps mon"
  "next_node (grow_event_buffer mon) = next_node mon"
  by (simp_all add: grow_event_buffer_def Let_def)

context listener_contract
begin

lemma cycle_ok:
  assumes inv: "monitor_inv watched clock mon" and ok: "listeners_ok watched l_ok mon"
    and none: "m_fds_to_remove mon = []" and quick: "quick_cycle eops lops clock mon"
  shows "\<exists>mon' r. wait_for_and_dispatch_events eops lops mon = Some (mon', r)
    \<and> (case r of
         Inl e \<Rightarrow> thrown e
       | Inr again \<Rightarrow> (again \<longleftrightarrow> m_listeners mon \<noteq> []) \<and> monitor_inv watched clock mon'
           \<and> listeners_ok watched l_ok mon' \<and> m_fds_to_remove mon' = []
           \<and> (cleared_by_events eops lops mon \<longrightarrow> m_listeners mon' = []))"
proof (cases "m_listeners mon")
  case Nil
  with inv ok none show ?thesis by (simp add: wait_for_and_dispatch_events_def)
next
  case Cons
  then have ls: "m_listeners mon \<noteq> []" by simp
  obtain k w where k: "sys_epoll_wait eops (m_epoll mon) (length (m_listeners mon)) = (k, w)" by fastforce
  note wt = ep_wait [OF k]
  show ?thesis
  proof (cases w)
    case (Failed e)
    with ls show ?thesis by (simp add: wait_for_and_dispatch_events_def k Let_def thrown_def)
  next
    case (Returned events)
    let ?mon0 = "(grow_event_buffer mon)\<lparr>m_epoll := k\<rparr>" and ?c0 = "clock (m_epoll mon)"
    obtain mon1 exc1 where d: "dispatch_events eops lops events ?mon0 = (mon1, exc1)" by fastforce
    have inv0: "monitor_inv watched clock ?mon0"
      using inv wt by (auto simp: monitor_inv_def intro: order_trans)
    have ok0: "listeners_ok watched l_ok ?mon0" using ok wt by (simp add: listeners_ok_def)
    have ev: "set events \<subseteq> dom (map_of (m_listeners ?mon0))"
    proof
      fix fd assume "fd \<in> set events"
      then have "fd \<in> dom (watched (m_epoll mon))" using wt Returned by auto
      with inv show "fd \<in> dom (map_of (m_listeners ?mon0))" by (simp add: monitor_inv_def)
    qed
    have d_ok: "?c0 \<le> clock (m_epoll mon1) \<and> (case exc1 of
        Some e \<Rightarrow> thrown e
      | None \<Rightarrow> monitor_inv watched clock mon1 \<and> listeners_ok watched l_ok mon1 \<and> removed_late ?c0 mon1
          \<and> (m_reg_should_be_cleared ?mon0 \<le> m_reg_should_be_cleared mon1))"
      by (rule dispatch_events_ok [OF d inv0 ok0 _ _ _ ev]) (use wt none Returned in simp_all)
    show ?thesis
    proof (cases exc1)
      case (Some e)
      with d_ok d ls show ?thesis by (simp add: wait_for_and_dispatch_events_def k Returned Let_def)
    next
      case None
      with d_ok have ok1: "monitor_inv watched clock mon1" "listeners_ok watched l_ok mon1"
        "removed_late ?c0 mon1" "?c0 \<le> clock (m_epoll mon1)" by simp_all
      obtain k1 now where now: "sys_now eops (m_epoll mon1) = (k1, now)" by fastforce
      have soon: "now < ?c0 + inactivity_period"
        using quick by (simp add: quick_cycle_def k Returned d None now)
      note once = process_idle_once [OF ok1 now soon]
      have "process_idle_fds eops lops mon1 \<noteq> None"
        unfolding once(1) by (simp split: list.split)
      then obtain mon2 exc2 where i: "process_idle_fds eops lops mon1 = Some (mon2, exc2)" by fastforce
      note i_ok = once(2) [OF i]
      show ?thesis
      proof (cases exc2)
        case (Some e)
        with i_ok i d None ls show ?thesis
          by (simp add: wait_for_and_dispatch_events_def k Returned Let_def)
      next
        case none2: None
        obtain mon3 exc3 where f: "flush_fds_to_remove eops (call_destroy lops) mon2 = (mon3, exc3)"
          by fastforce
        have ok2: "monitor_inv watched clock mon2" "listeners_ok watched l_ok mon2"
          using i_ok none2 by simp_all
        have "m_listeners mon3 = []" if "exc3 = None" "m_reg_should_be_cleared mon1"
          using flush_fds_to_remove_ok [OF lops_destroy ok2 f] that i_ok none2 by (simp add: map_of_eq_empty_iff)
        with flush_fds_to_remove_ok [OF lops_destroy ok2 f] f i none2 d None ls show ?thesis
          by (cases exc3)
             (simp_all add: wait_for_and_dispatch_events_def cleared_by_events_def k Returned Let_def)
      qed
    qed
  qed
qed

end

end
