(* ===== verification/Session_States.thy ===== *)
theory Session_States
  imports Session
begin

text \<open>
  The five states of a request, each with its \<open>socket_is_ready\<close>:
  \<^verbatim>\<open>src/lib/http_read_request_header.hpp\<close>,
  \<^verbatim>\<open>src/lib/http_read_request_body.hpp\<close>,
  \<^verbatim>\<open>src/lib/http_write_response_header.hpp\<close>,
  \<^verbatim>\<open>src/lib/http_write_response_body.hpp\<close> and
  \<^verbatim>\<open>src/lib/http_wait_for_data.hpp\<close>. Four of them run \<open>transfer_data\<close> with their own
  reader, writer and mapping of the way it ended; each of these is a definition. The
  result of a call is the state object, the buffer and the session afterwards and the
  response; \<open>None\<close> stands for a call that does not return.
\<close>

type_synonym ('s, 'h, 'st) state_outcome =
  "('st \<times> buffer_span \<times> ('s, 'h) session \<times> session_state_response) faulty option"

text \<open>How a transfer's result becomes a state's result.\<close>

definition finish_transfer ::
  "('c \<times> buffer_span \<times> nat \<times> ('er, 'ew) transfer_exit) faulty option \<Rightarrow>
   ('c \<Rightarrow> buffer_span \<Rightarrow> nat \<Rightarrow> ('er, 'ew) transfer_exit \<Rightarrow> 'r faulty) \<Rightarrow> 'r faulty option" where
  "finish_transfer res map_error_code =
     (case res of
        None \<Rightarrow> None
      | Some (Inl e) \<Rightarrow> Some (Inl e)
      | Some (Inr (c, b, n, ex)) \<Rightarrow> Some (map_error_code c b n ex))"

lemma finish_transfer_simps [simp]:
  "finish_transfer (Some (Inr (c, b, n, ex))) f = Some (f c b n ex)"
  by (simp add: finish_transfer_def)

text \<open>The lambdas that read from and write to the session's connection.\<close>

definition read_connection ::
  "'s socket_ops \<Rightarrow> ('s, 'h) session \<times> 'x \<Rightarrow> nat \<Rightarrow>
   ((('s, 'h) session \<times> 'x) \<times> string \<times> operation_result) faulty" where
  "read_connection ops c n =
     (case sock_read ops (connection (fst c)) n of (s', data, ec) \<Rightarrow>
        Inr ((fst c\<lparr>connection := s'\<rparr>, snd c), data, ec))"

definition write_connection ::
  "'s socket_ops \<Rightarrow> ('s, 'h) session \<times> 'x \<Rightarrow> string \<Rightarrow> nat \<Rightarrow>
   ((('s, 'h) session \<times> 'x) \<times> nat \<times> operation_result) faulty" where
  "write_connection ops c bytes n =
     (case sock_write ops (connection (fst c)) bytes of (s', k, ec) \<Rightarrow>
        Inr ((fst c\<lparr>connection := s'\<rparr>, snd c), k, ec))"

section \<open>Reading the request header\<close>

record read_request_header =
  m_req_header_parser :: request_header_parser
  m_bytes_to_read :: nat

definition read_request_header_init :: "nat \<Rightarrow> read_request_header" where
  "read_request_header_init max_header_size =
     \<lparr>m_req_header_parser = request_header_parser_init, m_bytes_to_read = max_header_size\<rparr>"

definition max_header_size_default :: nat where
  "max_header_size_default = 65536"

text \<open>
  \<open>Completed\<close> counts as an error, to make the transfer loop return when the header is
  complete.
\<close>

definition parser_error_code_checker :: "req_header_parser_error_code \<Rightarrow> bool" where
  "parser_error_code_checker ec \<longleftrightarrow> ec \<noteq> More_data_needed"

definition parse_content ::
  "('s, 'h) session \<times> request_header_parser \<Rightarrow> string \<Rightarrow> nat \<Rightarrow>
   ((('s, 'h) session \<times> request_header_parser) \<times> nat \<times> req_header_parser_error_code) faulty" where
  "parse_content c bytes n =
     (case parse (snd c) bytes of
        Inl e \<Rightarrow> Inl e
      | Inr (p', rest, ec) \<Rightarrow> Inr ((fst c, p'), length bytes - length rest, ec))"

definition header_completed ::
  "('h, 'e) handler_ops \<Rightarrow> ('s, 'h) session \<Rightarrow> request_header \<Rightarrow>
   (('s, 'h) session \<times> session_state_response) faulty" where
  "header_completed hops ses0 hdr =
     (let ses = ses0\<lparr>s_request_info := (s_request_info ses0)\<lparr>ri_header := hdr\<rparr>\<rparr> in
      if rl_http_version (req_line hdr) \<noteq> mk_version 1 1 then
        Inr (ses, state_response Client_error_detected Http_version_not_supported
               (make_unique_cstr ''This web server only supports HTTP version 1.1''))
      else
        (case get_content_length_request hdr of
           None \<Rightarrow>
             Inr (ses, state_response Client_error_detected Bad_request
                    (make_unique_cstr ''Bad content-length''))
         | Some content_length \<Rightarrow>
             and_then (finalize_header hops (request_handler ses) hdr) (\<lambda>(h', res).
               Inr (ses\<lparr>request_handler := h',
                        s_request_info := (s_request_info ses)\<lparr>ri_content_length := content_length\<rparr>\<rparr>,
                    \<lparr>st_status = (if is_error (http_status res) then Client_error_detected
                                  else State_completed),
                     st_result = res\<rparr>))))"

definition map_header_exit ::
  "('h, 'e) handler_ops \<Rightarrow> ('s, 'h) session \<Rightarrow> request_header_parser \<Rightarrow>
   (operation_result, req_header_parser_error_code) transfer_exit \<Rightarrow>
   (('s, 'h) session \<times> session_state_response) faulty" where
  "map_header_exit hops ses p ex =
     (case ex of
        Read_exit res \<Rightarrow>
          Inr (ses, make_read_response res (req_header_parser_error_code_to_string More_data_needed))
      | Write_exit ec \<Rightarrow>
          (case ec of
             More_data_needed \<Rightarrow> abort
           | Completed \<Rightarrow> header_completed hops ses (take_result p)
           | _ \<Rightarrow>
               Inr (ses, state_response Client_error_detected Bad_request
                      (make_unique_cstr (req_header_parser_error_code_to_string ec))))
      | All_transferred \<Rightarrow>
          Inr (ses, state_response Client_error_detected Request_entity_too_large
                 (make_unique_cstr (req_header_parser_error_code_to_string More_data_needed))))"

definition read_request_header_ready ::
  "'s socket_ops \<Rightarrow> ('h, 'e) handler_ops \<Rightarrow> read_request_header \<Rightarrow> buffer_span \<Rightarrow>
   ('s, 'h) session \<Rightarrow> ('s, 'h, read_request_header) state_outcome" where
  "read_request_header_ready ops hops st buffer ses =
     finish_transfer
       (transfer_data (read_connection ops) parse_content is_error_indicator
          parser_error_code_checker (ses, m_req_header_parser st) buffer (m_bytes_to_read st))
       (\<lambda>(ses1, p) b n ex.
          and_then (map_header_exit hops ses1 p ex) (\<lambda>(ses2, resp).
            Inr (\<lparr>m_req_header_parser = p, m_bytes_to_read = n\<rparr>, b, ses2, resp)))"

section \<open>Waiting for data\<close>

definition wait_for_data_ready ::
  "'s socket_ops \<Rightarrow> buffer_span \<Rightarrow> ('s, 'h) session \<Rightarrow>
   (buffer_span \<times> ('s, 'h) session \<times> session_state_response) faulty" where
  "wait_for_data_ready ops buffer ses =
     (if length (span_to_read buffer) \<noteq> 0 then
        Inr (buffer, ses, state_response State_completed Ok None)
      else
        (case sock_read ops (connection ses) (span_to_write buffer) of (s', data, ec) \<Rightarrow>
           let ses1 = ses\<lparr>connection := s'\<rparr> in
           and_then (reset_with_new_length (length data) (fill_span data buffer)) (\<lambda>buffer1.
             if length data = 0 \<and> ec \<noteq> Op_would_block then
               Inr (buffer1, ses1, state_response Connection_closed Ok None)
             else
               (case ec of
                  Op_completed \<Rightarrow> Inr (buffer1, ses1, state_response State_completed Ok None)
                | Op_would_block \<Rightarrow> Inr (buffer1, ses1, state_response State_more_data_needed Ok None)
                | Op_error \<Rightarrow>
                    Inr (buffer1, ses1, state_response State_io_error Internal_server_error
                           (make_unique_cstr ''I/O error''))))))"

section \<open>Reading the request body\<close>

definition handle_content ::
  "('h, 'e) handler_ops \<Rightarrow> ('s, 'h) session \<times> unit \<Rightarrow> string \<Rightarrow> nat \<Rightarrow>
   ((('s, 'h) session \<times> unit) \<times> nat \<times> 'e) faulty" where
  "handle_content hops c bytes n =
     and_then (process_request_content hops (request_handler (fst c)) bytes n) (\<lambda>(h', k, ec).
       Inr ((fst c\<lparr>request_handler := h'\<rparr>, ()), k, ec))"

definition body_completed ::
  "('h, 'e) handler_ops \<Rightarrow> ('s, 'h) session \<Rightarrow>
   (('s, 'h) session \<times> session_state_response) faulty" where
  "body_completed hops ses =
     and_then (finalize_body hops (request_handler ses)
         (resp_fields (rsp_header response_info_default))) (\<lambda>(h', flds, res).
       Inr (ses\<lparr>request_handler := h',
                s_response_info := \<lparr>rsp_header =
                  \<lparr>resp_status_line = \<lparr>sl_http_version = mk_version 1 1,
                     sl_status_code = http_status res,
                     sl_reason_phrase = status_to_string (http_status res)\<rparr>,
                   resp_fields = flds\<rparr>\<rparr>\<rparr>,
            \<lparr>st_status = (if is_error (http_status res) then Client_error_detected
                          else State_completed),
             st_result = res\<rparr>))"

definition map_body_exit ::
  "('h, 'e) handler_ops \<Rightarrow> ('s, 'h) session \<Rightarrow> buffer_span \<Rightarrow> nat \<Rightarrow>
   (operation_result, 'e) transfer_exit \<Rightarrow>
   (buffer_span \<times> ('s, 'h) session \<times> session_state_response) faulty" where
  "map_body_exit hops ses buffer bytes_to_read ex =
     (case ex of
        Read_exit res \<Rightarrow>
          Inr (buffer, ses, make_read_response res ''Client claims there is more data to read'')
      | Write_exit ec \<Rightarrow>
          (let keep_going = (ec_can_continue hops ec \<and> bytes_to_read \<noteq> 0) in
           and_then (if \<not> keep_going then reset_with_new_length 0 buffer else Inr buffer) (\<lambda>buffer1.
             Inr (buffer1, ses,
               state_response
                 (if keep_going then State_more_data_needed else Client_error_detected)
                 (if keep_going then Ok else Bad_request)
                 (if keep_going then None else make_unique_cstr (ec_to_string hops ec)))))
      | All_transferred \<Rightarrow>
          and_then (body_completed hops ses) (\<lambda>(ses1, resp). Inr (buffer, ses1, resp)))"

definition read_request_body_ready ::
  "'s socket_ops \<Rightarrow> ('h, 'e) handler_ops \<Rightarrow> nat \<Rightarrow> buffer_span \<Rightarrow>
   ('s, 'h) session \<Rightarrow> ('s, 'h, nat) state_outcome" where
  "read_request_body_ready ops hops content_length buffer ses =
     finish_transfer
       (transfer_data (read_connection ops) (handle_content hops) is_error_indicator
          (ec_is_error_indicator hops) (ses, ()) buffer content_length)
       (\<lambda>(ses1, _) b n ex.
          and_then (map_body_exit hops ses1 b n ex) (\<lambda>(b2, ses2, resp).
            Inr (n, b2, ses2, resp)))"

section \<open>Writing the response header\<close>

text \<open>The serializer's error code has one value and never counts as an error.\<close>

definition serializer_error_code_checker :: "unit \<Rightarrow> bool" where
  "serializer_error_code_checker ec \<longleftrightarrow> False"

definition read_serializer ::
  "('s, 'h) session \<times> response_header_serializer \<Rightarrow> nat \<Rightarrow>
   ((('s, 'h) session \<times> response_header_serializer) \<times> string \<times> unit) faulty" where
  "read_serializer c n =
     (case serialize (snd c) n of (ser', out) \<Rightarrow> Inr ((fst c, ser'), out, ()))"

definition map_response_header_exit ::
  "buffer_span \<Rightarrow> (unit, operation_result) transfer_exit \<Rightarrow> session_state_response faulty" where
  "map_response_header_exit buffer ex =
     (case ex of
        Read_exit _ \<Rightarrow>
          and_then (assert_that (length (span_to_read buffer) = 0)
              ''std::size(buffer.span_to_read()) == 0'') (\<lambda>_.
            Inr (state_response State_completed Ok None))
      | Write_exit res \<Rightarrow> Inr (make_write_response res)
      | All_transferred \<Rightarrow> abort)"

definition write_response_header_ready ::
  "'s socket_ops \<Rightarrow> response_header_serializer \<Rightarrow> buffer_span \<Rightarrow>
   ('s, 'h) session \<Rightarrow> ('s, 'h, response_header_serializer) state_outcome" where
  "write_response_header_ready ops m_serializer buffer ses =
     (let max_length = 2 ^ 64 - 1 in
      finish_transfer
        (transfer_data read_serializer (write_connection ops) serializer_error_code_checker
           is_error_indicator (ses, m_serializer) buffer max_length)
        (\<lambda>(ses1, ser) b n ex.
           and_then (map_response_header_exit b ex) (\<lambda>resp. Inr (ser, b, ses1, resp))))"

section \<open>Writing the response body\<close>

definition read_content ::
  "('h, 'e) handler_ops \<Rightarrow> ('s, 'h) session \<times> unit \<Rightarrow> nat \<Rightarrow>
   ((('s, 'h) session \<times> unit) \<times> string \<times> 'e) faulty" where
  "read_content hops c n =
     and_then (read_response_content hops (request_handler (fst c)) n) (\<lambda>(h', data, ec).
       Inr ((fst c\<lparr>request_handler := h'\<rparr>, ()), data, ec))"

definition map_response_body_exit ::
  "('h, 'e) handler_ops \<Rightarrow> ('e, operation_result) transfer_exit \<Rightarrow> session_state_response" where
  "map_response_body_exit hops ex =
     (case ex of
        Read_exit ec \<Rightarrow>
          (let keep_going = ec_can_continue hops ec in
           state_response
             (if keep_going then State_more_data_needed else Write_response_failed)
             (if keep_going then Ok else Internal_server_error)
             (if keep_going then None else make_unique_cstr (ec_to_string hops ec)))
      | Write_exit res \<Rightarrow> make_write_response res
      | All_transferred \<Rightarrow> state_response State_completed Ok None)"

definition write_response_body_ready ::
  "'s socket_ops \<Rightarrow> ('h, 'e) handler_ops \<Rightarrow> nat \<Rightarrow> buffer_span \<Rightarrow>
   ('s, 'h) session \<Rightarrow> ('s, 'h, nat) state_outcome" where
  "write_response_body_ready ops hops bytes_to_write buffer ses =
     finish_transfer
       (transfer_data (read_content hops) (write_connection ops) (ec_is_error_indicator hops)
          is_error_indicator (ses, ()) buffer bytes_to_write)
       (\<lambda>(ses1, _) b n ex. Inr (n, b, ses1, map_response_body_exit hops ex))"

end
