(* ===== verification/Request_Processor.thy ===== *)
theory Request_Processor
  imports Session_States
begin

text \<open>
  \<^verbatim>\<open>src/lib/http_request_state_transitions.hpp\<close>: which state follows which, the
  direction of each and how a state object is made.
  \<^verbatim>\<open>src/lib/http_request_processor.hpp\<close>: the processor of one connection, its loop
  over the states (\<open>socket_is_ready\<close>) and its reaction to inactivity
  (\<open>socket_is_idle\<close>).
\<close>

section \<open>State transitions\<close>

datatype request_state =
    Read_request_header read_request_header
  | Read_request_body nat
  | Write_response_header response_header_serializer
  | Write_response_body nat
  | Wait_for_data

datatype io_direction = Io_input | Io_output

fun select_io_direction :: "request_state \<Rightarrow> io_direction" where
  "select_io_direction (Read_request_header _) = Io_input"
| "select_io_direction (Read_request_body _) = Io_input"
| "select_io_direction (Write_response_header _) = Io_output"
| "select_io_direction (Write_response_body _) = Io_output"
| "select_io_direction Wait_for_data = Io_input"

definition select_buffer_index :: "request_state \<Rightarrow> nat" where
  "select_buffer_index st = (if select_io_direction st = Io_input then 0 else 1)"

definition make_write_response_body :: "response_info \<Rightarrow> request_state faulty" where
  "make_write_response_body response =
     and_then (assert_that
         (\<not> field_map_contains ''Transfer-encoding'' (resp_fields (rsp_header response)))
         ''!response.header.fields.contains(Transfer-encoding)'') (\<lambda>_.
       (case field_map_find ''Content-Length'' (resp_fields (rsp_header response)) of
          None \<Rightarrow> Inr (Write_response_body 0)
        | Some v \<Rightarrow>
            (case to_number 64 v of
               None \<Rightarrow> Inl (Assertion_failed ''length_conv.has_value()'')
             | Some len \<Rightarrow> Inr (Write_response_body len))))"

text \<open>
  \<open>make_state_handler\<close>: the next state and its direction. The next state of each is
  \<open>next_request_state\<close>'s; making it is the specialization of \<open>make_state_handler\<close>.
\<close>

definition make_state_handler ::
  "request_state \<Rightarrow> request_info \<Rightarrow> response_info \<Rightarrow> (request_state \<times> io_direction) faulty" where
  "make_state_handler initial_state request response =
     (case initial_state of
        Read_request_header _ \<Rightarrow> Inr (Read_request_body (ri_content_length request), Io_input)
      | Read_request_body _ \<Rightarrow>
          Inr (Write_response_header (response_header_serializer_init (rsp_header response)), Io_output)
      | Write_response_header _ \<Rightarrow>
          and_then (make_write_response_body response) (\<lambda>st. Inr (st, Io_output))
      | Write_response_body _ \<Rightarrow> Inr (Wait_for_data, Io_input)
      | Wait_for_data \<Rightarrow>
          Inr (Read_request_header (read_request_header_init max_header_size_default), Io_input))"

section \<open>The processor\<close>

datatype request_processor_status =
    Proc_completed
  | Proc_more_data_needed
  | Proc_application_error
  | Proc_io_error

record process_request_result =
  pr_status :: request_processor_status
  pr_io_dir :: io_direction

definition is_session_terminated :: "request_processor_status \<Rightarrow> bool" where
  "is_session_terminated st \<longleftrightarrow>
     st = Proc_io_error \<or> st = Proc_application_error \<or> st = Proc_completed"

text \<open>\<open>m_buff_spans\<close> has two windows, one over each buffer: receive at 0, send at 1.\<close>

record ('s, 'h) request_processor =
  m_session :: "('s, 'h) session"
  m_state :: "request_state \<times> io_direction"
  m_recv_span :: buffer_span
  m_send_span :: buffer_span

definition processor_buffer_size :: nat where
  "processor_buffer_size = 65536"

definition request_processor_init :: "'s \<Rightarrow> 'h \<Rightarrow> ('s, 'h) request_processor" where
  "request_processor_init conn req_handler =
     \<lparr>m_session = \<lparr>connection = conn, request_handler = req_handler,
        s_request_info = request_info_default, s_response_info = response_info_default\<rparr>,
      m_state = (Read_request_header (read_request_header_init max_header_size_default), Io_input),
      m_recv_span = buffer_span_init (replicate processor_buffer_size NUL),
      m_send_span = buffer_span_init (replicate processor_buffer_size NUL)\<rparr>"

text \<open>
  \<open>std::visit\<close> of the current state: its \<open>socket_is_ready\<close> on the buffer of its
  direction. The state object, the buffer and the session are updated in place.
\<close>

definition processor_buffer :: "('s, 'h) request_processor \<Rightarrow> buffer_span" where
  "processor_buffer proc =
     (if select_buffer_index (fst (m_state proc)) = 0 then m_recv_span proc else m_send_span proc)"

definition store_visit ::
  "('s, 'h) request_processor \<Rightarrow> request_state \<Rightarrow> buffer_span \<Rightarrow> ('s, 'h) session \<Rightarrow>
   ('s, 'h) request_processor" where
  "store_visit proc st b ses =
     (let proc1 = proc\<lparr>m_session := ses, m_state := (st, snd (m_state proc))\<rparr> in
      if select_buffer_index (fst (m_state proc)) = 0
      then proc1\<lparr>m_recv_span := b\<rparr> else proc1\<lparr>m_send_span := b\<rparr>)"

definition visit_result ::
  "('s, 'h) request_processor \<Rightarrow> ('st \<Rightarrow> request_state) \<Rightarrow> ('s, 'h, 'st) state_outcome \<Rightarrow>
   (('s, 'h) request_processor \<times> session_state_response) faulty option" where
  "visit_result proc inject res =
     (case res of
        None \<Rightarrow> None
      | Some (Inl e) \<Rightarrow> Some (Inl e)
      | Some (Inr (st, b, ses, resp)) \<Rightarrow> Some (Inr (store_visit proc (inject st) b ses, resp)))"

definition visit_state ::
  "'s socket_ops \<Rightarrow> ('h, 'e) handler_ops \<Rightarrow> ('s, 'h) request_processor \<Rightarrow>
   (('s, 'h) request_processor \<times> session_state_response) faulty option" where
  "visit_state ops hops proc =
     (let b = processor_buffer proc; ses = m_session proc in
      case fst (m_state proc) of
        Read_request_header st \<Rightarrow>
          visit_result proc Read_request_header (read_request_header_ready ops hops st b ses)
      | Read_request_body n \<Rightarrow>
          visit_result proc Read_request_body (read_request_body_ready ops hops n b ses)
      | Write_response_header ser \<Rightarrow>
          visit_result proc Write_response_header (write_response_header_ready ops ser b ses)
      | Write_response_body n \<Rightarrow>
          visit_result proc Write_response_body (write_response_body_ready ops hops n b ses)
      | Wait_for_data \<Rightarrow>
          visit_result proc (\<lambda>_. Wait_for_data)
            (Some (and_then (wait_for_data_ready ops b ses) (\<lambda>(b1, ses1, resp).
               Inr ((), b1, ses1, resp)))))"

text \<open>
  Answering with an error: reading stops, the handler makes the response to the result
  it is given, and the next state writes that response's header.
\<close>

definition respond_with_error ::
  "'s socket_ops \<Rightarrow> ('h, 'e) handler_ops \<Rightarrow> finalize_state_result \<Rightarrow>
   ('s, 'h) request_processor \<Rightarrow> ('s, 'h) request_processor faulty" where
  "respond_with_error ops hops state_result proc =
     (let ses = (m_session proc)\<lparr>connection := sock_stop_reading ops (connection (m_session proc)),
                                s_response_info := response_info_default\<rparr>;
          saved_http_status = http_status state_result in
      and_then (finalize_error hops (request_handler ses)
          (resp_fields (rsp_header (s_response_info ses))) state_result) (\<lambda>(h', flds).
        let hdr = \<lparr>resp_status_line = \<lparr>sl_http_version = mk_version 1 1,
                     sl_status_code = saved_http_status,
                     sl_reason_phrase = status_to_string saved_http_status\<rparr>,
                   resp_fields = flds\<rparr> in
        Inr (proc\<lparr>m_session := ses\<lparr>request_handler := h', s_response_info := \<lparr>rsp_header = hdr\<rparr>\<rparr>,
                  m_state := (Write_response_header (response_header_serializer_init hdr),
                              Io_output)\<rparr>)))"

text \<open>
  One turn of the loop after the visit: either it goes on with a new state, or it returns.
\<close>

definition after_visit ::
  "'s socket_ops \<Rightarrow> ('h, 'e) handler_ops \<Rightarrow> ('s, 'h) request_processor \<Rightarrow>
   session_state_response \<Rightarrow>
   (('s, 'h) request_processor \<times> process_request_result option) faulty" where
  "after_visit ops hops proc res =
     (let return = \<lambda>st. Inr (proc, Some \<lparr>pr_status = st, pr_io_dir = snd (m_state proc)\<rparr>) in
      case st_status res of
        State_completed \<Rightarrow>
          and_then (make_state_handler (fst (m_state proc)) (s_request_info (m_session proc))
              (s_response_info (m_session proc))) (\<lambda>st. Inr (proc\<lparr>m_state := st\<rparr>, None))
      | Connection_closed \<Rightarrow> return Proc_completed
      | State_more_data_needed \<Rightarrow> return Proc_more_data_needed
      | Client_error_detected \<Rightarrow>
          and_then (respond_with_error ops hops (st_result res) proc) (\<lambda>proc1. Inr (proc1, None))
      | Write_response_failed \<Rightarrow> return Proc_application_error
      | State_io_error \<Rightarrow> return Proc_io_error)"

definition processor_turn ::
  "'s socket_ops \<Rightarrow> ('h, 'e) handler_ops \<Rightarrow> ('s, 'h) request_processor \<Rightarrow>
   (('s, 'h) request_processor \<times> process_request_result option) faulty option" where
  "processor_turn ops hops proc =
     (case visit_state ops hops proc of
        None \<Rightarrow> None
      | Some (Inl e) \<Rightarrow> Some (Inl e)
      | Some (Inr (proc1, res)) \<Rightarrow> Some (after_visit ops hops proc1 res))"

partial_function (option) socket_is_ready ::
  "'s socket_ops \<Rightarrow> ('h, 'e) handler_ops \<Rightarrow> ('s, 'h) request_processor \<Rightarrow>
   (('s, 'h) request_processor \<times> process_request_result) faulty option" where
  "socket_is_ready ops hops proc =
     (case processor_turn ops hops proc of
        None \<Rightarrow> None
      | Some (Inl e) \<Rightarrow> Some (Inl e)
      | Some (Inr (proc1, None)) \<Rightarrow> socket_is_ready ops hops proc1
      | Some (Inr (proc1, Some res)) \<Rightarrow> Some (Inr (proc1, res)))"

definition socket_is_idle ::
  "'s socket_ops \<Rightarrow> ('h, 'e) handler_ops \<Rightarrow> ('s, 'h) request_processor \<Rightarrow>
   (('s, 'h) request_processor \<times> process_request_result) faulty" where
  "socket_is_idle ops hops proc =
     (case select_io_direction (fst (m_state proc)) of
        Io_input \<Rightarrow>
          and_then (respond_with_error ops hops
              \<lparr>http_status = Request_timeout,
               error_message = make_unique_cstr (status_to_string Request_timeout)\<rparr> proc) (\<lambda>proc1.
            Inr (proc1, \<lparr>pr_status = Proc_more_data_needed, pr_io_dir = snd (m_state proc1)\<rparr>))
      | Io_output \<Rightarrow>
          Inr (proc, \<lparr>pr_status = Proc_completed, pr_io_dir = snd (m_state proc)\<rparr>))"

end
