(* ===== verification/State_Contracts.thy ===== *)
theory State_Contracts
  imports Session_States
begin

text \<open>
  What the five states of \<^theory_text>\<open>Session_States\<close> promise for any socket and any request
  handler that meet their contracts (the locale \<open>session_io\<close>). Each of the four states that run
  \<open>transfer_data\<close> is shown to give it a reader and a writer that meet
  \<open>transfer_stream\<close>; what the loop promises then becomes what the state promises: which
  bytes it took, where they went, and what it answers.
\<close>

section \<open>Content through a handler\<close>

text \<open>
  \<open>content_fed hops h s h' stop\<close>: calls of \<open>process_request_content\<close> took the handler from
  \<open>h\<close> to \<open>h'\<close> and took the bytes \<open>s\<close> in all; with \<open>Some ec\<close> the last of them refused
  to go on. \<open>content_drawn hops h s h'\<close>: calls of \<open>read_response_content\<close> returned \<open>s\<close>
  in all.
\<close>

inductive content_fed ::
  "('h, 'e) handler_ops \<Rightarrow> 'h \<Rightarrow> string \<Rightarrow> 'h \<Rightarrow> 'e option \<Rightarrow> bool" for hops where
  fed_none: "content_fed hops h [] h None"
| fed_more: "process_request_content hops h bytes n = Inr (h1, k, ec) \<Longrightarrow> bytes \<noteq> [] \<Longrightarrow>
    \<not> ec_is_error_indicator hops ec \<Longrightarrow> k \<noteq> 0 \<Longrightarrow> content_fed hops h1 s h2 stop \<Longrightarrow>
    content_fed hops h (take k bytes @ s) h2 stop"
| fed_stop: "process_request_content hops h bytes n = Inr (h1, k, ec) \<Longrightarrow> bytes \<noteq> [] \<Longrightarrow>
    ec_is_error_indicator hops ec \<or> k = 0 \<Longrightarrow> content_fed hops h (take k bytes) h1 (Some ec)"

inductive content_drawn ::
  "('h, 'e) handler_ops \<Rightarrow> 'h \<Rightarrow> string \<Rightarrow> 'h \<Rightarrow> bool" for hops where
  drawn_none: "content_drawn hops h [] h"
| drawn_more: "read_response_content hops h n = Inr (h1, data, ec) \<Longrightarrow>
    content_drawn hops h1 rest h2 \<Longrightarrow> content_drawn hops h (data @ rest) h2"

section \<open>A socket and a handler\<close>

text \<open>
  How the socket comes out of a call that moved no further: a read that returned nothing,
  and a write that reported an error or took nothing, with the code they returned.
\<close>

definition read_refused :: "'s socket_ops \<Rightarrow> 's \<Rightarrow> operation_result \<Rightarrow> bool" where
  "read_refused ops s' res \<longleftrightarrow> (\<exists>s n. 0 < n \<and> sock_read ops s n = (s', [], res))"

definition write_refused :: "'s socket_ops \<Rightarrow> 's \<Rightarrow> operation_result \<Rightarrow> bool" where
  "write_refused ops s' res \<longleftrightarrow>
     (\<exists>s bytes k. bytes \<noteq> [] \<and> sock_write ops s bytes = (s', k, res)
        \<and> (is_error_indicator res \<or> k = 0))"

definition same_request :: "('s, 'h) session \<Rightarrow> ('s, 'h) session \<Rightarrow> bool" where
  "same_request ses ses' \<longleftrightarrow> s_request_info ses' = s_request_info ses
     \<and> s_response_info ses' = s_response_info ses"

lemma session_connection_eq:
  assumes "same_request ses ses'" and "request_handler ses' = request_handler ses"
  shows "ses' = ses\<lparr>connection := connection ses'\<rparr>"
  using assms by (cases ses; cases ses') (simp add: same_request_def)

locale session_io =
  socket_contract ops incoming sent read_stopped +
  handler_contract hops h_inv h_responding
  for ops :: "'s socket_ops"
    and incoming :: "'s \<Rightarrow> string"
    and sent :: "'s \<Rightarrow> string"
    and read_stopped :: "'s \<Rightarrow> bool"
    and hops :: "('h, 'e) handler_ops"
    and h_inv :: "'h \<Rightarrow> bool"
    and h_responding :: "'h \<Rightarrow> bool"
begin

lemma content_fed_inv: "content_fed hops h s h' stop \<Longrightarrow> h_inv h \<Longrightarrow> h_inv h'"
proof (induction rule: content_fed.induct)
  case (fed_more h bytes n h1 k ec s h2 stop)
  then show ?case using h_content [of h bytes n] by simp
next
  case (fed_stop h bytes n h1 k ec)
  then show ?case using h_content [of h bytes n] by simp
qed

lemma content_drawn_responding: "content_drawn hops h s h' \<Longrightarrow> h_responding h \<Longrightarrow> h_responding h'"
proof (induction rule: content_drawn.induct)
  case (drawn_more h n h1 data ec rest h2)
  then show ?case using h_read [of h n] by simp
qed

text \<open>Reads and writes of the connection leave the rest of the session as it is.\<close>

definition connection_read :: "('s, 'h) session \<Rightarrow> ('s, 'h) session \<Rightarrow> bool" where
  "connection_read ses ses' \<longleftrightarrow> same_request ses ses' \<and> request_handler ses' = request_handler ses
     \<and> sent (connection ses') = sent (connection ses)
     \<and> (read_stopped (connection ses') \<longleftrightarrow> read_stopped (connection ses))"

definition connection_written :: "('s, 'h) session \<Rightarrow> string \<Rightarrow> ('s, 'h) session \<Rightarrow> bool" where
  "connection_written ses s ses' \<longleftrightarrow> same_request ses ses' \<and> request_handler ses' = request_handler ses
     \<and> sent (connection ses') = sent (connection ses) @ s
     \<and> incoming (connection ses') = incoming (connection ses)
     \<and> (read_stopped (connection ses') \<longleftrightarrow> read_stopped (connection ses))"

lemma connection_read_refl [simp]: "connection_read ses ses"
  by (simp add: connection_read_def same_request_def)

lemma connection_read_trans:
  assumes "connection_read a b" and "connection_read b c"
  shows "connection_read a c"
  using assms by (simp add: connection_read_def same_request_def)

lemma connection_written_refl [simp]: "connection_written ses [] ses"
  by (simp add: connection_written_def same_request_def)

lemma connection_written_trans:
  assumes "connection_written a s b" and "connection_written b t c"
  shows "connection_written a (s @ t) c"
  using assms by (simp add: connection_written_def same_request_def)

lemma read_connection_step:
  assumes "read_connection ops c n = Inr (c', data, ec)"
  shows "snd c' = snd c" and "length data \<le> n" and "connection_read (fst c) (fst c')"
    and "incoming (connection (fst c)) = data @ incoming (connection (fst c'))"
    and "data \<noteq> [] \<Longrightarrow> ec = Op_completed"
    and "data = [] \<Longrightarrow> 0 < n \<Longrightarrow> read_refused ops (connection (fst c')) ec"
proof -
  obtain s' where r: "sock_read ops (connection (fst c)) n = (s', data, ec)"
    and c': "c' = ((fst c)\<lparr>connection := s'\<rparr>, snd c)"
    using assms by (auto simp: read_connection_def split: prod.splits)
  note src_read [OF r] read_frame [OF r]
  then show "snd c' = snd c" and "length data \<le> n" and "connection_read (fst c) (fst c')"
    and "incoming (connection (fst c)) = data @ incoming (connection (fst c'))"
    and "data \<noteq> [] \<Longrightarrow> ec = Op_completed"
    by (simp_all add: c' connection_read_def same_request_def)
  show "data = [] \<Longrightarrow> 0 < n \<Longrightarrow> read_refused ops (connection (fst c')) ec"
    using r by (auto simp: read_refused_def c')
qed

lemma read_refused_stopped: "read_refused ops s res \<Longrightarrow> read_stopped s \<Longrightarrow> res = Op_completed"
  unfolding read_refused_def using read_when_stopped read_frame by blast

lemma read_refused_eof: "read_refused ops s Op_completed \<Longrightarrow> incoming s = []"
  unfolding read_refused_def using src_eof src_read by fastforce

lemma connection_no_fault [simp]:
  "read_connection ops c n \<noteq> Inl e" "write_connection ops c bytes n \<noteq> Inl e"
  by (simp_all add: read_connection_def write_connection_def split: prod.splits)

lemma read_connection_total: "\<exists>c' data ec. read_connection ops c n = Inr (c', data, ec)"
  by (auto simp: read_connection_def split: prod.splits)

lemma write_connection_step:
  assumes "write_connection ops c bytes n = Inr (c', k, ec)"
  shows "snd c' = snd c" and "k \<le> length bytes" and "connection_written (fst c) (take k bytes) (fst c')"
    and "bytes \<noteq> [] \<Longrightarrow> is_error_indicator ec \<or> k = 0 \<Longrightarrow> write_refused ops (connection (fst c')) ec"
proof -
  obtain s' where w: "sock_write ops (connection (fst c)) bytes = (s', k, ec)"
    and c': "c' = ((fst c)\<lparr>connection := s'\<rparr>, snd c)"
    using assms by (auto simp: write_connection_def split: prod.splits)
  note snk_write [OF w] write_frame [OF w]
  then show "snd c' = snd c" and "k \<le> length bytes" and "connection_written (fst c) (take k bytes) (fst c')"
    by (simp_all add: c' connection_written_def same_request_def)
  show "bytes \<noteq> [] \<Longrightarrow> is_error_indicator ec \<or> k = 0 \<Longrightarrow> write_refused ops (connection (fst c')) ec"
    using w by (auto simp: write_refused_def c')
qed

lemma write_connection_total: "\<exists>c' k ec. write_connection ops c bytes n = Inr (c', k, ec)"
  by (auto simp: write_connection_def split: prod.splits)

end

section \<open>Reading the request header\<close>

lemma parse_consumed:
  "parse p s = Inr (p', rest, ec) \<Longrightarrow>
   length rest \<le> length s \<and> parse p (take (length s - length rest) s) = Inr (p', [], ec)
   \<and> (s \<noteq> [] \<longrightarrow> length rest < length s)"
proof (induction p s rule: parse.induct)
  case (2 p ch input)
  obtain p1 r where step: "parse_step p ch = Inr (p1, r)"
    using 2(2) by (cases "parse_step p ch") auto
  show ?case
  proof (cases r)
    case None
    with 2(1) [OF step] 2(2) show ?thesis
      by (cases "input = []") (auto simp: step Suc_diff_le le_SucI less_SucI)
  next
    case (Some e)
    with 2(2) show ?thesis by (auto simp: step Suc_diff_le)
  qed
qed auto

definition header_absorbs ::
  "request_header_parser \<Rightarrow> string \<Rightarrow> request_header_parser \<Rightarrow> req_header_parser_error_code option \<Rightarrow> bool" where
  "header_absorbs p s p' stop \<longleftrightarrow>
     parse p s = Inr (p', [], case stop of None \<Rightarrow> More_data_needed | Some ec \<Rightarrow> ec)"

context session_io
begin

definition header_inv :: "('s, 'h) session \<times> request_header_parser \<Rightarrow> bool" where
  "header_inv c \<longleftrightarrow> parser_inv (snd c)"

fun header_ended ::
  "(operation_result, req_header_parser_error_code) transfer_exit \<Rightarrow>
   ('s, 'h) session \<times> request_header_parser \<Rightarrow> bool" where
  "header_ended (Write_exit ec) c \<longleftrightarrow> ec \<noteq> More_data_needed
     \<and> (ec = Completed \<longrightarrow> wf_request_header (m_req_header (snd c)))"
| "header_ended _ c \<longleftrightarrow> parser_inv (snd c)"

end

sublocale session_io \<subseteq> header: transfer_stream "read_connection ops" parse_content
  is_error_indicator parser_error_code_checker "\<lambda>_. False" header_inv header_ended
  "\<lambda>c got c'. incoming (connection (fst c)) = got @ incoming (connection (fst c'))
     \<and> connection_read (fst c) (fst c')"
  "\<lambda>c s c' stop. header_absorbs (snd c) s (snd c') stop"
proof unfold_locales
  fix c :: "('s, 'h) session \<times> request_header_parser" and n
  assume inv: "header_inv c"
  obtain c' data ec where r: "read_connection ops c n = Inr (c', data, ec)"
    using read_connection_total by blast
  from read_connection_step [OF r] inv r show "case read_connection ops c n of Inl e \<Rightarrow> False
     | Inr (c', data, er) \<Rightarrow> length data \<le> n
         \<and> (if is_error_indicator er \<or> data = [] then header_ended (Read_exit er) c' else header_inv c')"
    by (simp add: header_inv_def)
next
  fix c :: "('s, 'h) session \<times> request_header_parser" and s :: string and n :: nat
  assume "header_inv c" and "s \<noteq> []"
  moreover obtain p' rest ec where "parse (snd c) s = Inr (p', rest, ec)"
      "ec = More_data_needed \<longrightarrow> parser_inv p'" "ec = Completed \<longrightarrow> wf_request_header (m_req_header p')"
    using parse_inv_total [of "snd c" s] \<open>header_inv c\<close> by (auto simp: header_inv_def)
  ultimately show "case parse_content c s n of Inl e \<Rightarrow> False
     | Inr (c', k, ew) \<Rightarrow> k \<le> length s
         \<and> (if parser_error_code_checker ew \<or> k = 0 then header_ended (Write_exit ew) c' else header_inv c')"
    using parse_consumed [of "snd c" s p' rest ec]
    by (simp add: parse_content_def header_inv_def parser_error_code_checker_def)
next
  fix c :: "('s, 'h) session \<times> request_header_parser" and s n c' k ew
  assume w: "parse_content c s n = Inr (c', k, ew)" and s: "s \<noteq> []"
  then obtain p' rest where p: "parse (snd c) s = Inr (p', rest, ew)" "c' = (fst c, p')"
      "k = length s - length rest"
    by (auto simp: parse_content_def split: sum.splits prod.splits)
  with parse_consumed [OF p(1)] s have k: "parse (snd c) (take k s) = Inr (p', [], ew)" "k \<noteq> 0"
    by auto
  show "header_absorbs (snd c) (take k s) (snd c') (Some ew)"
    using k p by (simp add: header_absorbs_def)
  fix t c'' stop
  assume "\<not> parser_error_code_checker ew" and "header_absorbs (snd c') t (snd c'') stop"
  then show "header_absorbs (snd c) (take k s @ t) (snd c'') stop"
    using k p by (simp add: header_absorbs_def parser_error_code_checker_def parse_append)
next
  fix c c' c'' :: "('s, 'h) session \<times> request_header_parser" and n data got er s stop
  assume r: "read_connection ops c n = Inr (c', data, er)"
  note step = read_connection_step [OF r]
  show "header_absorbs (snd c') s (snd c'') stop \<Longrightarrow> header_absorbs (snd c) s (snd c'') stop"
    by (simp add: step)
  assume "incoming (connection (fst c')) = got @ incoming (connection (fst c''))
    \<and> connection_read (fst c') (fst c'')"
  then show "incoming (connection (fst c)) = (data @ got) @ incoming (connection (fst c''))
    \<and> connection_read (fst c) (fst c'')"
    using step by (auto intro: connection_read_trans)
qed (auto simp: header_inv_def header_absorbs_def parse_content_def split: sum.splits prod.splits)

text \<open>
  What is answered to a complete header, stated on its own: the header is noted; a version other
  than 1.1 and a content length that is not a number are errors of the client, with their
  messages, and the handler is not asked; otherwise the handler is given the header, the
  length announced is noted (0 when none is), and its result is the answer, as an error of the
  client when its status is one.
\<close>

inductive header_answered ::
  "('h, 'e) handler_ops \<Rightarrow> ('s, 'h) session \<Rightarrow> request_header \<Rightarrow>
   ('s, 'h) session \<Rightarrow> session_state_response \<Rightarrow> bool" for hops ses hdr where
  other_version: "rl_http_version (req_line hdr) \<noteq> mk_version 1 1 \<Longrightarrow>
    header_answered hops ses hdr (ses\<lparr>s_request_info := (s_request_info ses)\<lparr>ri_header := hdr\<rparr>\<rparr>)
      \<lparr>st_status = Client_error_detected, st_result = \<lparr>http_status = Http_version_not_supported,
         error_message = Some ''This web server only supports HTTP version 1.1''\<rparr>\<rparr>"
| unreadable_length: "rl_http_version (req_line hdr) = mk_version 1 1 \<Longrightarrow>
    field_map_find ''Content-Length'' (req_fields hdr) = Some digits \<Longrightarrow> to_number 64 digits = None \<Longrightarrow>
    header_answered hops ses hdr (ses\<lparr>s_request_info := (s_request_info ses)\<lparr>ri_header := hdr\<rparr>\<rparr>)
      \<lparr>st_status = Client_error_detected, st_result = \<lparr>http_status = Bad_request,
         error_message = Some ''Bad content-length''\<rparr>\<rparr>"
| handler_asked: "rl_http_version (req_line hdr) = mk_version 1 1 \<Longrightarrow>
    (case field_map_find ''Content-Length'' (req_fields hdr) of
       None \<Rightarrow> n = 0 | Some digits \<Rightarrow> to_number 64 digits = Some n) \<Longrightarrow>
    finalize_header hops (request_handler ses) hdr = Inr (h, res) \<Longrightarrow>
    header_answered hops ses hdr
      (ses\<lparr>request_handler := h, s_request_info := \<lparr>ri_header = hdr, ri_content_length = n\<rparr>\<rparr>)
      \<lparr>st_status = (if is_error (http_status res) then Client_error_detected else State_completed),
       st_result = res\<rparr>"

lemma request_info_noted:
  "(info :: request_info)\<lparr>ri_header := hdr, ri_content_length := n\<rparr>
     = \<lparr>ri_header = hdr, ri_content_length = n\<rparr>"
  by (cases info) simp

lemma header_answered_iff:
  "header_answered hops ses hdr ses' resp \<longleftrightarrow> header_completed hops ses hdr = Inr (ses', resp)"
proof
  assume "header_answered hops ses hdr ses' resp"
  then show "header_completed hops ses hdr = Inr (ses', resp)"
    by cases
       (auto simp: header_completed_def get_content_length_request_def get_content_length_def Let_def
          and_then_def state_response_def request_info_noted split: option.splits)
next
  let ?find = "field_map_find ''Content-Length'' (req_fields hdr)"
  assume c: "header_completed hops ses hdr = Inr (ses', resp)"
  consider "rl_http_version (req_line hdr) \<noteq> mk_version 1 1"
    | digits where "rl_http_version (req_line hdr) = mk_version 1 1" "?find = Some digits"
        "to_number 64 digits = None"
    | n where "rl_http_version (req_line hdr) = mk_version 1 1"
        "case ?find of None \<Rightarrow> n = 0 | Some digits \<Rightarrow> to_number 64 digits = Some n"
    by (cases ?find) auto
  then show "header_answered hops ses hdr ses' resp"
  proof cases
    case 1
    with c other_version [OF this, of hops ses] show ?thesis
      by (simp add: header_completed_def Let_def state_response_def)
  next
    case (2 digits)
    with c unreadable_length [OF 2, of hops ses] show ?thesis
      by (simp add: header_completed_def get_content_length_request_def get_content_length_def
          Let_def state_response_def)
  next
    case (3 n)
    have len: "get_content_length_request hdr = Some n"
      using 3(2) by (simp add: get_content_length_request_def get_content_length_def split: option.splits)
    with c 3(1) obtain h res where f: "finalize_header hops (request_handler ses) hdr = Inr (h, res)"
      by (auto simp: header_completed_def Let_def and_then_def split: sum.splits)
    from handler_asked [OF 3 f] c show ?thesis
      by (simp add: header_completed_def Let_def len 3(1) f request_info_noted)
  qed
qed

text \<open>
  What reading the header amounts to. The bytes taken from the window and the connection
  went through the parser in order, and no more of them than the budget allows; nothing
  was sent. The parser's verdict decides the answer: a complete header goes to the
  handler, an error is a bad request, and with more data needed the answer says whether
  the budget is used up, the peer has closed its end, or there is nothing to read now.
\<close>

definition header_read_spec ::
  "'s socket_ops \<Rightarrow> ('s \<Rightarrow> string) \<Rightarrow> ('s \<Rightarrow> string) \<Rightarrow> ('s \<Rightarrow> bool) \<Rightarrow> ('h, 'e) handler_ops \<Rightarrow>
   read_request_header \<Rightarrow> buffer_span \<Rightarrow> ('s, 'h) session \<Rightarrow>
   read_request_header \<Rightarrow> buffer_span \<Rightarrow> ('s, 'h) session \<Rightarrow> session_state_response \<Rightarrow> bool" where
  "header_read_spec ops incoming sent read_stopped hops st b ses st' b' ses' resp \<longleftrightarrow>
     sent (connection ses') = sent (connection ses)
     \<and> (read_stopped (connection ses') \<longleftrightarrow> read_stopped (connection ses))
     \<and> (\<exists>moved got ec.
          span_to_read b @ got = moved @ span_to_read b'
          \<and> incoming (connection ses) = got @ incoming (connection ses')
          \<and> parse (m_req_header_parser st) moved = Inr (m_req_header_parser st', [], ec)
          \<and> length moved \<le> m_bytes_to_read st
          \<and> m_bytes_to_read st' = m_bytes_to_read st - length moved
          \<and> (if ec = Completed then
               header_answered hops (ses\<lparr>connection := connection ses'\<rparr>)
                 (take_result (m_req_header_parser st')) ses' resp
             else ses' = ses\<lparr>connection := connection ses'\<rparr>
               \<and> (if ec \<noteq> More_data_needed then
                    resp = state_response Client_error_detected Bad_request
                      (make_unique_cstr (req_header_parser_error_code_to_string ec))
                  else if m_bytes_to_read st' = 0 then
                    resp = state_response Client_error_detected Request_entity_too_large
                      (make_unique_cstr ''Header truncated'')
                  else span_to_read b' = []
                    \<and> (\<exists>res. resp = make_read_response res ''Header truncated''
                        \<and> read_refused ops (connection ses') res))))"

text \<open>
  Where an exception comes from: the handler, asked about a complete header within the budget
  that has version 1.1 and no unreadable content length.
\<close>

definition header_handler_throws :: "('h, 'e) handler_ops \<Rightarrow> 'h \<Rightarrow> request_header \<Rightarrow> fault \<Rightarrow> bool" where
  "header_handler_throws hops h hdr e \<longleftrightarrow>
     rl_http_version (req_line hdr) = mk_version 1 1
     \<and> (case field_map_find ''Content-Length'' (req_fields hdr) of
          None \<Rightarrow> True | Some digits \<Rightarrow> to_number 64 digits \<noteq> None)
     \<and> finalize_header hops h hdr = Inl e"

definition header_read_fault ::
  "('s \<Rightarrow> string) \<Rightarrow> ('h, 'e) handler_ops \<Rightarrow>
   read_request_header \<Rightarrow> buffer_span \<Rightarrow> ('s, 'h) session \<Rightarrow> fault \<Rightarrow> bool" where
  "header_read_fault incoming hops st b ses e \<longleftrightarrow>
     (\<exists>moved rest p'. span_to_read b @ incoming (connection ses) = moved @ rest
        \<and> parse (m_req_header_parser st) moved = Inr (p', [], Completed)
        \<and> length moved \<le> m_bytes_to_read st
        \<and> header_handler_throws hops (request_handler ses) (take_result p') e)"

lemma header_completed_fault:
  "header_completed hops ses hdr = Inl e \<longleftrightarrow> header_handler_throws hops (request_handler ses) hdr e"
  by (auto simp: header_completed_def header_handler_throws_def get_content_length_request_def
      get_content_length_def and_then_def Let_def split: option.splits sum.splits)

lemmas header_read_spec_eq = header_read_spec_def [unfolded header_answered_iff]

lemma header_read_specI:
  assumes "sent (connection ses') = sent (connection ses)"
    and "read_stopped (connection ses') \<longleftrightarrow> read_stopped (connection ses)"
    and "span_to_read b @ got = moved @ span_to_read b'"
    and "incoming (connection ses) = got @ incoming (connection ses')"
    and "parse (m_req_header_parser st) moved = Inr (p', [], ec)"
    and "length moved \<le> m_bytes_to_read st" and "n' = m_bytes_to_read st - length moved"
    and "if ec = Completed then
           header_completed hops (ses\<lparr>connection := connection ses'\<rparr>) (take_result p') = Inr (ses', resp)
         else ses' = ses\<lparr>connection := connection ses'\<rparr>
           \<and> (if ec \<noteq> More_data_needed then
                resp = state_response Client_error_detected Bad_request
                  (make_unique_cstr (req_header_parser_error_code_to_string ec))
              else if n' = 0 then
                resp = state_response Client_error_detected Request_entity_too_large
                  (make_unique_cstr ''Header truncated'')
              else span_to_read b' = []
                \<and> (\<exists>res. resp = make_read_response res ''Header truncated''
                    \<and> read_refused ops (connection ses') res))"
  shows "header_read_spec ops incoming sent read_stopped hops st b ses
    \<lparr>m_req_header_parser = p', m_bytes_to_read = n'\<rparr> b' ses' resp"
  unfolding header_read_spec_eq request_header_parser.simps read_request_header.simps
  by (rule conjI [OF assms(1)], rule conjI [OF assms(2)],
      rule exI [of _ moved], rule exI [of _ got], rule exI [of _ ec], intro conjI; fact assms)

context session_io
begin

lemma header_completed_ok:
  assumes "h_inv (request_handler ses)" and "wf_request_header hdr"
  shows "case header_completed hops ses hdr of Inl e \<Rightarrow> thrown e
     | Inr (ses', resp) \<Rightarrow> h_inv (request_handler ses') \<and> connection ses' = connection ses
         \<and> (st_status resp = State_completed
            \<or> st_status resp = Client_error_detected \<and> error_message (st_result resp) \<noteq> None)"
  using h_header [OF assms] assms(1)
  by (auto simp: header_completed_def Let_def and_then_def make_unique_cstr_def
      split: option.splits sum.splits prod.splits)

text \<open>The answer to each way the transfer can end.\<close>

lemma map_header_exit_answer:
  assumes "h_inv (request_handler ses)" and "header_ended ex (ses, p)"
    and ec: "ec = (case ex of Write_exit ec \<Rightarrow> ec | _ \<Rightarrow> More_data_needed)"
  shows "case map_header_exit hops ses p ex of Inl e \<Rightarrow> thrown e
     | Inr (ses', resp) \<Rightarrow> h_inv (request_handler ses') \<and> connection ses' = connection ses
         \<and> (if ec = Completed then header_completed hops ses (take_result p) = Inr (ses', resp)
            else ses' = ses
              \<and> (if ec \<noteq> More_data_needed then
                   resp = state_response Client_error_detected Bad_request
                     (make_unique_cstr (req_header_parser_error_code_to_string ec))
                 else if ex = All_transferred then
                   resp = state_response Client_error_detected Request_entity_too_large
                     (make_unique_cstr ''Header truncated'')
                 else \<exists>res. ex = Read_exit res \<and> resp = make_read_response res ''Header truncated''))"
proof (cases ex)
  case (Write_exit e)
  show ?thesis
  proof (cases "e = Completed")
    case True
    with assms header_completed_ok [of ses "take_result p"] Write_exit show ?thesis
      by (auto simp: map_header_exit_def take_result_def split: sum.splits)
  next
    case False
    with assms Write_exit show ?thesis
      by (cases e) (simp_all add: map_header_exit_def)
  qed
qed (use assms in \<open>simp_all add: map_header_exit_def\<close>)

lemma map_header_exit_fault:
  assumes "map_header_exit hops ses p ex = Inl e" and "header_ended ex (ses, p)"
  shows "ex = Write_exit Completed \<and> header_handler_throws hops (request_handler ses) (take_result p) e"
  using assms
  by (auto simp: map_header_exit_def header_completed_fault
      split: transfer_exit.splits req_header_parser_error_code.splits)

lemma read_request_header_outcome:
  assumes p: "parser_inv (m_req_header_parser st)" and b: "wf_span b"
    and h: "h_inv (request_handler ses)" and size: "0 < buffer_size b"
  shows "\<exists>r. read_request_header_ready ops hops st b ses = Some r
    \<and> (case r of Inl e \<Rightarrow> thrown e \<and> header_read_fault incoming hops st b ses e
       | Inr (st', b', ses', resp) \<Rightarrow> wf_span b' \<and> buffer_size b' = buffer_size b
           \<and> h_inv (request_handler ses')
           \<and> header_read_spec ops incoming sent read_stopped hops st b ses st' b' ses' resp)"
proof -
  have "header_inv (ses, m_req_header_parser st)" using p by (simp add: header_inv_def)
  from this b show ?thesis
  proof (cases rule: header.transfer_cases [of _ _ "m_bytes_to_read st"])
    case (returns c1 b1 n1 ex moved got)
    obtain ses1 p1 where c1: "c1 = (ses1, p1)" by (cases c1)
    obtain s1 where s1: "ses1 = ses\<lparr>connection := s1\<rparr>"
      using returns(7) session_connection_eq [of ses ses1] by (auto simp: c1 connection_read_def)
    define ec where "ec = (case ex of Write_exit ec \<Rightarrow> ec | _ \<Rightarrow> More_data_needed)"
    have res: "read_request_header_ready ops hops st b ses =
        Some (and_then (map_header_exit hops ses1 p1 ex) (\<lambda>(ses2, resp).
          Inr (\<lparr>m_req_header_parser = p1, m_bytes_to_read = n1\<rparr>, b1, ses2, resp)))"
      using returns(1) by (simp add: read_request_header_ready_def c1)
    have moved: "sent s1 = sent (connection ses)" "read_stopped s1 = read_stopped (connection ses)"
      "incoming (connection ses) = got @ incoming s1"
      "parse (m_req_header_parser st) moved = Inr (p1, [], ec)"
      using returns(7,8) by (auto simp: c1 s1 connection_read_def header_absorbs_def ec_def
          header.stop_of_def split: transfer_exit.splits)
    have eof: "0 < n1 \<and> span_to_read b1 = [] \<and> read_refused ops s1 er"
      if er: "ex = Read_exit er" for er
    proof -
      obtain c0 where "read_connection ops c0 (buffer_size b) = Inr ((ses1, p1), span_to_read b1, er)"
        using returns(12) [OF er] by (auto simp: c1)
      from read_connection_step(5,6) [OF this] returns(11) [OF er] size show ?thesis
        by (auto simp: is_error_indicator_def connection_read_def s1)
    qed
    have "h_inv (request_handler ses1)" "header_ended ex (ses1, p1)"
      using returns(2) h by (simp_all add: c1 s1)
    note answer = map_header_exit_answer [OF this ec_def]
    show ?thesis
    proof (cases "map_header_exit hops ses1 p1 ex")
      case (Inl e)
      from map_header_exit_fault [OF Inl \<open>header_ended ex (ses1, p1)\<close>]
      have "ex = Write_exit Completed" "header_handler_throws hops (request_handler ses) (take_result p1) e"
        by (simp_all add: s1)
      moreover have "span_to_read b @ incoming (connection ses) = moved @ span_to_read b1 @ incoming s1"
        using moved(3) returns(6) by simp
      ultimately have "header_read_fault incoming hops st b ses e"
        using moved(4) returns(9) unfolding header_read_fault_def ec_def by auto
      with answer Inl show ?thesis by (simp add: res)
    next
      case (Inr r)
      obtain ses2 resp where r: "r = (ses2, resp)" by (cases r)
      note ok = answer [unfolded Inr r sum.case prod.case]
      have s2: "connection ses2 = s1" using ok by (simp add: s1)
      have "header_read_spec ops incoming sent read_stopped hops st b ses
          \<lparr>m_req_header_parser = p1, m_bytes_to_read = n1\<rparr> b1 ses2 resp"
        by (rule header_read_specI [where got = got and moved = moved and ec = ec])
           (use ok returns(5,6,9,10) eof in
             \<open>auto simp: s2 moved s1 ec_def split: if_splits transfer_exit.splits\<close>)
      with ok returns(3,4) show ?thesis by (simp add: res Inr r)
    qed
  qed simp
qed

end

section \<open>Reading the request body\<close>

context session_io
begin

definition input_taken :: "('s, 'h) session \<Rightarrow> string \<Rightarrow> ('s, 'h) session \<Rightarrow> bool" where
  "input_taken ses got ses' \<longleftrightarrow> same_request ses ses'
     \<and> incoming (connection ses) = got @ incoming (connection ses')
     \<and> sent (connection ses') = sent (connection ses)
     \<and> (read_stopped (connection ses') \<longleftrightarrow> read_stopped (connection ses))"

definition body_inv :: "('s, 'h) session \<times> unit \<Rightarrow> bool" where
  "body_inv c \<longleftrightarrow> h_inv (request_handler (fst c))"

lemma handle_content_step:
  assumes "handle_content hops c bytes n = Inr (c', k, ec)"
  shows "process_request_content hops (request_handler (fst c)) bytes n
      = Inr (request_handler (fst c'), k, ec)"
    and "same_request (fst c) (fst c')" and "connection (fst c') = connection (fst c)"
  using assms by (auto simp: handle_content_def same_request_def)

end

sublocale session_io \<subseteq> body: transfer_stream "read_connection ops" "handle_content hops"
  is_error_indicator "ec_is_error_indicator hops" thrown body_inv "\<lambda>_. body_inv"
  "\<lambda>c got c'. input_taken (fst c) got (fst c')"
  "\<lambda>c s c' stop. content_fed hops (request_handler (fst c)) s (request_handler (fst c')) stop"
proof unfold_locales
  fix c :: "('s, 'h) session \<times> unit" and n
  assume inv: "body_inv c"
  obtain c' data ec where r: "read_connection ops c n = Inr (c', data, ec)"
    using read_connection_total by blast
  from read_connection_step [OF r] inv r show "case read_connection ops c n of Inl e \<Rightarrow> thrown e
     | Inr (c', data, er) \<Rightarrow> length data \<le> n
         \<and> (if is_error_indicator er \<or> data = [] then body_inv c' else body_inv c')"
    by (simp add: body_inv_def connection_read_def)
next
  fix c :: "('s, 'h) session \<times> unit" and s n
  assume "body_inv c"
  from h_content [OF this [unfolded body_inv_def], of s n]
  show "case handle_content hops c s n of Inl e \<Rightarrow> thrown e
     | Inr (c', k, ew) \<Rightarrow> k \<le> length s
         \<and> (if ec_is_error_indicator hops ew \<or> k = 0 then body_inv c' else body_inv c')"
    by (auto simp: handle_content_def and_then_def body_inv_def split: sum.splits prod.splits)
next
  fix c c' c'' :: "('s, 'h) session \<times> unit" and n data er got s stop
  assume r: "read_connection ops c n = Inr (c', data, er)"
  note step = read_connection_step [OF r]
  show "input_taken (fst c') got (fst c'') \<Longrightarrow> input_taken (fst c) (data @ got) (fst c'')"
    using step(3,4) by (simp add: input_taken_def connection_read_def same_request_def)
  show "content_fed hops (request_handler (fst c')) s (request_handler (fst c'')) stop \<Longrightarrow>
      content_fed hops (request_handler (fst c)) s (request_handler (fst c'')) stop"
    using step(3) by (simp add: connection_read_def)
next
  fix c c' c'' :: "('s, 'h) session \<times> unit" and s n k ew got
  assume w: "handle_content hops c s n = Inr (c', k, ew)" and "input_taken (fst c') got (fst c'')"
  then show "input_taken (fst c) got (fst c'')"
    using handle_content_step(2,3) [OF w] by (simp add: input_taken_def same_request_def)
next
  fix c c' c'' :: "('s, 'h) session \<times> unit" and s n k ew t stop
  assume w: "handle_content hops c s n = Inr (c', k, ew)" and s: "s \<noteq> []"
  note step = handle_content_step(1) [OF w]
  show "ec_is_error_indicator hops ew \<or> k = 0 \<Longrightarrow>
      content_fed hops (request_handler (fst c)) (take k s) (request_handler (fst c')) (Some ew)"
    by (rule fed_stop [OF step s])
  show "\<not> ec_is_error_indicator hops ew \<Longrightarrow> k \<noteq> 0 \<Longrightarrow>
      content_fed hops (request_handler (fst c')) t (request_handler (fst c'')) stop \<Longrightarrow>
      content_fed hops (request_handler (fst c)) (take k s @ t) (request_handler (fst c'')) stop"
    by (rule fed_more [OF step s])
qed (auto simp: input_taken_def same_request_def fed_none)

text \<open>
  What is answered when all of the content has been delivered, stated on its own: the handler
  is asked to finalize, with no fields yet; the response gets version 1.1, the status of its
  result with the reason phrase of that, and the fields it made; and its result is the
  answer, as an error of the client when its status is one.
\<close>

definition body_answered ::
  "('h, 'e) handler_ops \<Rightarrow> ('s, 'h) session \<Rightarrow> ('s, 'h) session \<Rightarrow> session_state_response \<Rightarrow> bool" where
  "body_answered hops ses ses' resp \<longleftrightarrow>
     (\<exists>h flds. finalize_body hops (request_handler ses) [] = Inr (h, flds, st_result resp)
        \<and> st_status resp = (if is_error (http_status (st_result resp)) then Client_error_detected
                            else State_completed)
        \<and> ses' = ses\<lparr>request_handler := h, s_response_info := \<lparr>rsp_header =
            \<lparr>resp_status_line = \<lparr>sl_http_version = mk_version 1 1,
               sl_status_code = http_status (st_result resp),
               sl_reason_phrase = status_to_string (http_status (st_result resp))\<rparr>,
             resp_fields = flds\<rparr>\<rparr>\<rparr>)"

lemma body_answered_iff: "body_answered hops ses ses' resp \<longleftrightarrow> body_completed hops ses = Inr (ses', resp)"
  by (cases "finalize_body hops (request_handler ses) []"; cases resp)
     (auto simp: body_answered_def body_completed_def and_then_def response_info_default_def)

text \<open>
  What reading the body amounts to. The bytes taken went to the handler in order, no more
  than the request announced; nothing was sent. When all were delivered, the handler's
  \<open>finalize_body\<close> decides; when it refuses to go on, the rest of the window is dropped and
  the answer is a bad request, unless its error code says that it can continue later.
\<close>

definition body_read_spec ::
  "'s socket_ops \<Rightarrow> ('s \<Rightarrow> string) \<Rightarrow> ('s \<Rightarrow> string) \<Rightarrow> ('s \<Rightarrow> bool) \<Rightarrow> ('h, 'e) handler_ops \<Rightarrow>
   nat \<Rightarrow> buffer_span \<Rightarrow> ('s, 'h) session \<Rightarrow>
   nat \<Rightarrow> buffer_span \<Rightarrow> ('s, 'h) session \<Rightarrow> session_state_response \<Rightarrow> bool" where
  "body_read_spec ops incoming sent read_stopped hops n b ses n' b' ses' resp \<longleftrightarrow>
     sent (connection ses') = sent (connection ses)
     \<and> (read_stopped (connection ses') \<longleftrightarrow> read_stopped (connection ses))
     \<and> (\<exists>moved got rest h1 stop.
          span_to_read b @ got = moved @ rest
          \<and> incoming (connection ses) = got @ incoming (connection ses')
          \<and> content_fed hops (request_handler ses) moved h1 stop
          \<and> length moved \<le> n \<and> n' = n - length moved
          \<and> (let ses1 = ses\<lparr>connection := connection ses', request_handler := h1\<rparr> in
             case stop of
               Some ec \<Rightarrow> same_request ses ses' \<and> request_handler ses' = h1
                 \<and> (if ec_can_continue hops ec \<and> n' \<noteq> 0
                    then span_to_read b' = rest \<and> resp = state_response State_more_data_needed Ok None
                    else span_to_read b' = []
                      \<and> resp = state_response Client_error_detected Bad_request
                          (make_unique_cstr (ec_to_string hops ec)))
             | None \<Rightarrow> span_to_read b' = rest
                 \<and> (if n' = 0 then body_answered hops ses1 ses' resp
                    else rest = [] \<and> same_request ses ses' \<and> request_handler ses' = h1
                      \<and> (\<exists>res. resp = make_read_response res ''Client claims there is more data to read''
                          \<and> read_refused ops (connection ses') res))))"

text \<open>Where an exception comes from: the handler, given the next bytes of the content or asked to
  finalize when it has had all of it.\<close>

definition body_read_fault ::
  "('s \<Rightarrow> string) \<Rightarrow> ('h, 'e) handler_ops \<Rightarrow> nat \<Rightarrow> buffer_span \<Rightarrow> ('s, 'h) session \<Rightarrow> fault \<Rightarrow> bool" where
  "body_read_fault incoming hops n b ses e \<longleftrightarrow>
     (\<exists>moved bytes rest h1. span_to_read b @ incoming (connection ses) = moved @ bytes @ rest
        \<and> length moved + length bytes \<le> n \<and> content_fed hops (request_handler ses) moved h1 None
        \<and> ((\<exists>m. process_request_content hops h1 bytes m = Inl e)
           \<or> bytes = [] \<and> length moved = n \<and> finalize_body hops h1 [] = Inl e))"

lemmas body_read_spec_eq = body_read_spec_def [unfolded body_answered_iff]

lemma body_read_specI:
  assumes "sent (connection ses') = sent (connection ses)"
    and "read_stopped (connection ses') \<longleftrightarrow> read_stopped (connection ses)"
    and "span_to_read b @ got = moved @ rest"
    and "incoming (connection ses) = got @ incoming (connection ses')"
    and "content_fed hops (request_handler ses) moved ha stop"
    and "length moved \<le> n" and "n' = n - length moved"
    and "let ses1 = ses\<lparr>connection := connection ses', request_handler := ha\<rparr> in
         case stop of
           Some ec \<Rightarrow> same_request ses ses' \<and> request_handler ses' = ha
             \<and> (if ec_can_continue hops ec \<and> n' \<noteq> 0
                then span_to_read b' = rest \<and> resp = state_response State_more_data_needed Ok None
                else span_to_read b' = []
                  \<and> resp = state_response Client_error_detected Bad_request
                      (make_unique_cstr (ec_to_string hops ec)))
         | None \<Rightarrow> span_to_read b' = rest
             \<and> (if n' = 0 then body_completed hops ses1 = Inr (ses', resp)
                else rest = [] \<and> same_request ses ses' \<and> request_handler ses' = ha
                  \<and> (\<exists>res. resp = make_read_response res ''Client claims there is more data to read''
                      \<and> read_refused ops (connection ses') res))"
  shows "body_read_spec ops incoming sent read_stopped hops n b ses n' b' ses' resp"
  unfolding body_read_spec_eq
  by (rule conjI [OF assms(1)], rule conjI [OF assms(2)],
      rule exI [of _ moved], rule exI [of _ got], rule exI [of _ rest], rule exI [of _ ha],
      rule exI [of _ stop], intro conjI; fact assms)

lemma session_io_eq:
  assumes "same_request ses ses'"
  shows "ses' = ses\<lparr>connection := connection ses', request_handler := request_handler ses'\<rparr>"
  using assms by (cases ses; cases ses') (simp add: same_request_def)

context session_io
begin

lemma body_completed_ok:
  assumes "h_inv (request_handler ses)"
  shows "case body_completed hops ses of Inl e \<Rightarrow> thrown e
     | Inr (ses', resp) \<Rightarrow> h_responding (request_handler ses') \<and> connection ses' = connection ses
         \<and> (\<exists>st flds. rsp_header (s_response_info ses') =
              \<lparr>resp_status_line = \<lparr>sl_http_version = mk_version 1 1, sl_status_code = st,
                 sl_reason_phrase = status_to_string st\<rparr>, resp_fields = flds\<rparr>
              \<and> wf_response_fields flds)
         \<and> (st_status resp = State_completed
            \<or> st_status resp = Client_error_detected \<and> error_message (st_result resp) \<noteq> None)"
  using h_body [OF assms]
  by (auto simp: body_completed_def response_info_default_def split: sum.splits)

lemma map_body_exit_answer:
  assumes "h_inv (request_handler ses)" and "wf_span b"
  shows "case map_body_exit hops ses b n ex of Inl e \<Rightarrow> thrown e
     | Inr (b', ses', resp) \<Rightarrow> h_inv (request_handler ses') \<and> connection ses' = connection ses
         \<and> wf_span b' \<and> buffer_size b' = buffer_size b
         \<and> (case ex of
              Write_exit ec \<Rightarrow> ses' = ses
                \<and> (if ec_can_continue hops ec \<and> n \<noteq> 0
                   then span_to_read b' = span_to_read b
                     \<and> resp = state_response State_more_data_needed Ok None
                   else span_to_read b' = []
                     \<and> resp = state_response Client_error_detected Bad_request
                         (make_unique_cstr (ec_to_string hops ec)))
            | Read_exit res \<Rightarrow> b' = b \<and> ses' = ses
                \<and> resp = make_read_response res ''Client claims there is more data to read''
            | All_transferred \<Rightarrow> b' = b \<and> body_completed hops ses = Inr (ses', resp)
                \<and> h_responding (request_handler ses'))"
proof (cases ex)
  case (Write_exit ec)
  obtain b' where "reset_with_new_length 0 b = Inr b' \<and> wf_span b' \<and> span_to_read b' = []
    \<and> buffer_size b' = buffer_size b"
    using reset_zero by blast
  with assms show ?thesis by (auto simp: map_body_exit_def Write_exit Let_def)
next
  case All_transferred
  from body_completed_ok [OF assms(1)] assms show ?thesis
    by (auto simp: map_body_exit_def All_transferred intro: h_responding_inv split: sum.splits)
qed (use assms in \<open>simp add: map_body_exit_def\<close>)

lemma map_body_exit_fault:
  assumes "map_body_exit hops ses b n ex = Inl e"
  shows "ex = All_transferred \<and> finalize_body hops (request_handler ses) [] = Inl e"
proof (cases ex)
  case (Write_exit ec)
  with assms reset_zero [of b] show ?thesis
    by (auto simp: map_body_exit_def Let_def and_then_def split: sum.splits if_splits)
qed (use assms in \<open>auto simp: map_body_exit_def body_completed_def and_then_def
    response_info_default_def split: sum.splits\<close>)

lemma read_request_body_outcome:
  assumes b: "wf_span b" and h: "h_inv (request_handler ses)" and size: "0 < buffer_size b"
  shows "\<exists>r. read_request_body_ready ops hops n b ses = Some r
    \<and> (case r of Inl e \<Rightarrow> thrown e \<and> body_read_fault incoming hops n b ses e
       | Inr (n', b', ses', resp) \<Rightarrow> wf_span b' \<and> buffer_size b' = buffer_size b
           \<and> h_inv (request_handler ses')
           \<and> body_read_spec ops incoming sent read_stopped hops n b ses n' b' ses' resp)"
proof -
  have "body_inv (ses, ())" using h by (simp add: body_inv_def)
  from this b show ?thesis
  proof (cases rule: body.transfer_cases [of _ _ n])
    case (faults e)
    from faults(3) obtain moved got bytes t rest c1 m where
      f: "span_to_read b @ got = moved @ rest" "input_taken ses got (fst c1)" "rest = bytes @ t"
        "content_fed hops (request_handler ses) moved (request_handler (fst c1)) None"
        "handle_content hops c1 bytes m = Inl e" "length moved + length bytes \<le> n"
      unfolding body.faults_def by (elim exE conjE disjE) auto
    from f(5) have "process_request_content hops (request_handler (fst c1)) bytes m = Inl e"
      by (auto simp: handle_content_def and_then_def split: sum.splits prod.splits)
    moreover have "span_to_read b @ incoming (connection ses) = moved @ bytes @ t @ incoming (connection (fst c1))"
      using f(1-3) by (simp add: input_taken_def)
    ultimately have "body_read_fault incoming hops n b ses e"
      using f(4,6) unfolding body_read_fault_def by blast
    with faults show ?thesis by (simp add: read_request_body_ready_def finish_transfer_def)
  next
    case (returns c1 b1 n1 ex moved got)
    obtain ses1 where c1: "c1 = (ses1, ())" by (cases c1) auto
    have taken: "input_taken ses got ses1" using returns(7) by (simp add: c1)
    define s1 h1 where "s1 = connection ses1" and "h1 = request_handler ses1"
    have s1: "ses1 = ses\<lparr>connection := s1, request_handler := h1\<rparr>"
      unfolding s1_def h1_def using taken by (intro session_io_eq) (simp add: input_taken_def)
    have res: "read_request_body_ready ops hops n b ses =
        Some (and_then (map_body_exit hops ses1 b1 n1 ex) (\<lambda>(b2, ses2, resp). Inr (n1, b2, ses2, resp)))"
      using returns(1) by (simp add: read_request_body_ready_def c1)
    have moved: "sent s1 = sent (connection ses)" "read_stopped s1 = read_stopped (connection ses)"
      "incoming (connection ses) = got @ incoming s1"
      "content_fed hops (request_handler ses) moved h1 (body.stop_of ex)"
      using taken returns(8) by (simp_all add: input_taken_def s1_def h1_def c1)
    have eof: "0 < n1 \<and> span_to_read b1 = [] \<and> read_refused ops s1 er"
      if er: "ex = Read_exit er" for er
    proof -
      obtain c0 where "read_connection ops c0 (buffer_size b) = Inr ((ses1, ()), span_to_read b1, er)"
        using returns(12) [OF er] by (auto simp: c1)
      from read_connection_step(5,6) [OF this] returns(11) [OF er] size show ?thesis
        by (auto simp: is_error_indicator_def connection_read_def s1_def)
    qed
    have "h_inv (request_handler ses1)" using returns(2) by (simp add: body_inv_def c1)
    note answer = map_body_exit_answer [OF this returns(3)]
    show ?thesis
    proof (cases "map_body_exit hops ses1 b1 n1 ex")
      case (Inl e)
      from map_body_exit_fault [OF Inl] have "ex = All_transferred" "finalize_body hops h1 [] = Inl e"
        by (simp_all add: s1)
      moreover have "span_to_read b @ incoming (connection ses) = moved @ [] @ span_to_read b1 @ incoming s1"
        using returns(6) moved(3) by simp
      ultimately have "body_read_fault incoming hops n b ses e"
        using moved(4) returns(5,9,10) unfolding body_read_fault_def
        by (intro exI [of _ moved] exI [of _ "[]"] exI [of _ "span_to_read b1 @ incoming s1"] exI [of _ h1])
           (simp add: body.stop_of_def)
      with answer [of n1 ex] Inl show ?thesis by (simp add: res)
    next
      case (Inr r)
      obtain b2 ses2 resp where r: "r = (b2, ses2, resp)" by (cases r)
      note ok = answer [of n1 ex, unfolded Inr r sum.case prod.case]
      have s2: "connection ses2 = s1" using ok by (simp add: s1)
      have "body_read_spec ops incoming sent read_stopped hops n b ses n1 b2 ses2 resp"
        by (rule body_read_specI [OF _ _ returns(6) _ moved(4) returns(9,10)])
           (use ok returns(5) eof in
             \<open>auto simp: s2 moved(1-3) s1 same_request_def body.stop_of_def
                split: if_splits transfer_exit.splits\<close>)
      with ok returns(4) show ?thesis by (simp add: res Inr r)
    qed
  qed
qed

end

section \<open>Writing the response header\<close>

lemma read_serializer_step:
  assumes "read_serializer c n = Inr (c', data, er)" and "serializer_inv (snd c)"
  shows "fst c' = fst c" and "data = take n (serializer_rest (snd c))"
    and "serializer_rest (snd c') = drop n (serializer_rest (snd c))" and "serializer_inv (snd c')"
  using assms serialize_rest [OF assms(2), of n]
  by (auto simp: read_serializer_def split: prod.splits)

lemma read_serializer_total: "\<exists>c' data er. read_serializer c n = Inr (c', data, er)"
  by (auto simp: read_serializer_def split: prod.splits)

sublocale session_io \<subseteq> resp_header: transfer_stream read_serializer "write_connection ops"
  serializer_error_code_checker is_error_indicator "\<lambda>_. False"
  "\<lambda>c. serializer_inv (snd c)" "\<lambda>_ c. serializer_inv (snd c)"
  "\<lambda>c got c'. serializer_rest (snd c) = got @ serializer_rest (snd c')"
  "\<lambda>c s c' stop. connection_written (fst c) s (fst c')
     \<and> (\<forall>ew. stop = Some ew \<longrightarrow> write_refused ops (connection (fst c')) ew)"
proof unfold_locales
  fix c :: "('s, 'h) session \<times> response_header_serializer" and n
  assume inv: "serializer_inv (snd c)"
  obtain c' data er where r: "read_serializer c n = Inr (c', data, er)"
    using read_serializer_total by blast
  from read_serializer_step [OF r inv] r show "case read_serializer c n of Inl e \<Rightarrow> False
     | Inr (c', data, er) \<Rightarrow> length data \<le> n
         \<and> (if serializer_error_code_checker er \<or> data = [] then serializer_inv (snd c')
            else serializer_inv (snd c'))"
    by simp
next
  fix c :: "('s, 'h) session \<times> response_header_serializer" and s n
  assume inv: "serializer_inv (snd c)"
  obtain c' k ec where w: "write_connection ops c s n = Inr (c', k, ec)"
    using write_connection_total by blast
  from write_connection_step [OF w] inv w show "case write_connection ops c s n of Inl e \<Rightarrow> False
     | Inr (c', k, ew) \<Rightarrow> k \<le> length s
         \<and> (if is_error_indicator ew \<or> k = 0 then serializer_inv (snd c') else serializer_inv (snd c'))"
    by simp
next
  fix c c' c'' :: "('s, 'h) session \<times> response_header_serializer" and n data er got s
    and stop :: "operation_result option"
  assume inv: "serializer_inv (snd c)" and r: "read_serializer c n = Inr (c', data, er)"
  note step = read_serializer_step [OF r inv]
  show "serializer_rest (snd c') = got @ serializer_rest (snd c'') \<Longrightarrow>
      serializer_rest (snd c) = (data @ got) @ serializer_rest (snd c'')"
    using step(2,3) append_take_drop_id [of n "serializer_rest (snd c)"] by simp
  show "connection_written (fst c') s (fst c'')
        \<and> (\<forall>ew. stop = Some ew \<longrightarrow> write_refused ops (connection (fst c'')) ew) \<Longrightarrow>
      connection_written (fst c) s (fst c'')
        \<and> (\<forall>ew. stop = Some ew \<longrightarrow> write_refused ops (connection (fst c'')) ew)"
    by (simp add: step)
next
  fix c c' c'' :: "('s, 'h) session \<times> response_header_serializer" and s n k ew got t
    and stop :: "operation_result option"
  assume w: "write_connection ops c s n = Inr (c', k, ew)"
  note step = write_connection_step [OF w]
  show "serializer_rest (snd c') = got @ serializer_rest (snd c'') \<Longrightarrow>
      serializer_rest (snd c) = got @ serializer_rest (snd c'')"
    by (simp add: step)
  show "s \<noteq> [] \<Longrightarrow> is_error_indicator ew \<or> k = 0 \<Longrightarrow>
      connection_written (fst c) (take k s) (fst c')
        \<and> (\<forall>e. Some ew = Some e \<longrightarrow> write_refused ops (connection (fst c')) e)"
    using step(3,4) by blast
  show "connection_written (fst c') t (fst c'')
        \<and> (\<forall>ew. stop = Some ew \<longrightarrow> write_refused ops (connection (fst c'')) ew) \<Longrightarrow>
      connection_written (fst c) (take k s @ t) (fst c'')
        \<and> (\<forall>ew. stop = Some ew \<longrightarrow> write_refused ops (connection (fst c'')) ew)"
    using connection_written_trans [OF step(3)] by blast
qed simp_all

text \<open>
  What writing the response header amounts to. What went to the connection is a prefix of
  the window followed by the text not yet handed out, and the rest is still there: no byte
  is lost, repeated or reordered. It has completed only when everything was sent.
\<close>

definition header_write_spec ::
  "'s socket_ops \<Rightarrow> ('s \<Rightarrow> string) \<Rightarrow> ('s \<Rightarrow> string) \<Rightarrow> ('s \<Rightarrow> bool) \<Rightarrow>
   response_header_serializer \<Rightarrow> buffer_span \<Rightarrow> ('s, 'h) session \<Rightarrow>
   response_header_serializer \<Rightarrow> buffer_span \<Rightarrow> ('s, 'h) session \<Rightarrow> session_state_response \<Rightarrow> bool" where
  "header_write_spec ops incoming sent read_stopped ser b ses ser' b' ses' resp \<longleftrightarrow>
     ses' = ses\<lparr>connection := connection ses'\<rparr>
     \<and> incoming (connection ses') = incoming (connection ses)
     \<and> (read_stopped (connection ses') \<longleftrightarrow> read_stopped (connection ses))
     \<and> (\<exists>moved. sent (connection ses') = sent (connection ses) @ moved
          \<and> span_to_read b @ serializer_rest ser = moved @ span_to_read b' @ serializer_rest ser')
     \<and> (if resp = state_response State_completed Ok None
        then span_to_read b' = [] \<and> serializer_rest ser' = []
        else \<exists>res. resp = make_write_response res \<and> write_refused ops (connection ses') res)"

context session_io
begin

lemma make_write_response_not_completed:
  "make_write_response res \<noteq> state_response State_completed st msg"
  by (cases res) (simp_all add: make_write_response_def)

lemma write_response_header_outcome:
  fixes ses :: "('s, 'h) session"
  assumes ser: "serializer_inv ser" and b: "wf_span b" and size: "0 < buffer_size b"
    and fits: "length (span_to_read b @ serializer_rest ser) < 2 ^ 64 - 1"
  shows "\<exists>ser' b' ses' resp. write_response_header_ready ops ser b ses = Some (Inr (ser', b', ses', resp))
    \<and> wf_span b' \<and> buffer_size b' = buffer_size b \<and> serializer_inv ser'
    \<and> header_write_spec ops incoming sent read_stopped ser b ses ser' b' ses' resp"
proof -
  have "serializer_inv (snd (ses, ser))" using ser by simp
  from this b show ?thesis
  proof (cases rule: resp_header.transfer_cases [of _ _ "2 ^ 64 - 1"])
    case (returns c1 b1 n1 ex moved got)
    obtain ses1 ser1 where c1: "c1 = (ses1, ser1)" by (cases c1)
    have all: "span_to_read b @ serializer_rest ser = moved @ span_to_read b1 @ serializer_rest ser1"
      using returns(6,7) by (simp add: c1)
    have written: "connection_written ses moved ses1" and ser1: "serializer_inv ser1"
      using returns(2,8) by (simp_all add: c1)
    have spec: "header_write_spec ops incoming sent read_stopped ser b ses ser1 b1 ses1 resp"
      if "if resp = state_response State_completed Ok None
        then span_to_read b1 = [] \<and> serializer_rest ser1 = []
        else \<exists>res. resp = make_write_response res \<and> write_refused ops (connection ses1) res" for resp
      using that written all session_connection_eq [of ses ses1]
      unfolding header_write_spec_def by (auto simp: connection_written_def)
    have res: "write_response_header_ready ops ser b ses =
        Some (and_then (map_response_header_exit b1 ex) (\<lambda>resp. Inr (ser1, b1, ses1, resp)))"
      using returns(1) by (simp add: write_response_header_ready_def c1)
    show ?thesis
    proof (cases ex)
      case (Read_exit er)
      then have nil: "span_to_read b1 = []"
        using returns(11) [of er] by (simp add: serializer_error_code_checker_def)
      obtain c0 where c0: "serializer_inv (snd c0)" "read_serializer c0 (buffer_size b) = Inr (c1, [], er)"
        using returns(12) [OF Read_exit] by (auto simp: nil)
      have "serializer_rest ser1 = []"
        using read_serializer_step(2,3) [OF c0(2,1)] size by (simp add: c1)
      with nil spec [of "state_response State_completed Ok None"] returns(3,4) ser1 show ?thesis
        by (simp add: res Read_exit map_response_header_exit_def)
    next
      case (Write_exit ew)
      with returns(8) have "write_refused ops (connection ses1) ew"
        by (simp add: c1 resp_header.stop_of_def)
      with Write_exit spec [of "make_write_response ew"] returns(3,4) ser1 show ?thesis
        by (auto simp: res map_response_header_exit_def make_write_response_not_completed)
    next
      case All_transferred
      have "length moved < 2 ^ 64 - 1" using fits unfolding all by simp
      with returns(5) [OF All_transferred] returns(10) show ?thesis by simp
    qed
  qed simp
qed

end

section \<open>Writing the response body\<close>

context session_io
begin

definition output_taken :: "('s, 'h) session \<Rightarrow> string \<Rightarrow> ('s, 'h) session \<Rightarrow> bool" where
  "output_taken ses s ses' \<longleftrightarrow> same_request ses ses'
     \<and> sent (connection ses') = sent (connection ses) @ s
     \<and> incoming (connection ses') = incoming (connection ses)
     \<and> (read_stopped (connection ses') \<longleftrightarrow> read_stopped (connection ses))"

lemma read_content_step:
  assumes "read_content hops c n = Inr (c', data, ec)"
  shows "read_response_content hops (request_handler (fst c)) n
      = Inr (request_handler (fst c'), data, ec)"
    and "same_request (fst c) (fst c')" and "connection (fst c') = connection (fst c)"
  using assms by (auto simp: read_content_def same_request_def)

definition responding :: "('s, 'h) session \<times> unit \<Rightarrow> bool" where
  "responding c \<longleftrightarrow> h_responding (request_handler (fst c))"

end

sublocale session_io \<subseteq> resp_body: transfer_stream "read_content hops" "write_connection ops"
  "ec_is_error_indicator hops" is_error_indicator thrown responding "\<lambda>_. responding"
  "\<lambda>c got c'. content_drawn hops (request_handler (fst c)) got (request_handler (fst c'))"
  "\<lambda>c s c' stop. output_taken (fst c) s (fst c')
     \<and> (\<forall>ew. stop = Some ew \<longrightarrow> write_refused ops (connection (fst c')) ew)"
proof unfold_locales
  fix c :: "('s, 'h) session \<times> unit" and n
  assume "responding c"
  from h_read [OF this [unfolded responding_def], of n]
  show "case read_content hops c n of Inl e \<Rightarrow> thrown e
     | Inr (c', data, er) \<Rightarrow> length data \<le> n
         \<and> (if ec_is_error_indicator hops er \<or> data = [] then responding c' else responding c')"
    by (auto simp: read_content_def and_then_def responding_def split: sum.splits prod.splits)
next
  fix c :: "('s, 'h) session \<times> unit" and s n
  assume inv: "responding c"
  obtain c' k ec where w: "write_connection ops c s n = Inr (c', k, ec)"
    using write_connection_total by blast
  from write_connection_step [OF w] inv w show "case write_connection ops c s n of Inl e \<Rightarrow> thrown e
     | Inr (c', k, ew) \<Rightarrow> k \<le> length s
         \<and> (if is_error_indicator ew \<or> k = 0 then responding c' else responding c')"
    by (simp add: responding_def connection_written_def)
next
  fix c c' c'' :: "('s, 'h) session \<times> unit" and n data er got s
    and stop :: "operation_result option"
  assume r: "read_content hops c n = Inr (c', data, er)"
  note step = read_content_step [OF r]
  show "content_drawn hops (request_handler (fst c')) got (request_handler (fst c'')) \<Longrightarrow>
      content_drawn hops (request_handler (fst c)) (data @ got) (request_handler (fst c''))"
    by (rule drawn_more [OF step(1)])
  show "output_taken (fst c') s (fst c'')
        \<and> (\<forall>ew. stop = Some ew \<longrightarrow> write_refused ops (connection (fst c'')) ew) \<Longrightarrow>
      output_taken (fst c) s (fst c'')
        \<and> (\<forall>ew. stop = Some ew \<longrightarrow> write_refused ops (connection (fst c'')) ew)"
    using step(2,3) by (simp add: output_taken_def same_request_def)
next
  fix c c' c'' :: "('s, 'h) session \<times> unit" and s n k ew got t
    and stop :: "operation_result option"
  assume w: "write_connection ops c s n = Inr (c', k, ew)"
  note step = write_connection_step(3,4) [OF w]
  show "content_drawn hops (request_handler (fst c')) got (request_handler (fst c'')) \<Longrightarrow>
      content_drawn hops (request_handler (fst c)) got (request_handler (fst c''))"
    using step(1) by (simp add: connection_written_def)
  show "s \<noteq> [] \<Longrightarrow> is_error_indicator ew \<or> k = 0 \<Longrightarrow>
      output_taken (fst c) (take k s) (fst c')
        \<and> (\<forall>e. Some ew = Some e \<longrightarrow> write_refused ops (connection (fst c')) e)"
    using step by (simp add: connection_written_def output_taken_def)
  show "output_taken (fst c') t (fst c'')
        \<and> (\<forall>ew. stop = Some ew \<longrightarrow> write_refused ops (connection (fst c'')) ew) \<Longrightarrow>
      output_taken (fst c) (take k s @ t) (fst c'')
        \<and> (\<forall>ew. stop = Some ew \<longrightarrow> write_refused ops (connection (fst c'')) ew)"
    using step(1) by (simp add: connection_written_def output_taken_def same_request_def)
qed (auto simp: output_taken_def same_request_def drawn_none)

text \<open>
  What writing the response body amounts to: the same for the content of the handler, up
  to the number of bytes the response announced. It has completed only when that number
  is used up.
\<close>

definition body_write_spec ::
  "'s socket_ops \<Rightarrow> ('s \<Rightarrow> string) \<Rightarrow> ('s \<Rightarrow> string) \<Rightarrow> ('s \<Rightarrow> bool) \<Rightarrow> ('h \<Rightarrow> bool) \<Rightarrow> ('h, 'e) handler_ops \<Rightarrow>
   nat \<Rightarrow> buffer_span \<Rightarrow> ('s, 'h) session \<Rightarrow>
   nat \<Rightarrow> buffer_span \<Rightarrow> ('s, 'h) session \<Rightarrow> session_state_response \<Rightarrow> bool" where
  "body_write_spec ops incoming sent read_stopped h_responding hops n b ses n' b' ses' resp \<longleftrightarrow>
     ses' = ses\<lparr>connection := connection ses', request_handler := request_handler ses'\<rparr>
     \<and> incoming (connection ses') = incoming (connection ses)
     \<and> (read_stopped (connection ses') \<longleftrightarrow> read_stopped (connection ses))
     \<and> (\<exists>moved got. sent (connection ses') = sent (connection ses) @ moved
          \<and> content_drawn hops (request_handler ses) got (request_handler ses')
          \<and> span_to_read b @ got = moved @ span_to_read b'
          \<and> length moved \<le> n \<and> n' = n - length moved)
     \<and> (if resp = state_response State_completed Ok None then n' = 0
        else (\<exists>ec h0. 0 < n' \<and> resp = map_response_body_exit hops (Read_exit ec)
             \<and> (ec_is_error_indicator hops ec \<or> span_to_read b' = [])
             \<and> h_responding h0
             \<and> read_response_content hops h0 (buffer_size b)
                 = Inr (request_handler ses', span_to_read b', ec))
          \<or> (\<exists>res. resp = make_write_response res \<and> write_refused ops (connection ses') res))"

text \<open>Where an exception comes from: the handler, asked for content.\<close>

definition body_write_fault ::
  "('h, 'e) handler_ops \<Rightarrow> ('s, 'h) session \<Rightarrow> fault \<Rightarrow> bool" where
  "body_write_fault hops ses e \<longleftrightarrow>
     (\<exists>got h1 m. content_drawn hops (request_handler ses) got h1
        \<and> read_response_content hops h1 m = Inl e)"

context session_io
begin

lemma write_response_body_outcome:
  assumes h: "h_responding (request_handler ses)" and b: "wf_span b"
  shows "\<exists>r. write_response_body_ready ops hops n b ses = Some r
    \<and> (case r of Inl e \<Rightarrow> thrown e \<and> body_write_fault hops ses e
       | Inr (n', b', ses', resp) \<Rightarrow> wf_span b' \<and> buffer_size b' = buffer_size b
           \<and> h_responding (request_handler ses')
           \<and> body_write_spec ops incoming sent read_stopped h_responding hops n b ses n' b' ses' resp)"
proof -
  have "responding (ses, ())" using h by (simp add: responding_def)
  from this b show ?thesis
  proof (cases rule: resp_body.transfer_cases [of _ _ n])
    case (faults e)
    from faults(3) have "body_write_fault hops ses e"
      unfolding resp_body.faults_def body_write_fault_def
      by (elim exE conjE disjE) (auto simp: read_content_def and_then_def split: sum.splits prod.splits)
    with faults show ?thesis by (simp add: write_response_body_ready_def finish_transfer_def)
  next
    case (returns c1 b1 n1 ex moved got)
    obtain ses1 where c1: "c1 = (ses1, ())" by (cases c1) auto
    have taken: "output_taken ses moved ses1"
      and drawn: "content_drawn hops (request_handler ses) got (request_handler ses1)"
      using returns(7,8) by (simp_all add: c1)
    have "ses1 = ses\<lparr>connection := connection ses1, request_handler := request_handler ses1\<rparr>"
      using taken by (intro session_io_eq) (simp add: output_taken_def)
    moreover have "if map_response_body_exit hops ex = state_response State_completed Ok None then n1 = 0
        else (\<exists>ec h0. 0 < n1 \<and> map_response_body_exit hops ex = map_response_body_exit hops (Read_exit ec)
             \<and> (ec_is_error_indicator hops ec \<or> span_to_read b1 = [])
             \<and> h_responding h0
             \<and> read_response_content hops h0 (buffer_size b)
                 = Inr (request_handler ses1, span_to_read b1, ec))
          \<or> (\<exists>res. map_response_body_exit hops ex = make_write_response res
               \<and> write_refused ops (connection ses1) res)"
    proof (cases ex)
      case (Read_exit ec)
      then obtain c0 where "responding c0" "read_content hops c0 (buffer_size b) = Inr ((ses1, ()), span_to_read b1, ec)"
        using returns(12) by (auto simp: c1)
      with read_content_step(1) [OF this(2)] returns(11) [OF Read_exit] show ?thesis
        by (auto simp: Read_exit map_response_body_exit_def responding_def Let_def)
    next
      case (Write_exit ew)
      with returns(8) have "write_refused ops (connection ses1) ew"
        by (simp add: c1 resp_body.stop_of_def)
      with Write_exit show ?thesis
        by (auto simp: map_response_body_exit_def make_write_response_not_completed)
    qed (use returns(5) in \<open>simp add: map_response_body_exit_def\<close>)
    ultimately have "body_write_spec ops incoming sent read_stopped h_responding hops n b ses n1 b1 ses1
        (map_response_body_exit hops ex)"
      using taken drawn returns(6,9,10)
      unfolding body_write_spec_def output_taken_def by blast
    with returns(1-4) show ?thesis
      by (simp add: write_response_body_ready_def c1 responding_def)
  qed
qed

end

section \<open>Waiting for data\<close>

text \<open>
  Nothing is lost while waiting: the window and the bytes still to come are, together,
  what they were. It has completed when there is something in the window; when the peer
  has closed its end, or reading has stopped, the connection is closed.
\<close>

definition wait_spec ::
  "'s socket_ops \<Rightarrow> ('s \<Rightarrow> string) \<Rightarrow> ('s \<Rightarrow> string) \<Rightarrow> ('s \<Rightarrow> bool) \<Rightarrow> buffer_span \<Rightarrow> ('s, 'h) session \<Rightarrow>
   buffer_span \<Rightarrow> ('s, 'h) session \<Rightarrow> session_state_response \<Rightarrow> bool" where
  "wait_spec ops incoming sent read_stopped b ses b' ses' resp \<longleftrightarrow>
     ses' = ses\<lparr>connection := connection ses'\<rparr>
     \<and> sent (connection ses') = sent (connection ses)
     \<and> (read_stopped (connection ses') \<longleftrightarrow> read_stopped (connection ses))
     \<and> span_to_read b @ incoming (connection ses) = span_to_read b' @ incoming (connection ses')
     \<and> st_result resp = \<lparr>http_status = Ok, error_message = None\<rparr>
     \<and> (case st_status resp of
          State_completed \<Rightarrow> span_to_read b' \<noteq> []
        | State_more_data_needed \<Rightarrow> span_to_read b' = []
            \<and> read_refused ops (connection ses') Op_would_block
        | Connection_closed \<Rightarrow> span_to_read b' = []
            \<and> (\<exists>res. res \<noteq> Op_would_block \<and> read_refused ops (connection ses') res)
        | _ \<Rightarrow> False)"

context session_io
begin

lemma wait_for_data_outcome:
  assumes b: "wf_span b" and size: "0 < buffer_size b"
  shows "\<exists>b' ses' resp. wait_for_data_ready ops b ses = Inr (b', ses', resp)
    \<and> wf_span b' \<and> buffer_size b' = buffer_size b
    \<and> wait_spec ops incoming sent read_stopped b ses b' ses' resp"
proof (cases "span_to_read b = []")
  case False
  with b show ?thesis by (simp add: wait_for_data_ready_def wait_spec_def state_response_def)
next
  case True
  obtain s' data ec where r: "sock_read ops (connection ses) (buffer_size b) = (s', data, ec)"
    by (metis prod_cases3)
  note src = src_read [OF r] read_frame [OF r] read_when_stopped [OF _ r]
  from src(1) fill_reset [of data b] obtain b1
    where b1: "reset_with_new_length (length data) (fill_span data b) = Inr b1"
      "wf_span b1" "span_to_read b1 = data" "buffer_size b1 = buffer_size b" by blast
  have "data = [] \<Longrightarrow> read_refused ops s' ec"
    using r size by (auto simp: read_refused_def)
  then show ?thesis
    using True r b1 src
    by (cases ec) (auto simp: wait_for_data_ready_def wait_spec_def state_response_def span_to_write_def Let_def)
qed

end

end
