(* ===== verification/Processor_Contracts.thy ===== *)
theory Processor_Contracts
  imports Request_Processor State_Contracts
begin

text \<open>
  What the request processor promises for any socket and request handler that meet their
  contracts: its invariant, that every turn of its loop keeps it, that the loop ends, and
  what it answers.
\<close>

section \<open>Invariant\<close>

text \<open>
  Between calls the direction is that of the state, both windows are well-formed and have
  the size they were made with, and the state object is fit for the session: a header
  being read has a parser that satisfies its invariant and some of its budget left; once a
  response is being written, the handler is responding and the response is well-formed.
\<close>

definition wf_response_info :: "response_info \<Rightarrow> bool" where
  "wf_response_info response \<longleftrightarrow> wf_response_fields (resp_fields (rsp_header response))"

definition state_inv ::
  "('h \<Rightarrow> bool) \<Rightarrow> request_state \<Rightarrow> buffer_span \<Rightarrow> ('s, 'h) session \<Rightarrow> bool" where
  "state_inv h_responding st send_span ses \<longleftrightarrow>
     (case st of
        Read_request_header rd \<Rightarrow> parser_inv (m_req_header_parser rd) \<and> 0 < m_bytes_to_read rd
      | Read_request_body n \<Rightarrow> True
      | Write_response_header ser \<Rightarrow> serializer_inv ser
          \<and> length (span_to_read send_span @ serializer_rest ser) < 2 ^ 64 - 1
          \<and> h_responding (request_handler ses) \<and> wf_response_info (s_response_info ses)
      | Write_response_body n \<Rightarrow> h_responding (request_handler ses)
      | Wait_for_data \<Rightarrow> True)"

definition proc_base :: "('h \<Rightarrow> bool) \<Rightarrow> ('s, 'h) request_processor \<Rightarrow> bool" where
  "proc_base h_inv proc \<longleftrightarrow>
     snd (m_state proc) = select_io_direction (fst (m_state proc))
     \<and> wf_span (m_recv_span proc) \<and> buffer_size (m_recv_span proc) = processor_buffer_size
     \<and> wf_span (m_send_span proc) \<and> buffer_size (m_send_span proc) = processor_buffer_size
     \<and> h_inv (request_handler (m_session proc))"

definition proc_inv ::
  "('h \<Rightarrow> bool) \<Rightarrow> ('h \<Rightarrow> bool) \<Rightarrow> ('s, 'h) request_processor \<Rightarrow> bool" where
  "proc_inv h_inv h_responding proc \<longleftrightarrow>
     proc_base h_inv proc \<and> state_inv h_responding (fst (m_state proc)) (m_send_span proc) (m_session proc)"

lemma read_request_header_init_simps [simp]:
  "m_req_header_parser (read_request_header_init n) = request_header_parser_init"
  "m_bytes_to_read (read_request_header_init n) = n"
  by (simp_all add: read_request_header_init_def)

lemma proc_inv_init:
  "h_inv req_handler \<Longrightarrow> proc_inv h_inv h_responding (request_processor_init conn req_handler)"
  by (simp add: proc_inv_def proc_base_def state_inv_def request_processor_init_def
      parser_inv_init max_header_size_default_def)

text \<open>The text of a response header of the processor is not longer than the loop can count.\<close>

lemma std_to_string_le: "length (std_to_string n) \<le> Suc n"
proof (induction n rule: std_to_string.induct)
  case (1 n)
  show ?case
  proof (cases "n < 10")
    case False
    with 1 have "length (std_to_string (n div 10)) \<le> Suc (n div 10)" by simp
    with False show ?thesis by (simp add: std_to_string.simps [of n])
  qed (simp add: std_to_string.simps [of n])
qed

lemma status_to_string_length: "length (status_to_string st) \<le> 50"
  by (cases st) simp_all

lemma response_text_length:
  assumes "wf_response_fields flds"
  shows "length (response_text \<lparr>resp_status_line = \<lparr>sl_http_version = mk_version 1 1,
      sl_status_code = st, sl_reason_phrase = status_to_string st\<rparr>, resp_fields = flds\<rparr>) < 2 ^ 63"
proof -
  have "nat (status_value st) < 600" using status_value_bounds [of st] by linarith
  with std_to_string_le [of "nat (status_value st)"]
  have "length (std_to_string (nat (status_value st))) \<le> 600" by simp
  moreover note status_to_string_length [of st] std_to_string_le [of "unat (minor (mk_version 1 1))"]
    std_to_string_le [of "unat (major (mk_version 1 1))"]
  ultimately show ?thesis
    using assms
    by (simp add: response_text_def status_line_text_def version_to_string_def wf_response_fields_def)
qed

lemma send_span_room:
  assumes "wf_span b" and "buffer_size b = processor_buffer_size" and "length s < 2 ^ 63"
  shows "length (span_to_read b @ s) < 2 ^ 64 - 1"
  using assms length_span_le [of b] by (simp add: processor_buffer_size_def)

section \<open>A turn of the loop\<close>

text \<open>
  The bytes a processor may still read: those in its receive window and those the
  connection will return. Every turn that goes on makes the weight smaller: a state hands
  over to a later one, and the way back to the first, from waiting to reading a header,
  is taken only with bytes in the window, of which the parser takes at least one.
\<close>

definition pending_bytes :: "('s \<Rightarrow> string) \<Rightarrow> ('s, 'h) request_processor \<Rightarrow> nat" where
  "pending_bytes incoming proc =
     length (span_to_read (m_recv_span proc)) + length (incoming (connection (m_session proc)))"

definition proc_weight :: "('s \<Rightarrow> string) \<Rightarrow> ('s, 'h) request_processor \<Rightarrow> nat" where
  "proc_weight incoming proc =
     (case fst (m_state proc) of
        Read_request_header _ \<Rightarrow>
          if span_to_read (m_recv_span proc) = [] then 6 * pending_bytes incoming proc + 5
          else 6 * pending_bytes incoming proc - 1
      | Read_request_body _ \<Rightarrow> 6 * pending_bytes incoming proc + 3
      | Write_response_header _ \<Rightarrow> 6 * pending_bytes incoming proc + 2
      | Write_response_body _ \<Rightarrow> 6 * pending_bytes incoming proc + 1
      | Wait_for_data \<Rightarrow> 6 * pending_bytes incoming proc)"

lemmas visit_defs = visit_state_def visit_result_def processor_buffer_def store_visit_def
  select_buffer_index_def Let_def

lemma store_visit_simps [simp]:
  "m_session (store_visit proc st b ses) = ses"
  "fst (m_state (store_visit proc st b ses)) = st"
  "select_io_direction (fst (m_state proc)) = Io_input \<Longrightarrow> m_recv_span (store_visit proc st b ses) = b"
  "select_io_direction (fst (m_state proc)) = Io_input \<Longrightarrow>
     m_send_span (store_visit proc st b ses) = m_send_span proc"
  "select_io_direction (fst (m_state proc)) = Io_output \<Longrightarrow> m_send_span (store_visit proc st b ses) = b"
  "select_io_direction (fst (m_state proc)) = Io_output \<Longrightarrow>
     m_recv_span (store_visit proc st b ses) = m_recv_span proc"
  by (simp_all add: store_visit_def select_buffer_index_def Let_def)

lemma make_read_response_status:
  "st_status (make_read_response res msg) = State_more_data_needed
   \<or> st_status (make_read_response res msg) = State_io_error
   \<or> st_status (make_read_response res msg) = Client_error_detected
     \<and> error_message (st_result (make_read_response res msg)) \<noteq> None"
  by (cases res) (simp_all add: make_read_response_def make_unique_cstr_def Let_def)

lemma make_write_response_status:
  "st_status (make_write_response res) \<in> {State_more_data_needed, State_io_error, Connection_closed}"
  by (cases res) (simp_all add: make_write_response_def)

text \<open>The header of the response to a connection found idle, with the fields of the handler.\<close>

abbreviation idle_response :: "field_map \<Rightarrow> response_header" where
  "idle_response flds \<equiv>
     \<lparr>resp_status_line = \<lparr>sl_http_version = mk_version 1 1, sl_status_code = Request_timeout,
        sl_reason_phrase = status_to_string Request_timeout\<rparr>,
      resp_fields = flds\<rparr>"

context session_io
begin

definition good_visit ::
  "('s, 'h) request_processor \<Rightarrow>
   (('s, 'h) request_processor \<times> session_state_response) faulty \<Rightarrow> bool" where
  "good_visit proc r \<longleftrightarrow>
     (case r of
        Inl e \<Rightarrow> thrown e
      | Inr (proc', resp) \<Rightarrow> proc_base h_inv proc'
          \<and> (case st_status resp of
               State_completed \<Rightarrow>
                 (\<exists>st. make_state_handler (fst (m_state proc')) (s_request_info (m_session proc'))
                      (s_response_info (m_session proc')) = Inr st
                    \<and> proc_inv h_inv h_responding (proc'\<lparr>m_state := st\<rparr>)
                    \<and> proc_weight incoming (proc'\<lparr>m_state := st\<rparr>) < proc_weight incoming proc)
             | Client_error_detected \<Rightarrow> error_message (st_result resp) \<noteq> None
                 \<and> 6 * length (span_to_read (m_recv_span proc')) + 2 < proc_weight incoming proc
             | State_more_data_needed \<Rightarrow> proc_inv h_inv h_responding proc'
             | _ \<Rightarrow> True))"

lemma header_read_progress:
  assumes spec: "header_read_spec ops incoming sent read_stopped hops rd b ses rd' b' ses' resp"
    and p: "parser_inv (m_req_header_parser rd)" and h: "h_inv (request_handler ses)"
    and budget: "0 < m_bytes_to_read rd"
  shows "\<exists>m. length (span_to_read b') + length (incoming (connection ses')) + m
      = length (span_to_read b) + length (incoming (connection ses))
    \<and> (span_to_read b \<noteq> [] \<longrightarrow> 0 < m)"
    and "st_status resp = State_completed
      \<or> st_status resp = Client_error_detected \<and> error_message (st_result resp) \<noteq> None
      \<or> st_status resp = State_more_data_needed \<and> 0 < m_bytes_to_read rd'
          \<and> parser_inv (m_req_header_parser rd')
      \<or> st_status resp = State_io_error"
proof -
  from spec obtain moved got ec where mv: "span_to_read b @ got = moved @ span_to_read b'"
      "incoming (connection ses) = got @ incoming (connection ses')"
    and ps: "parse (m_req_header_parser rd) moved = Inr (m_req_header_parser rd', [], ec)"
    and n: "m_bytes_to_read rd' = m_bytes_to_read rd - length moved"
    and ans: "if ec = Completed then
               header_completed hops (ses\<lparr>connection := connection ses'\<rparr>)
                 (take_result (m_req_header_parser rd')) = Inr (ses', resp)
             else ses' = ses\<lparr>connection := connection ses'\<rparr>
               \<and> (if ec \<noteq> More_data_needed then
                    resp = state_response Client_error_detected Bad_request
                      (make_unique_cstr (req_header_parser_error_code_to_string ec))
                  else if m_bytes_to_read rd' = 0 then
                    resp = state_response Client_error_detected Request_entity_too_large
                      (make_unique_cstr ''Header truncated'')
                  else span_to_read b' = []
                    \<and> (\<exists>res. resp = make_read_response res ''Header truncated''
                        \<and> read_refused ops (connection ses') res))"
    unfolding header_read_spec_eq by blast
  have "length (span_to_read b) + length got = length moved + length (span_to_read b')"
    using arg_cong [OF mv(1), of length] by simp
  moreover have "0 < length moved" if "span_to_read b \<noteq> []"
  proof (rule ccontr)
    assume "\<not> 0 < length moved"
    with ps n ans mv(1) budget that show False by simp
  qed
  ultimately show "\<exists>m. length (span_to_read b') + length (incoming (connection ses')) + m
      = length (span_to_read b) + length (incoming (connection ses))
    \<and> (span_to_read b \<noteq> [] \<longrightarrow> 0 < m)"
    using mv(2) by (intro exI [of _ "length moved"]) simp
  from parse_inv_total [OF p, of moved] ps
  have inv: "ec = More_data_needed \<longrightarrow> parser_inv (m_req_header_parser rd')"
    and wf: "ec = Completed \<longrightarrow> wf_request_header (take_result (m_req_header_parser rd'))"
    by (auto simp: take_result_def)
  show "st_status resp = State_completed
      \<or> st_status resp = Client_error_detected \<and> error_message (st_result resp) \<noteq> None
      \<or> st_status resp = State_more_data_needed \<and> 0 < m_bytes_to_read rd'
          \<and> parser_inv (m_req_header_parser rd')
      \<or> st_status resp = State_io_error"
  proof (cases "ec = Completed")
    case True
    with header_completed_ok [of "ses\<lparr>connection := connection ses'\<rparr>" "take_result (m_req_header_parser rd')"]
      wf h ans show ?thesis by auto
  next
    case False
    with ans inv consider "error_message (st_result resp) \<noteq> None" "st_status resp = Client_error_detected"
      | res where "resp = make_read_response res ''Header truncated''" "0 < m_bytes_to_read rd'"
          "parser_inv (m_req_header_parser rd')"
      by (auto simp: make_unique_cstr_def Let_def split: if_splits)
    then show ?thesis
    proof cases
      case (2 res)
      with make_read_response_status [of res "''Header truncated''"] show ?thesis by auto
    qed auto
  qed
qed

lemma good_visit_header:
  assumes inv: "proc_inv h_inv h_responding proc" and st: "fst (m_state proc) = Read_request_header rd"
  shows "\<exists>r. visit_state ops hops proc = Some r \<and> good_visit proc r"
proof -
  let ?b = "m_recv_span proc" and ?ses = "m_session proc"
  from inv have base: "proc_base h_inv proc" and budget: "0 < m_bytes_to_read rd"
    and pre: "parser_inv (m_req_header_parser rd)" "wf_span ?b" "h_inv (request_handler ?ses)"
      "0 < buffer_size ?b"
    by (simp_all add: proc_inv_def proc_base_def state_inv_def st processor_buffer_size_def)
  from read_request_header_outcome [OF pre] obtain r where
    r: "read_request_header_ready ops hops rd ?b ?ses = Some r"
    and post: "case r of Inl e \<Rightarrow> thrown e \<and> header_read_fault incoming hops rd ?b ?ses e
       | Inr (st', b', ses', resp) \<Rightarrow> wf_span b' \<and> buffer_size b' = buffer_size ?b
           \<and> h_inv (request_handler ses')
           \<and> header_read_spec ops incoming sent read_stopped hops rd ?b ?ses st' b' ses' resp" by blast
  have visit: "visit_state ops hops proc = visit_result proc Read_request_header (Some r)"
    by (simp add: visit_defs st r)
  show ?thesis
  proof (cases r)
    case (Inl e)
    with post show ?thesis by (simp add: visit visit_result_def good_visit_def)
  next
    case (Inr t)
    obtain rd' b' ses' resp where t: "t = (rd', b', ses', resp)" by (cases t)
    from post have ok: "wf_span b'" "buffer_size b' = buffer_size ?b" "h_inv (request_handler ses')"
      and spec: "header_read_spec ops incoming sent read_stopped hops rd ?b ?ses rd' b' ses' resp"
      by (simp_all add: Inr t)
    note progress = header_read_progress [OF spec pre(1,3) budget]
    have "proc_base h_inv (store_visit proc (Read_request_header rd') b' ses')"
      using base ok by (simp add: proc_base_def store_visit_def select_buffer_index_def st Let_def)
    moreover note progress
    ultimately show ?thesis
      by (auto simp: visit visit_result_def Inr t good_visit_def proc_inv_def state_inv_def
          make_state_handler_def proc_weight_def pending_bytes_def store_visit_def
          select_buffer_index_def st Let_def proc_base_def)
  qed
qed

lemma body_read_progress:
  assumes spec: "body_read_spec ops incoming sent read_stopped hops n b ses n' b' ses' resp"
    and h: "h_inv (request_handler ses)"
  shows "length (span_to_read b') + length (incoming (connection ses'))
      \<le> length (span_to_read b) + length (incoming (connection ses))"
    and "st_status resp = State_completed \<and> h_responding (request_handler ses')
          \<and> wf_response_info (s_response_info ses')
          \<and> length (response_text (rsp_header (s_response_info ses'))) < 2 ^ 63
      \<or> st_status resp = Client_error_detected \<and> error_message (st_result resp) \<noteq> None
      \<or> st_status resp = State_more_data_needed
      \<or> st_status resp = State_io_error"
proof -
  from spec obtain moved got rest h1 stop where mv: "span_to_read b @ got = moved @ rest"
      "incoming (connection ses) = got @ incoming (connection ses')"
    and fed: "content_fed hops (request_handler ses) moved h1 stop"
    and ans: "let ses1 = ses\<lparr>connection := connection ses', request_handler := h1\<rparr> in
       case stop of
         Some ec \<Rightarrow> same_request ses ses' \<and> request_handler ses' = h1
           \<and> (if ec_can_continue hops ec \<and> n' \<noteq> 0
              then span_to_read b' = rest \<and> resp = state_response State_more_data_needed Ok None
              else span_to_read b' = []
                \<and> resp = state_response Client_error_detected Bad_request
                    (make_unique_cstr (ec_to_string hops ec)))
       | None \<Rightarrow> span_to_read b' = rest
           \<and> (if n' = 0 then body_completed hops ses1 = Inr (ses', resp)
              else rest = [] \<and> same_request ses ses' \<and> request_handler ses' = h1
                \<and> (\<exists>res. resp = make_read_response res ''Client claims there is more data to read''
                    \<and> read_refused ops (connection ses') res))"
    unfolding body_read_spec_eq by blast
  have "length (span_to_read b') \<le> length rest"
    using ans by (auto simp: Let_def split: option.splits if_splits)
  moreover have "length (span_to_read b) + length got = length moved + length rest"
    using arg_cong [OF mv(1), of length] by simp
  ultimately show "length (span_to_read b') + length (incoming (connection ses'))
      \<le> length (span_to_read b) + length (incoming (connection ses))"
    using mv(2) by simp
  have h1: "h_inv h1" by (rule content_fed_inv [OF fed h])
  consider "error_message (st_result resp) \<noteq> None" "st_status resp = Client_error_detected"
    | "st_status resp = State_more_data_needed"
    | res where "resp = make_read_response res ''Client claims there is more data to read''"
    | "body_completed hops (ses\<lparr>connection := connection ses', request_handler := h1\<rparr>) = Inr (ses', resp)"
    using ans by (auto simp: Let_def make_unique_cstr_def split: option.splits if_splits)
  then show "st_status resp = State_completed \<and> h_responding (request_handler ses')
          \<and> wf_response_info (s_response_info ses')
          \<and> length (response_text (rsp_header (s_response_info ses'))) < 2 ^ 63
      \<or> st_status resp = Client_error_detected \<and> error_message (st_result resp) \<noteq> None
      \<or> st_status resp = State_more_data_needed
      \<or> st_status resp = State_io_error"
  proof cases
    case (3 res)
    with make_read_response_status [of res "''Client claims there is more data to read''"]
    show ?thesis by auto
  next
    case 4
    with body_completed_ok [of "ses\<lparr>connection := connection ses', request_handler := h1\<rparr>"] h1
    obtain st flds where "rsp_header (s_response_info ses') =
        \<lparr>resp_status_line = \<lparr>sl_http_version = mk_version 1 1, sl_status_code = st,
           sl_reason_phrase = status_to_string st\<rparr>, resp_fields = flds\<rparr>"
      "wf_response_fields flds" "h_responding (request_handler ses')"
      "st_status resp = State_completed
       \<or> st_status resp = Client_error_detected \<and> error_message (st_result resp) \<noteq> None"
      by auto
    with response_text_length [of flds st] show ?thesis by (auto simp: wf_response_info_def)
  qed auto
qed

lemma good_visit_body:
  assumes inv: "proc_inv h_inv h_responding proc" and st: "fst (m_state proc) = Read_request_body n"
  shows "\<exists>r. visit_state ops hops proc = Some r \<and> good_visit proc r"
proof -
  let ?b = "m_recv_span proc" and ?ses = "m_session proc"
  from inv have base: "proc_base h_inv proc" and pre: "wf_span ?b" "h_inv (request_handler ?ses)"
      "0 < buffer_size ?b"
    by (simp_all add: proc_inv_def proc_base_def processor_buffer_size_def)
  from read_request_body_outcome [OF pre] obtain r where
    r: "read_request_body_ready ops hops n ?b ?ses = Some r"
    and post: "case r of Inl e \<Rightarrow> thrown e \<and> body_read_fault incoming hops n ?b ?ses e
       | Inr (n', b', ses', resp) \<Rightarrow> wf_span b' \<and> buffer_size b' = buffer_size ?b
           \<and> h_inv (request_handler ses')
           \<and> body_read_spec ops incoming sent read_stopped hops n ?b ?ses n' b' ses' resp" by blast
  have visit: "visit_state ops hops proc = visit_result proc Read_request_body (Some r)"
    by (simp add: visit_defs st r)
  show ?thesis
  proof (cases r)
    case (Inl e)
    with post show ?thesis by (simp add: visit visit_result_def good_visit_def)
  next
    case (Inr t)
    obtain n' b' ses' resp where t: "t = (n', b', ses', resp)" by (cases t)
    from post have ok: "wf_span b'" "buffer_size b' = buffer_size ?b" "h_inv (request_handler ses')"
      and spec: "body_read_spec ops incoming sent read_stopped hops n ?b ?ses n' b' ses' resp"
      by (simp_all add: Inr t)
    note progress = body_read_progress [OF spec pre(2)]
    have base': "proc_base h_inv (store_visit proc (Read_request_body n') b' ses')"
      using base ok by (simp add: proc_base_def store_visit_def select_buffer_index_def st Let_def)
    have "wf_span (m_send_span proc)" "buffer_size (m_send_span proc) = processor_buffer_size"
      using base by (simp_all add: proc_base_def)
    note room = send_span_room [OF this]
    from progress(2) consider (completed) "st_status resp = State_completed"
        "h_responding (request_handler ses')" "wf_response_info (s_response_info ses')"
        "length (span_to_read (m_send_span proc) @ response_text (rsp_header (s_response_info ses'))) < 2 ^ 64 - 1"
      | (other) "st_status resp = Client_error_detected \<and> error_message (st_result resp) \<noteq> None
          \<or> st_status resp = State_more_data_needed \<or> st_status resp = State_io_error"
      using room [of "response_text (rsp_header (s_response_info ses'))"] by blast
    then show ?thesis
      using base' progress(1)
      by cases (auto simp: visit visit_result_def Inr t good_visit_def proc_inv_def state_inv_def
          make_state_handler_def proc_weight_def pending_bytes_def store_visit_def
          select_buffer_index_def st Let_def proc_base_def)
  qed
qed

lemma make_write_response_body_ok:
  "wf_response_info response \<Longrightarrow> \<exists>n. make_write_response_body response = Inr (Write_response_body n)"
  by (auto simp: make_write_response_body_def wf_response_info_def wf_response_fields_def
      get_content_length_def split: option.splits)

lemma good_visit_response_header:
  assumes inv: "proc_inv h_inv h_responding proc" and st: "fst (m_state proc) = Write_response_header ser"
  shows "\<exists>r. visit_state ops hops proc = Some r \<and> good_visit proc r"
proof -
  let ?b = "m_send_span proc" and ?ses = "m_session proc"
  from inv have base: "proc_base h_inv proc" and ser: "serializer_inv ser" "wf_span ?b"
    and size: "buffer_size ?b = processor_buffer_size"
    and room: "length (span_to_read ?b @ serializer_rest ser) < 2 ^ 64 - 1"
    and resp: "h_responding (request_handler ?ses)" "wf_response_info (s_response_info ?ses)"
    by (simp_all add: proc_inv_def proc_base_def state_inv_def st)
  from write_response_header_outcome [OF ser _ room, of ?ses]
  obtain ser' b' ses' resp where
    r: "write_response_header_ready ops ser ?b ?ses = Some (Inr (ser', b', ses', resp))"
    and ok: "wf_span b'" "buffer_size b' = buffer_size ?b" "serializer_inv ser'"
    and spec: "header_write_spec ops incoming sent read_stopped ser ?b ?ses ser' b' ses' resp"
    by (auto simp: size processor_buffer_size_def)
  have visit: "visit_state ops hops proc =
      Some (Inr (store_visit proc (Write_response_header ser') b' ses', resp))"
    by (simp add: visit_state_def visit_result_def processor_buffer_def select_buffer_index_def st r Let_def)
  from spec obtain s1 where ses': "ses' = ?ses\<lparr>connection := s1\<rparr>"
    and inc: "incoming s1 = incoming (connection ?ses)"
    unfolding header_write_spec_def by (metis session.select_convs(1) session.surjective session.update_convs(1))
  from spec obtain moved where
    "span_to_read ?b @ serializer_rest ser = moved @ span_to_read b' @ serializer_rest ser'"
    unfolding header_write_spec_def by blast
  from arg_cong [OF this, of length] room
  have room': "length (span_to_read b' @ serializer_rest ser') < 2 ^ 64 - 1" by simp
  have status: "st_status resp = State_completed
      \<or> st_status resp \<in> {State_more_data_needed, State_io_error, Connection_closed}"
    using spec make_write_response_status unfolding header_write_spec_def by (auto split: if_splits)
  show ?thesis
    using base ok room' inc status resp make_write_response_body_ok [OF resp(2)]
    by (auto simp: visit good_visit_def proc_inv_def state_inv_def ses'
          make_state_handler_def proc_weight_def pending_bytes_def store_visit_def
          select_buffer_index_def st Let_def proc_base_def)
qed

lemma good_visit_response_body:
  assumes inv: "proc_inv h_inv h_responding proc" and st: "fst (m_state proc) = Write_response_body n"
  shows "\<exists>r. visit_state ops hops proc = Some r \<and> good_visit proc r"
proof -
  let ?b = "m_send_span proc" and ?ses = "m_session proc"
  from inv have base: "proc_base h_inv proc" and pre: "h_responding (request_handler ?ses)" "wf_span ?b"
    by (simp_all add: proc_inv_def proc_base_def state_inv_def st)
  from write_response_body_outcome [OF pre] obtain r where
    r: "write_response_body_ready ops hops n ?b ?ses = Some r"
    and post: "case r of Inl e \<Rightarrow> thrown e \<and> body_write_fault hops ?ses e
       | Inr (n', b', ses', resp) \<Rightarrow> wf_span b' \<and> buffer_size b' = buffer_size ?b
           \<and> h_responding (request_handler ses')
           \<and> body_write_spec ops incoming sent read_stopped h_responding hops n ?b ?ses n' b' ses' resp" by blast
  have visit: "visit_state ops hops proc = visit_result proc Write_response_body (Some r)"
    by (simp add: visit_defs st r)
  show ?thesis
  proof (cases r)
    case (Inl e)
    with post show ?thesis by (simp add: visit visit_result_def good_visit_def)
  next
    case (Inr t)
    obtain n' b' ses' resp where t: "t = (n', b', ses', resp)" by (cases t)
    from post have ok: "wf_span b'" "buffer_size b' = buffer_size ?b" "h_responding (request_handler ses')"
      and spec: "body_write_spec ops incoming sent read_stopped h_responding hops n ?b ?ses n' b' ses' resp"
      by (simp_all add: Inr t)
    from spec have inc: "incoming (connection ses') = incoming (connection ?ses)"
      and status: "st_status resp = State_completed
        \<or> st_status resp \<in> {State_more_data_needed, State_io_error, Connection_closed, Write_response_failed}"
      using make_write_response_status unfolding body_write_spec_def
      by (auto simp: map_response_body_exit_def Let_def split: if_splits)
    show ?thesis
      using base ok inc status h_responding_inv [OF ok(3)]
      by (auto simp: visit visit_result_def Inr t good_visit_def proc_inv_def state_inv_def
          make_state_handler_def proc_weight_def pending_bytes_def store_visit_def
          select_buffer_index_def st Let_def proc_base_def)
  qed
qed

lemma good_visit_wait:
  assumes inv: "proc_inv h_inv h_responding proc" and st: "fst (m_state proc) = Wait_for_data"
  shows "\<exists>r. visit_state ops hops proc = Some r \<and> good_visit proc r"
proof -
  let ?b = "m_recv_span proc" and ?ses = "m_session proc"
  from inv have base: "proc_base h_inv proc" and b: "wf_span ?b" "0 < buffer_size ?b"
    by (simp_all add: proc_inv_def proc_base_def processor_buffer_size_def)
  from wait_for_data_outcome [OF b] obtain b' ses' resp where
    r: "wait_for_data_ready ops ?b ?ses = Inr (b', ses', resp)"
    and ok: "wf_span b'" "buffer_size b' = buffer_size ?b"
    and spec: "wait_spec ops incoming sent read_stopped ?b ?ses b' ses' resp" by blast
  have visit: "visit_state ops hops proc = Some (Inr (store_visit proc Wait_for_data b' ses', resp))"
    by (simp add: visit_state_def visit_result_def processor_buffer_def select_buffer_index_def st r Let_def)
  from spec obtain s1 where ses': "ses' = ?ses\<lparr>connection := s1\<rparr>"
    and all: "span_to_read ?b @ incoming (connection ?ses) = span_to_read b' @ incoming s1"
    unfolding wait_spec_def by (metis session.select_convs(1) session.surjective session.update_convs(1))
  have len: "length (span_to_read b') + length (incoming s1) = pending_bytes incoming proc"
    using arg_cong [OF all, of length] by (simp add: pending_bytes_def)
  have status: "st_status resp = State_completed \<and> span_to_read b' \<noteq> []
      \<or> st_status resp \<in> {State_more_data_needed, Connection_closed}"
    using spec unfolding wait_spec_def by (auto split: session_state_status.splits)
  show ?thesis
    using base ok len status
    by (auto simp: visit good_visit_def proc_inv_def state_inv_def ses'
          make_state_handler_def proc_weight_def pending_bytes_def store_visit_def
          select_buffer_index_def st Let_def proc_base_def parser_inv_init max_header_size_default_def)
      (cases "span_to_read b'"; simp)
qed

lemma good_visit:
  assumes "proc_inv h_inv h_responding proc"
  shows "\<exists>r. visit_state ops hops proc = Some r \<and> good_visit proc r"
  using good_visit_header [OF assms] good_visit_body [OF assms] good_visit_response_header [OF assms]
    good_visit_response_body [OF assms] good_visit_wait [OF assms]
  by (cases "fst (m_state proc)") blast+

text \<open>Answering with an error: reading has stopped and the response has the status asked for.\<close>

lemma respond_with_error_ok:
  assumes base: "proc_base h_inv proc" and msg: "error_message res \<noteq> None"
  shows "case respond_with_error ops hops res proc of Inl e \<Rightarrow> thrown e
     | Inr proc' \<Rightarrow> proc_inv h_inv h_responding proc'
         \<and> m_recv_span proc' = m_recv_span proc \<and> m_send_span proc' = m_send_span proc
         \<and> read_stopped (connection (m_session proc'))
         \<and> proc_weight incoming proc' = 6 * length (span_to_read (m_recv_span proc)) + 2
         \<and> sent (connection (m_session proc')) = sent (connection (m_session proc))
         \<and> (\<exists>flds. wf_response_fields flds
              \<and> rsp_header (s_response_info (m_session proc')) =
                  \<lparr>resp_status_line = \<lparr>sl_http_version = mk_version 1 1,
                     sl_status_code = http_status res,
                     sl_reason_phrase = status_to_string (http_status res)\<rparr>, resp_fields = flds\<rparr>
              \<and> m_state proc' = (Write_response_header
                  (response_header_serializer_init (rsp_header (s_response_info (m_session proc')))),
                  Io_output))"
proof -
  have h: "h_inv (request_handler (m_session proc))"
    and send: "wf_span (m_send_span proc)" "buffer_size (m_send_span proc) = processor_buffer_size"
    using base by (simp_all add: proc_base_def)
  note fin = h_error [OF h msg]
  show ?thesis
  proof (cases "finalize_error hops (request_handler (m_session proc)) [] res")
    case (Inl e)
    with fin show ?thesis
      by (simp add: respond_with_error_def Let_def response_info_default_def)
  next
    case (Inr r)
    obtain h' flds where r: "r = (h', flds)" by (cases r)
    from fin have ok: "h_responding h'" "wf_response_fields flds" by (simp_all add: Inr r)
    from send_span_room [OF send response_text_length [OF ok(2)]] base ok stop_reading
      h_responding_inv [OF ok(1)] Inr r
    show ?thesis
      by (simp add: respond_with_error_def Let_def response_info_default_def proc_inv_def
          proc_base_def state_inv_def wf_response_info_def proc_weight_def pending_bytes_def)
  qed
qed

lemma processor_turn_ok:
  assumes "proc_inv h_inv h_responding proc"
  shows "\<exists>r. processor_turn ops hops proc = Some r
    \<and> (case r of
         Inl e \<Rightarrow> thrown e
       | Inr (proc', None) \<Rightarrow> proc_inv h_inv h_responding proc'
           \<and> proc_weight incoming proc' < proc_weight incoming proc
       | Inr (proc', Some res) \<Rightarrow> proc_base h_inv proc'
           \<and> pr_io_dir res = select_io_direction (fst (m_state proc'))
           \<and> (pr_status res = Proc_more_data_needed \<longrightarrow> proc_inv h_inv h_responding proc'))"
proof -
  from good_visit [OF assms] obtain r where v: "visit_state ops hops proc = Some r"
    and good: "good_visit proc r" by blast
  show ?thesis
  proof (cases r)
    case (Inl e)
    with good v show ?thesis by (simp add: processor_turn_def good_visit_def)
  next
    case (Inr t)
    obtain proc1 resp where t: "t = (proc1, resp)" by (cases t)
    have base: "proc_base h_inv proc1" using good by (simp add: good_visit_def Inr t)
    have turn: "processor_turn ops hops proc = Some (after_visit ops hops proc1 resp)"
      by (simp add: processor_turn_def v Inr t)
    show ?thesis
    proof (cases "st_status resp = Client_error_detected")
      case True
      with good have msg: "error_message (st_result resp) \<noteq> None"
        and less: "6 * length (span_to_read (m_recv_span proc1)) + 2 < proc_weight incoming proc"
        by (simp_all add: good_visit_def Inr t)
      from respond_with_error_ok [OF base msg] less True show ?thesis
        by (cases "respond_with_error ops hops (st_result resp) proc1")
           (auto simp: turn after_visit_def Let_def)
    next
      case False
      with good base show ?thesis
        by (cases "st_status resp")
           (auto simp: turn after_visit_def Let_def good_visit_def Inr t proc_base_def)
    qed
  qed
qed

text \<open>The loop ends, whatever the socket and the handler do within their contracts.\<close>

lemma socket_is_ready_ok:
  assumes "proc_inv h_inv h_responding proc"
  shows "\<exists>r. socket_is_ready ops hops proc = Some r
    \<and> (case r of
         Inl e \<Rightarrow> thrown e
       | Inr (proc', res) \<Rightarrow> proc_base h_inv proc'
           \<and> pr_io_dir res = select_io_direction (fst (m_state proc'))
           \<and> (pr_status res = Proc_more_data_needed \<longrightarrow> proc_inv h_inv h_responding proc'))"
  using assms
proof (induction "proc_weight incoming proc" arbitrary: proc rule: less_induct)
  case less
  from processor_turn_ok [OF less.prems] obtain r where
    turn: "processor_turn ops hops proc = Some r"
    and post: "case r of
         Inl e \<Rightarrow> thrown e
       | Inr (proc', None) \<Rightarrow> proc_inv h_inv h_responding proc'
           \<and> proc_weight incoming proc' < proc_weight incoming proc
       | Inr (proc', Some res) \<Rightarrow> proc_base h_inv proc'
           \<and> pr_io_dir res = select_io_direction (fst (m_state proc'))
           \<and> (pr_status res = Proc_more_data_needed \<longrightarrow> proc_inv h_inv h_responding proc')"
    by blast
  show ?case
  proof (cases r)
    case (Inl e)
    with post show ?thesis by (simp add: socket_is_ready.simps [of ops hops proc] turn)
  next
    case (Inr t)
    then obtain proc1 out where t: "t = (proc1, out)" by (cases t)
    show ?thesis
    proof (cases out)
      case None
      with post have "proc_weight incoming proc1 < proc_weight incoming proc"
        and "proc_inv h_inv h_responding proc1" by (simp_all add: Inr t)
      from less.hyps [OF this] show ?thesis
        by (simp add: socket_is_ready.simps [of ops hops proc] turn Inr t None)
    next
      case (Some res)
      with post show ?thesis
        by (simp add: socket_is_ready.simps [of ops hops proc] turn Inr t)
    qed
  qed
qed

lemma socket_is_idle_ok:
  assumes "proc_inv h_inv h_responding proc"
  shows "case socket_is_idle ops hops proc of
      Inl e \<Rightarrow> thrown e
    | Inr (proc', res) \<Rightarrow> pr_io_dir res = select_io_direction (fst (m_state proc'))
        \<and> (if select_io_direction (fst (m_state proc)) = Io_input
           then pr_status res = Proc_more_data_needed \<and> proc_inv h_inv h_responding proc'
             \<and> pr_io_dir res = Io_output
             \<and> read_stopped (connection (m_session proc'))
             \<and> sent (connection (m_session proc')) = sent (connection (m_session proc))
             \<and> (\<exists>flds. wf_response_fields flds
                  \<and> rsp_header (s_response_info (m_session proc')) = idle_response flds
                  \<and> m_state proc' = (Write_response_header
                      (response_header_serializer_init (idle_response flds)), Io_output))
           else pr_status res = Proc_completed \<and> proc' = proc)"
proof -
  have base: "proc_base h_inv proc" using assms by (simp add: proc_inv_def)
  let ?res = "\<lparr>http_status = Request_timeout,
               error_message = make_unique_cstr (status_to_string Request_timeout)\<rparr>"
  have "error_message ?res \<noteq> None" by (simp add: make_unique_cstr_def Let_def)
  from respond_with_error_ok [OF base this] show ?thesis
    using base
    by (cases "respond_with_error ops hops ?res proc")
       (auto simp: socket_is_idle_def proc_base_def split: io_direction.splits)
qed

end

end
