(* ===== verification/Echo_Handler.thy ===== *)
theory Echo_Handler
  imports Session_States Inet_Connection
begin

text \<open>
  \<^verbatim>\<open>src/bin/http_echo.cpp\<close>: the request handler that answers a request with the
  request itself, and the handler of the control connection. The request handler meets
  \<open>handler_contract\<close>, so what is proved of the framework for any handler holds for the
  server program.
\<close>

section \<open>The request handler\<close>

text \<open>
  Its error code has the one value \<open>no_error\<close>. \<open>m_read_offset\<close> is an iterator into
  \<open>m_response_body\<close>, here an offset; it is \<open>None\<close> as long as it points nowhere, that is
  before it is first set and after the string was changed, and reading through it then is
  undefined. A string cannot grow beyond its \<open>max_size\<close>; growing it further throws.
\<close>

datatype request_handler_error_code = No_error

fun echo_can_continue :: "request_handler_error_code \<Rightarrow> bool" where
  "echo_can_continue No_error = True"

fun echo_is_error_indicator :: "request_handler_error_code \<Rightarrow> bool" where
  "echo_is_error_indicator No_error = False"

fun echo_to_string :: "request_handler_error_code \<Rightarrow> string" where
  "echo_to_string No_error = ''No error''"

record echo_http_request =
  m_error_message :: "string option"
  m_response_body :: string
  m_read_offset :: "nat option"

definition echo_http_request_init :: echo_http_request where
  "echo_http_request_init = \<lparr>m_error_message = None, m_response_body = [], m_read_offset = None\<rparr>"

definition string_max_size :: nat where
  "string_max_size = 2 ^ 62 - 1"

definition check_length :: "string \<Rightarrow> string faulty" where
  "check_length s =
     (if length s \<le> string_max_size then Inr s else Inl (Exception_thrown ''std::length_error''))"

definition echo_finalize_header ::
  "echo_http_request \<Rightarrow> request_header \<Rightarrow> (echo_http_request \<times> finalize_state_result) faulty" where
  "echo_finalize_header h header =
     and_then (check_length
       (method_value (rl_method (req_line header)) @ '' '' @ uri_value (rl_request_target (req_line header))
        @ '' '' @ ''HTTP/'' @ version_to_string (rl_http_version (req_line header)) @ CRLF
        @ concat (map (\<lambda>(k, v). name_value k @ '': '' @ v @ CRLF) (req_fields header))
        @ CRLF))
     (\<lambda>body. Inr (h\<lparr>m_response_body := body, m_read_offset := None\<rparr>,
        \<lparr>http_status = Ok, error_message = None\<rparr>))"

text \<open>The two fields of every response; each \<open>append\<close> could throw.\<close>

definition append_response_fields :: "string \<Rightarrow> field_map \<Rightarrow> field_map faulty" where
  "append_response_fields body flds =
     and_then (field_map_append_strings ''Content-Length'' (std_to_string (length body)) flds)
       (field_map_append_strings ''Content-Type'' ''text/plain'')"

definition echo_finalize_body ::
  "echo_http_request \<Rightarrow> field_map \<Rightarrow>
   (echo_http_request \<times> field_map \<times> finalize_state_result) faulty" where
  "echo_finalize_body h flds =
     and_then (append_response_fields (m_response_body h) flds) (\<lambda>flds1.
       Inr (h\<lparr>m_read_offset := Some 0\<rparr>, flds1, \<lparr>http_status = Ok, error_message = None\<rparr>))"

definition echo_finalize_error ::
  "echo_http_request \<Rightarrow> field_map \<Rightarrow> finalize_state_result \<Rightarrow>
   (echo_http_request \<times> field_map) faulty" where
  "echo_finalize_error h flds res =
     (case error_message res of
        None \<Rightarrow> Inl (Undefined_behaviour ''std::string from a null pointer'')
      | Some msg \<Rightarrow>
          and_then (check_length msg) (\<lambda>body.
            and_then (append_response_fields body flds) (\<lambda>flds1.
              Inr (h\<lparr>m_error_message := Some msg, m_response_body := body, m_read_offset := Some 0\<rparr>,
                   flds1))))"

definition echo_process_request_content ::
  "echo_http_request \<Rightarrow> string \<Rightarrow> nat \<Rightarrow>
   (echo_http_request \<times> nat \<times> request_handler_error_code) faulty" where
  "echo_process_request_content h buffer bytes_to_read =
     and_then (check_length (m_response_body h @ buffer)) (\<lambda>body.
       Inr (h\<lparr>m_response_body := body, m_read_offset := None\<rparr>, length buffer, No_error))"

definition echo_read_response_content ::
  "echo_http_request \<Rightarrow> nat \<Rightarrow>
   (echo_http_request \<times> string \<times> request_handler_error_code) faulty" where
  "echo_read_response_content h out_size =
     (case m_read_offset h of
        None \<Rightarrow> Inl (Undefined_behaviour ''read through an invalid iterator'')
      | Some offset \<Rightarrow>
          (let n_bytes_left = length (m_response_body h) - offset;
               bytes_to_read = min out_size n_bytes_left in
           Inr (h\<lparr>m_read_offset := Some (offset + bytes_to_read)\<rparr>,
                take bytes_to_read (drop offset (m_response_body h)), No_error)))"

definition echo_ops :: "(echo_http_request, request_handler_error_code) handler_ops" where
  "echo_ops =
     \<lparr>finalize_header = echo_finalize_header,
      process_request_content = echo_process_request_content,
      finalize_body = echo_finalize_body,
      finalize_error = echo_finalize_error,
      read_response_content = echo_read_response_content,
      ec_is_error_indicator = echo_is_error_indicator,
      ec_can_continue = echo_can_continue,
      ec_to_string = echo_to_string\<rparr>"

section \<open>The contract\<close>

definition echo_inv :: "echo_http_request \<Rightarrow> bool" where
  "echo_inv h \<longleftrightarrow> length (m_response_body h) \<le> string_max_size"

definition echo_responding :: "echo_http_request \<Rightarrow> bool" where
  "echo_responding h \<longleftrightarrow> echo_inv h \<and> m_read_offset h \<noteq> None"

lemma check_length_cases:
  "check_length s = Inr s' \<longleftrightarrow> s' = s \<and> length s \<le> string_max_size"
  "check_length s = Inl e \<Longrightarrow> thrown e"
  by (auto simp: check_length_def thrown_def split: if_splits)

lemma std_to_string_length_le:
  "n < 10 ^ Suc k \<Longrightarrow> length (std_to_string n) \<le> Suc k"
proof (induction k arbitrary: n)
  case (Suc k)
  show ?case
  proof (cases "n < 10")
    case False
    from Suc.prems have "n div 10 < 10 ^ Suc k" by (simp add: div_less_iff_less_mult mult.commute)
    from Suc.IH [OF this] False show ?thesis by (simp add: std_to_string.simps [of n])
  qed (simp add: std_to_string.simps [of n])
qed (simp add: std_to_string.simps)

lemma digit_value_char: "is_digit c \<Longrightarrow> \<not> is_not_printable c \<and> \<not> is_strict_whitespace c"
  by (auto simp: is_digit_def is_not_printable_iff is_strict_whitespace_def)

lemma wf_value_number: "wf_value (std_to_string n)"
  using std_to_string_digits [of n]
  by (auto simp: wf_value_def list_all_iff digit_value_char)

lemma response_field_names:
  "field_name_create ''Content-Length'' = Some (Field_name ''Content-Length'')"
  "field_name_create ''Content-Type'' = Some (Field_name ''Content-Type'')"
  "field_value_create ''text/plain'' = Some (Field_value ''text/plain'')"
  "wf_value ''text/plain''"
  "field_name_cmp_view (Field_name ''Content-Length'') ''Content-Length'' = Equal_to"
  "field_name_cmp_view (Field_name ''Content-Length'') ''Transfer-encoding'' \<noteq> Equal_to"
  "field_name_cmp_view (Field_name ''Content-Type'') ''Transfer-encoding'' \<noteq> Equal_to"
  "field_name_cmp (Field_name ''Content-Type'') (Field_name ''Content-Length'') = Greater_than"
  by code_simp+

lemma append_response_fields_empty:
  "append_response_fields body [] =
     Inr [(Field_name ''Content-Length'', std_to_string (length body)),
          (Field_name ''Content-Type'', ''text/plain'')]"
  using wf_value_number [of "length body"]
  by (simp add: append_response_fields_def field_map_append_strings_def response_field_names
      field_value_create_eq field_map_append_def)

lemma append_response_fields_ok:
  assumes "length body \<le> string_max_size"
  shows "\<exists>flds. append_response_fields body [] = Inr flds \<and> wf_response_fields flds
    \<and> get_content_length flds = Some (length body)"
proof -
  let ?flds = "[(Field_name ''Content-Length'', std_to_string (length body)),
          (Field_name ''Content-Type'', ''text/plain'')]"
  have "wf_fields ?flds"
    using wf_value_number [of "length body"] response_field_names
    by (simp add: wf_fields_def field_name_create_def field_order.cmp_swap split: if_splits)
  moreover have find: "field_map_find ''Content-Length'' ?flds = Some (std_to_string (length body))"
    "field_map_find ''Transfer-encoding'' ?flds = None"
    by (simp_all add: field_map_find_def response_field_names)
  moreover have "length (std_to_string (length body)) \<le> 20"
    using assms std_to_string_length_le [of "length body" 19] by (simp add: string_max_size_def)
  ultimately show ?thesis
    using assms
    by (simp add: append_response_fields_empty wf_response_fields_def get_content_length_def
        field_map_contains_def to_number_digits string_max_size_def)
qed

interpretation echo: handler_contract echo_ops echo_inv echo_responding
proof unfold_locales
  fix h hdr
  show "case finalize_header echo_ops h hdr of Inl e \<Rightarrow> thrown e
     | Inr (h', res) \<Rightarrow> echo_inv h' \<and> (is_error (http_status res) \<longrightarrow> error_message res \<noteq> None)"
    by (auto simp: echo_ops_def echo_finalize_header_def and_then_def echo_inv_def is_error_def
        is_client_error_def check_length_cases split: sum.splits)
next
  fix h bytes n
  show "case process_request_content echo_ops h bytes n of Inl e \<Rightarrow> thrown e
     | Inr (h', k, ec) \<Rightarrow> k \<le> length bytes \<and> echo_inv h'"
    by (auto simp: echo_ops_def echo_process_request_content_def and_then_def echo_inv_def
        check_length_cases split: sum.splits)
next
  fix h
  assume "echo_inv h"
  with append_response_fields_ok [of "m_response_body h"]
  show "case finalize_body echo_ops h [] of Inl e \<Rightarrow> thrown e
     | Inr (h', m, res) \<Rightarrow> echo_responding h' \<and> wf_response_fields m
         \<and> (is_error (http_status res) \<longrightarrow> error_message res \<noteq> None)"
    by (auto simp: echo_ops_def echo_finalize_body_def echo_inv_def echo_responding_def is_error_def)
next
  fix h and res :: finalize_state_result
  assume "error_message res \<noteq> None"
  then obtain msg where msg: "error_message res = Some msg" by blast
  show "case finalize_error echo_ops h [] res of Inl e \<Rightarrow> thrown e
     | Inr (h', m) \<Rightarrow> echo_responding h' \<and> wf_response_fields m"
  proof (cases "length msg \<le> string_max_size")
    case True
    with append_response_fields_ok [of msg] show ?thesis
      by (auto simp: echo_ops_def echo_finalize_error_def msg check_length_def echo_inv_def
          echo_responding_def)
  qed (simp add: echo_ops_def echo_finalize_error_def msg check_length_def thrown_def)
next
  fix h out_size
  assume "echo_responding h"
  then show "case read_response_content echo_ops h out_size of Inl e \<Rightarrow> thrown e
     | Inr (h', data, ec) \<Rightarrow> length data \<le> out_size \<and> echo_responding h'"
    by (auto simp: echo_ops_def echo_read_response_content_def echo_responding_def echo_inv_def Let_def)
qed (simp add: echo_responding_def)

end
