(* ===== verification/Service_Registry.thy ===== *)
theory Service_Registry
  imports Event_Monitor Processor_Contracts Echo_Handler
begin

text \<open>
  \<^verbatim>\<open>src/lib/service_registry.hpp\<close>: the event handlers of connections and of server
  sockets, accepting a connection and enrolling a service, on top of the event monitor.
  \<^verbatim>\<open>src/lib/http_server.hpp\<close> and \<^verbatim>\<open>src/lib/http_session_factory.hpp\<close>: the
  HTTP service. \<^verbatim>\<open>src/bin/http_echo.cpp\<close>: the administration service, which shuts
  the server down, and how \<open>main\<close> puts the services together.

  The listeners of the program are one datatype, one constructor for each class the monitor
  is instantiated with. The theorems are for any request handler.
\<close>

section \<open>Listeners\<close>

record 'se connection_event_handler =
  ceh_session :: 'se
  ceh_events :: listen_on

datatype ('c, 'h) listener_object =
    Http_service inet_server_socket
  | Adm_service inet_server_socket
  | Http_connection "('c inet_connection, 'h) request_processor connection_event_handler"
  | Adm_connection "'c inet_connection connection_event_handler"

type_synonym ('k, 'c, 'h) server_monitor = "('k, ('c, 'h) listener_object) fd_event_monitor"

text \<open>Every object owns the socket it is registered for, and closes it when it is destroyed.\<close>

definition listener_destroy :: "('k, 'c) server_calls \<Rightarrow> 'l \<Rightarrow> fd \<Rightarrow> 'k \<Rightarrow> 'k" where
  "listener_destroy calls l fd k = sys_close calls k fd"

text \<open>
  \<open>finalize_event\<close>: what becomes of the handler's \<open>events\<close> and of the monitor. The session
  status counts for two things: whether it ends the session, and what to wait for.
\<close>

definition finalize_event ::
  "'k epoll_ops \<Rightarrow> bool \<Rightarrow> listen_on \<Rightarrow> fd \<Rightarrow> listen_on \<Rightarrow> ('k, 'l) fd_event_monitor \<Rightarrow>
   listen_on \<times> ('k, 'l) monitor_run" where
  "finalize_event eops terminated new_events fd events mon =
     (if terminated then (events, registry_remove fd mon, None)
      else if new_events \<noteq> events then
        (case registry_modify eops fd new_events mon of
           (mon1, None) \<Rightarrow> (new_events, mon1, None)
         | (mon1, Some e) \<Rightarrow> (events, mon1, Some e))
      else (events, mon, None))"

definition finish_event ::
  "('se connection_event_handler \<Rightarrow> 'l) \<Rightarrow> 'k epoll_ops \<Rightarrow> bool \<Rightarrow> listen_on \<Rightarrow> fd \<Rightarrow>
   'se connection_event_handler \<Rightarrow> ('k, 'l) fd_event_monitor \<Rightarrow> 'l \<times> ('k, 'l) monitor_run" where
  "finish_event inject eops terminated new_events fd c mon =
     (case finalize_event eops terminated new_events fd (ceh_events c) mon of
        (events, run) \<Rightarrow> (inject (c\<lparr>ceh_events := events\<rparr>), run))"

text \<open>\<open>session_state_mapper\<close> of the HTTP service: wait for what the state needs.\<close>

definition listen_on_direction :: "io_direction \<Rightarrow> listen_on" where
  "listen_on_direction dir =
     (case dir of Io_input \<Rightarrow> Read_is_possible | Io_output \<Rightarrow> Write_is_possible)"

definition http_state_mapper :: "process_request_result \<Rightarrow> listen_on" where
  "http_state_mapper res = listen_on_direction (pr_io_dir res)"

text \<open>
  \<open>connection_event_handler\<close> with an HTTP session. An exception leaves the session to the
  clean-up, so its state is not followed further.
\<close>

definition http_connection_event ::
  "'k epoll_ops \<Rightarrow>
   (('c inet_connection, 'h) request_processor \<times> process_request_result) faulty option \<Rightarrow>
   ('c inet_connection, 'h) request_processor connection_event_handler \<Rightarrow> fd \<Rightarrow>
   ('k, 'c, 'h) server_monitor \<Rightarrow>
   ('c, 'h) listener_object \<times> ('k, ('c, 'h) listener_object) monitor_run" where
  "http_connection_event eops outcome c fd mon =
     (case outcome of
        None \<Rightarrow> (Http_connection c, mon, Some No_return)
      | Some (Inl e) \<Rightarrow> (Http_connection c, mon, Some e)
      | Some (Inr (proc, res)) \<Rightarrow>
          finish_event Http_connection eops (is_session_terminated (pr_status res))
            (http_state_mapper res) fd (c\<lparr>ceh_session := proc\<rparr>) mon)"

text \<open>The session of the administration service, with the monitor as its registry.\<close>

datatype adm_session_status = Keep_connection | Close_connection

abbreviation adm_session_terminated :: "adm_session_status \<Rightarrow> bool" where
  "adm_session_terminated status \<equiv> status = Close_connection"

definition adm_socket_is_ready ::
  "'c kernel_ops \<Rightarrow> 'c inet_connection \<Rightarrow> ('k, 'l) fd_event_monitor \<Rightarrow>
   'c inet_connection \<times> adm_session_status \<times> ('k, 'l) fd_event_monitor" where
  "adm_socket_is_ready kops conn mon =
     (case inet_read kops conn 65536 of (conn1, read_buffer, ec) \<Rightarrow>
        if length read_buffer = 0 then
          (conn1,
           (case ec of
              Op_would_block \<Rightarrow> Keep_connection
            | Op_completed \<Rightarrow> Close_connection
            | Op_error \<Rightarrow> Close_connection),
           mon)
        else
          (conn1, Keep_connection, if read_buffer = ''shutdown'' then registry_clear mon else mon))"

abbreviation adm_socket_is_idle :: adm_session_status where
  "adm_socket_is_idle \<equiv> Keep_connection"

definition adm_connection_event ::
  "'k epoll_ops \<Rightarrow> adm_session_status \<Rightarrow> 'c inet_connection connection_event_handler \<Rightarrow> fd \<Rightarrow>
   ('k, 'c, 'h) server_monitor \<Rightarrow>
   ('c, 'h) listener_object \<times> ('k, ('c, 'h) listener_object) monitor_run" where
  "adm_connection_event eops st c fd mon =
     finish_event Adm_connection eops (adm_session_terminated st) Read_is_possible fd c mon"

text \<open>
  \<open>accept_connection\<close>; \<open>create_session\<close> makes the listener's session out of the connection.
  The connection, a local variable, is destroyed when \<open>set_non_blocking\<close> throws.
\<close>

definition accept_connection ::
  "'k epoll_ops \<Rightarrow> ('k, 'c) server_calls \<Rightarrow> inet_server_socket \<Rightarrow> ('c inet_connection \<Rightarrow> 'l) \<Rightarrow>
   ('k, 'l) fd_event_monitor \<Rightarrow> ('k, 'l) monitor_run" where
  "accept_connection eops calls server_socket create_session mon =
     (case inet_accept calls server_socket (m_epoll mon) of
        (k, Inl e) \<Rightarrow> (mon\<lparr>m_epoll := k\<rparr>, Some e)
      | (k, Inr (conn_fd, conn)) \<Rightarrow>
          (case set_non_blocking calls conn_fd k of
             (k1, Inl e) \<Rightarrow> (mon\<lparr>m_epoll := sys_close calls k1 conn_fd\<rparr>, Some e)
           | (k1, Inr _) \<Rightarrow>
               registry_add eops (listener_destroy calls) conn_fd (create_session conn) Read_is_possible
                 (mon\<lparr>m_epoll := k1\<rparr>)))"

definition create_http_session :: "'h \<Rightarrow> 'c inet_connection \<Rightarrow> ('c, 'h) listener_object" where
  "create_http_session req_handler conn =
     Http_connection \<lparr>ceh_session = request_processor_init conn req_handler,
                      ceh_events = Read_is_possible\<rparr>"

definition create_adm_session :: "'c inet_connection \<Rightarrow> ('c, 'h) listener_object" where
  "create_adm_session conn = Adm_connection \<lparr>ceh_session = conn, ceh_events = Read_is_possible\<rparr>"

text \<open>The two functions of every listener.\<close>

definition listener_is_ready ::
  "'k epoll_ops \<Rightarrow> ('k, 'c) server_calls \<Rightarrow> 'c kernel_ops \<Rightarrow> ('h, 'e) handler_ops \<Rightarrow> 'h \<Rightarrow>
   ('c, 'h) listener_object \<Rightarrow> fd \<Rightarrow> ('k, 'c, 'h) server_monitor \<Rightarrow>
   ('c, 'h) listener_object \<times> ('k, ('c, 'h) listener_object) monitor_run" where
  "listener_is_ready eops calls kops hops req_handler l fd mon =
     (case l of
        Http_service srv \<Rightarrow> (l, accept_connection eops calls srv (create_http_session req_handler) mon)
      | Adm_service srv \<Rightarrow> (l, accept_connection eops calls srv create_adm_session mon)
      | Http_connection c \<Rightarrow>
          http_connection_event eops (socket_is_ready (inet_ops kops) hops (ceh_session c)) c fd mon
      | Adm_connection c \<Rightarrow>
          (case adm_socket_is_ready kops (ceh_session c) mon of (conn, st, mon1) \<Rightarrow>
             adm_connection_event eops st (c\<lparr>ceh_session := conn\<rparr>) fd mon1))"

definition listener_is_idle ::
  "'k epoll_ops \<Rightarrow> 'c kernel_ops \<Rightarrow> ('h, 'e) handler_ops \<Rightarrow>
   ('c, 'h) listener_object \<Rightarrow> fd \<Rightarrow> ('k, 'c, 'h) server_monitor \<Rightarrow>
   ('c, 'h) listener_object \<times> ('k, ('c, 'h) listener_object) monitor_run" where
  "listener_is_idle eops kops hops l fd mon =
     (case l of
        Http_service srv \<Rightarrow> (l, mon, None)
      | Adm_service srv \<Rightarrow> (l, mon, None)
      | Http_connection c \<Rightarrow>
          http_connection_event eops (Some (socket_is_idle (inet_ops kops) hops (ceh_session c))) c fd mon
      | Adm_connection c \<Rightarrow> adm_connection_event eops adm_socket_is_idle c fd mon)"

definition server_ops ::
  "'k epoll_ops \<Rightarrow> ('k, 'c) server_calls \<Rightarrow> 'c kernel_ops \<Rightarrow> ('h, 'e) handler_ops \<Rightarrow> 'h \<Rightarrow>
   ('k, ('c, 'h) listener_object) listener_ops" where
  "server_ops eops calls kops hops req_handler =
     \<lparr>call_fd_is_ready = listener_is_ready eops calls kops hops req_handler,
      call_fd_is_idle = listener_is_idle eops kops hops,
      call_destroy = listener_destroy calls\<rparr>"

section \<open>The registry\<close>

text \<open>\<open>enroll\<close> a server socket; without an argument for it, the monitor listens for everything.\<close>

definition enroll ::
  "'k epoll_ops \<Rightarrow> ('k, 'c) server_calls \<Rightarrow> fd \<Rightarrow> 'l \<Rightarrow> ('k, 'l) fd_event_monitor \<Rightarrow>
   ('k, 'l) monitor_run" where
  "enroll eops calls server_socket_fd handler mon =
     (case set_non_blocking calls server_socket_fd (m_epoll mon) of
        (k, Inl e) \<Rightarrow> (mon\<lparr>m_epoll := k\<rparr>, Some e)
      | (k, Inr _) \<Rightarrow>
          monitor_add eops (listener_destroy calls) server_socket_fd handler Readwrite_is_possible
            (mon\<lparr>m_epoll := k\<rparr>))"

text \<open>\<^verbatim>\<open>src/lib/http_server.hpp\<close>: a service whose sessions are request processors.\<close>

abbreviation enroll_http_service ::
  "'k epoll_ops \<Rightarrow> ('k, 'c) server_calls \<Rightarrow> inet_server_socket \<Rightarrow> ('k, 'c, 'h) server_monitor \<Rightarrow>
   ('k, ('c, 'h) listener_object) monitor_run" where
  "enroll_http_service eops calls server registry \<equiv>
     enroll eops calls (srv_fd server) (Http_service server) registry"

text \<open>\<open>service_registry::process_events\<close>: cycles until one returns false.\<close>

partial_function (option) process_events ::
  "'k epoll_ops \<Rightarrow> ('k, 'l) listener_ops \<Rightarrow> ('k, 'l) fd_event_monitor \<Rightarrow>
   (('k, 'l) fd_event_monitor \<times> fault option) option" where
  "process_events eops lops mon =
     (case wait_for_and_dispatch_events eops lops mon of
        None \<Rightarrow> None
      | Some (mon1, Inl e) \<Rightarrow> Some (mon1, Some e)
      | Some (mon1, Inr again) \<Rightarrow>
          if again then process_events eops lops mon1 else Some (mon1, None))"

text \<open>
  What \<open>main\<close> does before it processes events: it makes the two server sockets and the
  registry, with its epoll instance, and enrols the services. An exception leaves \<open>main\<close>, and
  with that ends the process.
\<close>

definition monitor_create :: "'k epoll_ops \<Rightarrow> 'k \<Rightarrow> ('k, 'l) fd_event_monitor faulty" where
  "monitor_create eops k =
     (case checked (sys_epoll_create eops k) ''Failed to create epoll instance'' of
        (k1, Inl e) \<Rightarrow> Inl e
      | (k1, Inr _) \<Rightarrow> Inr (fd_event_monitor_init k1))"

definition start_services ::
  "'k epoll_ops \<Rightarrow> ('k, 'c) server_calls \<Rightarrow> inet_server_socket \<Rightarrow> inet_server_socket \<Rightarrow>
   ('k, 'c, 'h) server_monitor \<Rightarrow> ('k, ('c, 'h) listener_object) monitor_run" where
  "start_services eops calls http adm services =
     run_then (enroll_http_service eops calls http services)
       (enroll eops calls (srv_fd adm) (Adm_service adm))"

definition main_ports :: "int list" where
  "main_ports = [49152..65535]"

definition start_server ::
  "'k epoll_ops \<Rightarrow> ('k, 'c) server_calls \<Rightarrow> 32 word \<Rightarrow> 'k \<Rightarrow> ('k, 'c, 'h) server_monitor faulty" where
  "start_server eops calls address k =
     (case inet_server_socket_init calls address main_ports 128 (Some 1024) k of
        (k1, Inl e) \<Rightarrow> Inl e
      | (k1, Inr http) \<Rightarrow>
          (case inet_server_socket_init calls address main_ports 128 None k1 of
             (k2, Inl e) \<Rightarrow> Inl e
           | (k2, Inr adm) \<Rightarrow>
               and_then (monitor_create eops k2) (\<lambda>services.
                 case start_services eops calls http adm services of
                   (mon, Some e) \<Rightarrow> Inl e
                 | (mon, None) \<Rightarrow> Inr mon)))"

lemma start_serverD:
  assumes "start_server eops calls address k = Inr mon"
  shows "\<exists>k1 http k2 adm k3.
      inet_server_socket_init calls address main_ports 128 (Some 1024) k = (k1, Inr http)
    \<and> inet_server_socket_init calls address main_ports 128 None k1 = (k2, Inr adm)
    \<and> sys_epoll_create eops k2 = (k3, Returned ())
    \<and> start_services eops calls http adm (fd_event_monitor_init k3) = (mon, None)"
  using assms
  by (auto simp: start_server_def monitor_create_def checked_def and_then_def
      split: prod.splits sum.splits sys_result.splits option.splits)

section \<open>The listeners keep their contract\<close>

text \<open>
  The invariant of a listener, given what its descriptor is watched for. A connection's
  handler knows what that is; an HTTP connection is watched for the direction of the state
  its processor is in, and \<open>p_ok\<close> is the invariant of the processor.
\<close>

definition listener_ok ::
  "(('c inet_connection, 'h) request_processor \<Rightarrow> bool) \<Rightarrow> listen_on \<Rightarrow>
   ('c, 'h) listener_object \<Rightarrow> bool" where
  "listener_ok p_ok ev l =
     (case l of
        Http_service srv \<Rightarrow> True
      | Adm_service srv \<Rightarrow> True
      | Http_connection c \<Rightarrow> ceh_events c = ev
          \<and> ev = listen_on_direction (select_io_direction (fst (m_state (ceh_session c))))
          \<and> p_ok (ceh_session c)
      | Adm_connection c \<Rightarrow> ceh_events c = ev \<and> ev = Read_is_possible)"

lemma listeners_okD:
  "listeners_ok watched l_ok mon \<Longrightarrow> map_of (m_listeners mon) fd = Some l \<Longrightarrow>
   fd \<notin> set (m_fds_to_remove mon) \<Longrightarrow> \<exists>ev. watched (m_epoll mon) fd = Some ev \<and> l_ok ev (m_object l)"
  by (simp add: listeners_ok_def)

lemma callback_post_same:
  assumes "monitor_inv watched clock mon" and "listeners_ok watched l_ok mon"
    and "map_of (m_listeners mon) fd = Some l"
  shows "callback_post watched clock l_ok fd (m_object l) mon mon"
  using assms by (auto simp: callback_post_def listeners_ok_def map_of_set_object)

lemma callback_post_clear:
  "callback_post watched clock l_ok fd obj (deferred_clear mon) mon' \<Longrightarrow>
     callback_post watched clock l_ok fd obj mon mon'"
  by (simp add: callback_post_def deferred_clear_def)

lemma listeners_ok_clear:
  "listeners_ok watched l_ok (deferred_clear mon) \<longleftrightarrow> listeners_ok watched l_ok mon"
  by (simp add: listeners_ok_def deferred_clear_def)

context epoll_contract
begin

lemma finish_event_ok:
  assumes inv: "monitor_inv watched clock mon" and ok: "listeners_ok watched l_ok mon"
    and l: "map_of (m_listeners mon) fd = Some l" and here: "fd \<notin> set (m_fds_to_remove mon)"
    and ev: "watched (m_epoll mon) fd = Some (ceh_events c)"
    and l_ok: "\<not> terminated \<Longrightarrow> l_ok new_events (inject (c\<lparr>ceh_events := new_events\<rparr>))"
    and finish: "finish_event inject eops terminated new_events fd c mon = (obj, mon', exc)"
  shows "case exc of
      None \<Rightarrow> callback_post watched clock l_ok fd obj mon mon'
    | Some e \<Rightarrow> thrown e \<and> clock (m_epoll mon) \<le> clock (m_epoll mon')"
proof (cases terminated)
  case True
  with finish have "mon' = deferred_remove fd mon" "exc = None"
    by (simp_all add: finish_event_def finalize_event_def)
  with deferred_remove_ok [OF inv _ here] ok l show ?thesis
    by (auto simp: callback_post_def deferred_remove_def listeners_ok_def map_of_set_object)
next
  case False
  show ?thesis
  proof (cases "new_events = ceh_events c")
    case True
    with finish False have "mon' = mon" "exc = None" "obj = inject (c\<lparr>ceh_events := new_events\<rparr>)"
      by (simp_all add: finish_event_def finalize_event_def)
    with True False l_ok ev inv ok l show ?thesis
      by (auto simp: callback_post_def listeners_ok_def map_of_set_object)
  next
    case changed: False
    obtain mon1 exc1 where m: "monitor_modify eops fd new_events mon = (mon1, exc1)" by fastforce
    note modify = monitor_modify_ok [OF inv l m]
    show ?thesis
    proof (cases exc1)
      case (Some e)
      with finish False changed m modify show ?thesis
        by (auto simp: finish_event_def finalize_event_def)
    next
      case None
      with finish False changed m have res: "mon' = mon1" "exc = None"
        "obj = inject (c\<lparr>ceh_events := new_events\<rparr>)"
        by (simp_all add: finish_event_def finalize_event_def)
      obtain k where k: "mon1 = mon\<lparr>m_epoll := k\<rparr>" using modify None by auto
      have w: "watched k = (watched (m_epoll mon))(fd := Some new_events)"
        "monitor_inv watched clock (mon\<lparr>m_epoll := k\<rparr>)" "clock (m_epoll mon) \<le> clock k"
        using modify None by (simp_all add: k)
      with ok l l_ok False show ?thesis
        by (auto simp: res k callback_post_def listeners_ok_def map_of_set_object)
    qed
  qed
qed

end

text \<open>
  What the system calls on server sockets promise of the interest list: they leave it alone,
  but a closed descriptor is no longer watched; and an accepted connection has a descriptor
  that was not in use and so is not watched.
\<close>

locale server_contract = epoll_contract eops watched clock
  for eops :: "'k epoll_ops" and watched and clock +
  fixes calls :: "('k, 'c) server_calls"
  assumes ac_accept: "sys_accept calls k fd = (k', r) \<Longrightarrow>
      clock k \<le> clock k' \<and> watched k' = watched k
      \<and> (case r of Returned (cfd, c, address, port) \<Rightarrow> watched k cfd = None | Failed _ \<Rightarrow> True)"
    and ac_send_buffer: "sys_set_send_buffer calls k fd n = (k', u) \<Longrightarrow>
      clock k \<le> clock k' \<and> watched k' = watched k"
    and ac_non_blocking: "sys_set_non_blocking calls k fd = (k', u) \<Longrightarrow>
      clock k \<le> clock k' \<and> watched k' = watched k"
    and ac_close: "clock k \<le> clock (sys_close calls k fd)
      \<and> watched (sys_close calls k fd) = (watched k)(fd := None)"
begin

lemma listener_destroy_ok: "destroy_contract watched clock (listener_destroy calls)"
  by (simp add: destroy_contract_def listener_destroy_def ac_close)

lemma inet_accept_ok:
  assumes "inet_accept calls srv k = (k', r)"
  shows "clock k \<le> clock k' \<and> (case r of
      Inl e \<Rightarrow> thrown e
    | Inr (fd, conn) \<Rightarrow> watched k' = watched k \<and> watched k fd = None
        \<and> (\<exists>k1 c address port. sys_accept calls k (srv_fd srv) = (k1, Returned (fd, c, address, port))
             \<and> conn = inet_connection_init c address port))"
proof -
  obtain k1 a where a: "sys_accept calls k (srv_fd srv) = (k1, a)" by fastforce
  note acc = ac_accept [OF a]
  show ?thesis
  proof (cases a)
    case (Failed e)
    with assms a acc show ?thesis by (auto simp: inet_accept_def checked_def thrown_def)
  next
    case (Returned x)
    obtain fd c address port where x: "x = (fd, c, address, port)" by (cases x)
    show ?thesis
    proof (cases "m_conn_send_size srv")
      case None
      with assms a acc show ?thesis by (auto simp: inet_accept_def checked_def Returned x)
    next
      case (Some send_size)
      obtain k2 b where b: "sys_set_send_buffer calls k1 fd send_size = (k2, b)" by fastforce
      from assms a acc Some b ac_send_buffer [OF b] ac_close [of k2 fd] show ?thesis
        by (cases b) (auto simp: inet_accept_def checked_def Returned x thrown_def)
    qed
  qed
qed

lemma accept_connection_ok:
  assumes inv: "monitor_inv watched clock mon" and ok: "listeners_ok watched l_ok mon"
    and l: "map_of (m_listeners mon) fd = Some l"
    and new: "\<And>k' cfd c address port. sys_accept calls (m_epoll mon) (srv_fd srv) = (k', Returned (cfd, c, address, port)) \<Longrightarrow>
      l_ok Read_is_possible (create_session (inet_connection_init c address port))"
    and acc: "accept_connection eops calls srv create_session mon = (mon', exc)"
  shows "case exc of
      None \<Rightarrow> callback_post watched clock l_ok fd (m_object l) mon mon'
    | Some e \<Rightarrow> thrown e \<and> clock (m_epoll mon) \<le> clock (m_epoll mon')"
proof -
  obtain k r where a: "inet_accept calls srv (m_epoll mon) = (k, r)" by fastforce
  note a_ok = inet_accept_ok [OF a]
  show ?thesis
  proof (cases r)
    case (Inl e)
    with acc a a_ok show ?thesis by (auto simp: accept_connection_def)
  next
    case (Inr x)
    obtain cfd conn where x: "x = (cfd, conn)" by (cases x)
    obtain k1 b where b: "sys_set_non_blocking calls k cfd = (k1, b)" by fastforce
    note b_ok = ac_non_blocking [OF b]
    show ?thesis
    proof (cases b)
      case (Failed e)
      with acc a a_ok b b_ok ac_close [of k1 cfd] show ?thesis
        by (auto simp: accept_connection_def Inr x set_non_blocking_def checked_def thrown_def)
    next
      case (Returned u)
      let ?mon = "mon\<lparr>m_epoll := k1\<rparr>"
      have add: "monitor_add eops (listener_destroy calls) cfd (create_session conn) Read_is_possible ?mon
          = (mon', exc)"
        using acc a b by (simp add: accept_connection_def Inr x set_non_blocking_def checked_def Returned)
      have new_ok: "l_ok Read_is_possible (create_session conn)" using a_ok new by (auto simp: Inr x)
      have fresh: "watched (m_epoll mon) cfd = None" using a_ok by (simp add: Inr x)
      have k1: "watched k1 = watched (m_epoll mon)" "clock (m_epoll mon) \<le> clock k1"
        using a_ok b_ok by (simp_all add: Inr x)
      have inv1: "monitor_inv watched clock ?mon" using inv k1 by (intro monitor_inv_epoll) simp_all
      have fresh1: "watched (m_epoll ?mon) cfd = None" using fresh k1 by simp
      note add_ok = monitor_add_ok [OF inv1 fresh1 listener_destroy_ok add]
      show ?thesis
      proof (cases exc)
        case (Some e)
        with add_ok k1 show ?thesis by simp
      next
        case None
        with add_ok obtain n t where n: "n \<notin> set (map fst (m_fd_activity_timestamps mon))"
          and ls: "m_listeners mon' = m_listeners mon @ [(cfd, \<lparr>m_object = create_session conn, m_timer = n\<rparr>)]"
          and ts: "m_fd_activity_timestamps mon' = m_fd_activity_timestamps mon @ [(n, t, cfd)]"
          and rest: "monitor_inv watched clock mon'" "clock (m_epoll mon) \<le> clock (m_epoll mon')"
            "m_fds_to_remove mon' = m_fds_to_remove mon"
            "m_reg_should_be_cleared mon' = m_reg_should_be_cleared mon"
            "watched (m_epoll mon') = (watched (m_epoll mon))(cfd := Some Read_is_possible)"
          using k1 by (auto simp del: set_map)
        have none: "map_of (m_listeners mon) cfd = None"
          using inv fresh by (metis monitor_inv_def domIff)
        have none': "map_of (m_fd_activity_timestamps mon) n = None"
          using n by (simp add: map_of_eq_None_iff)
        have "map_of (m_listeners mon) \<subseteq>\<^sub>m map_of (m_listeners mon')"
          using none by (auto simp: ls map_le_def map_add_def)
        moreover have "map_of (m_fd_activity_timestamps mon) \<subseteq>\<^sub>m map_of (m_fd_activity_timestamps mon')"
          using none' by (auto simp: ts map_le_def map_add_def)
        moreover have "listeners_ok watched l_ok
            (mon'\<lparr>m_listeners := set_object fd (m_object l) (m_listeners mon')\<rparr>)"
          unfolding listeners_ok_def
        proof (intro allI impI, elim conjE)
          fix f l'
          assume f: "map_of (m_listeners (mon'\<lparr>m_listeners := set_object fd (m_object l) (m_listeners mon')\<rparr>)) f
              = Some l'"
            and tr: "f \<notin> set (m_fds_to_remove (mon'\<lparr>m_listeners := set_object fd (m_object l) (m_listeners mon')\<rparr>))"
          have "cfd \<noteq> fd" using l none by auto
          then have "map_of (m_listeners mon') f = Some l'"
            using f l none by (auto simp: map_of_set_object ls map_add_def split: if_splits)
          then have "f = cfd \<and> l' = \<lparr>m_object = create_session conn, m_timer = n\<rparr>
              \<or> f \<noteq> cfd \<and> map_of (m_listeners mon) f = Some l'"
            using none by (auto simp: ls map_add_def split: option.splits if_splits)
          then show "\<exists>ev. watched (m_epoll (mon'\<lparr>m_listeners := set_object fd (m_object l) (m_listeners mon')\<rparr>)) f
              = Some ev \<and> l_ok ev (m_object l')"
            using new_ok ok tr rest(3,5) by (auto simp: listeners_ok_def)
        qed
        ultimately show ?thesis using None rest by (simp add: callback_post_def)
      qed
    qed
  qed
qed

end

text \<open>
  An HTTP service: the sessions keep an invariant of their processor, which holds for a new
  connection of the kernel.
\<close>

locale http_sessions = server_contract eops watched clock calls
  for eops :: "'k epoll_ops" and watched and clock and calls :: "('k, 'c) server_calls" +
  fixes kops :: "'c kernel_ops"
    and hops :: "('h, 'e) handler_ops"
    and req_handler :: 'h
    and p_ok :: "('c inet_connection, 'h) request_processor \<Rightarrow> bool"
  assumes ses_new: "sys_accept calls k fd = (k', Returned (cfd, c, address, port)) \<Longrightarrow>
      p_ok (request_processor_init (inet_connection_init c address port) req_handler)"
    and ses_ready: "p_ok p \<Longrightarrow> \<exists>r. socket_is_ready (inet_ops kops) hops p = Some r
      \<and> (case r of
           Inl e \<Rightarrow> thrown e
         | Inr (p', res) \<Rightarrow> pr_io_dir res = select_io_direction (fst (m_state p'))
             \<and> (is_session_terminated (pr_status res) \<or> p_ok p'))"
    and ses_idle: "p_ok p \<Longrightarrow>
      (case socket_is_idle (inet_ops kops) hops p of
         Inl e \<Rightarrow> thrown e
       | Inr (p', res) \<Rightarrow> pr_io_dir res = select_io_direction (fst (m_state p'))
           \<and> (is_session_terminated (pr_status res) \<or> p_ok p'))"
begin

lemma new_sessions_ok:
  "sys_accept calls k fd = (k', Returned (cfd, c, address, port)) \<Longrightarrow>
     listener_ok p_ok Read_is_possible (create_http_session req_handler (inet_connection_init c address port))"
  "listener_ok p_ok Read_is_possible (create_adm_session conn)"
  using ses_new
  by (simp_all add: listener_ok_def create_http_session_def create_adm_session_def
      listen_on_direction_def) (simp add: request_processor_init_def)

text \<open>An HTTP connection's session was called and has returned.\<close>

lemma http_connection_event_ok:
  assumes inv: "monitor_inv watched clock mon"
    and ok: "listeners_ok watched (listener_ok p_ok) mon"
    and l: "map_of (m_listeners mon) fd = Some l" and here: "fd \<notin> set (m_fds_to_remove mon)"
    and c: "m_object l = Http_connection c"
    and outcome: "outcome \<noteq> None"
      "\<And>e. outcome = Some (Inl e) \<Longrightarrow> thrown e"
      "\<And>proc res. outcome = Some (Inr (proc, res)) \<Longrightarrow>
         pr_io_dir res = select_io_direction (fst (m_state proc))
         \<and> (is_session_terminated (pr_status res) \<or> p_ok proc)"
    and event: "http_connection_event eops outcome c fd mon = (obj, mon', exc)"
  shows "case exc of
      None \<Rightarrow> callback_post watched clock (listener_ok p_ok) fd obj mon mon'
    | Some e \<Rightarrow> thrown e \<and> clock (m_epoll mon) \<le> clock (m_epoll mon')"
proof -
  obtain r where r: "outcome = Some r" using outcome(1) by blast
  show ?thesis
  proof (cases r)
    case (Inl e)
    with event outcome(2) show ?thesis by (auto simp: http_connection_event_def r)
  next
    case (Inr x)
    obtain proc res where x: "x = (proc, res)" by (cases x)
    note out = outcome(3) [unfolded r Inr x, OF refl]
    have finish: "finish_event Http_connection eops (is_session_terminated (pr_status res))
        (http_state_mapper res) fd (c\<lparr>ceh_session := proc\<rparr>) mon = (obj, mon', exc)"
      using event by (simp add: http_connection_event_def r Inr x)
    have ev: "watched (m_epoll mon) fd = Some (ceh_events (c\<lparr>ceh_session := proc\<rparr>))"
      using listeners_okD [OF ok l here] c by (auto simp: listener_ok_def)
    show ?thesis
      by (rule finish_event_ok [OF inv ok l here ev _ finish])
         (use out in \<open>auto simp: listener_ok_def http_state_mapper_def\<close>)
  qed
qed

lemma adm_connection_event_ok:
  assumes inv: "monitor_inv watched clock mon"
    and ok: "listeners_ok watched (listener_ok p_ok) mon"
    and l: "map_of (m_listeners mon) fd = Some l" and here: "fd \<notin> set (m_fds_to_remove mon)"
    and c: "m_object l = Adm_connection c"
    and event: "adm_connection_event eops st (c\<lparr>ceh_session := conn\<rparr>) fd mon = (obj, mon', exc)"
  shows "case exc of
      None \<Rightarrow> callback_post watched clock (listener_ok p_ok) fd obj mon mon'
    | Some e \<Rightarrow> thrown e \<and> clock (m_epoll mon) \<le> clock (m_epoll mon')"
proof -
  have ev: "watched (m_epoll mon) fd = Some (ceh_events (c\<lparr>ceh_session := conn\<rparr>))"
    using listeners_okD [OF ok l here] c by (auto simp: listener_ok_def)
  show ?thesis
    by (rule finish_event_ok [OF inv ok l here ev _ event [unfolded adm_connection_event_def]])
       (simp add: listener_ok_def)
qed

lemma listener_is_ready_ok:
  "callback_contract watched clock (listener_ok p_ok)
     (listener_is_ready eops calls kops hops req_handler)"
  unfolding callback_contract_def
proof (intro allI impI, elim conjE)
  fix mon fd l obj mon' exc
  assume inv: "monitor_inv watched clock mon"
    and ok: "listeners_ok watched (listener_ok p_ok) mon"
    and l: "map_of (m_listeners mon) fd = Some l" and here: "fd \<notin> set (m_fds_to_remove mon)"
    and call: "listener_is_ready eops calls kops hops req_handler (m_object l) fd mon = (obj, mon', exc)"
  have l_inv: "\<exists>ev. listener_ok p_ok ev (m_object l)"
    using listeners_okD [OF ok l here] by blast
  show "case exc of
      None \<Rightarrow> callback_post watched clock (listener_ok p_ok) fd obj mon mon'
    | Some e \<Rightarrow> thrown e \<and> clock (m_epoll mon) \<le> clock (m_epoll mon')"
  proof (cases "m_object l")
    case (Http_service srv)
    with call have acc: "accept_connection eops calls srv (create_http_session req_handler) mon = (mon', exc)"
      and obj: "obj = m_object l" by (simp_all add: listener_is_ready_def)
    show ?thesis unfolding obj
      by (rule accept_connection_ok [OF inv ok l _ acc]) (rule new_sessions_ok)
  next
    case (Adm_service srv)
    with call have acc: "accept_connection eops calls srv create_adm_session mon = (mon', exc)"
      and obj: "obj = m_object l" by (simp_all add: listener_is_ready_def)
    show ?thesis unfolding obj
      by (rule accept_connection_ok [OF inv ok l _ acc]) (rule new_sessions_ok)
  next
    case (Http_connection c)
    have event: "http_connection_event eops (socket_is_ready (inet_ops kops) hops (ceh_session c)) c fd mon
        = (obj, mon', exc)" using call by (simp add: listener_is_ready_def Http_connection)
    have p: "p_ok (ceh_session c)"
      using l_inv by (simp add: Http_connection listener_ok_def)
    show ?thesis
      by (rule http_connection_event_ok [OF inv ok l here Http_connection _ _ _ event])
         (use ses_ready [OF p] in auto)
  next
    case (Adm_connection c)
    obtain conn st mon1 where a: "adm_socket_is_ready kops (ceh_session c) mon = (conn, st, mon1)"
      by (metis prod_cases3)
    have event: "adm_connection_event eops st (c\<lparr>ceh_session := conn\<rparr>) fd mon1 = (obj, mon', exc)"
      using call a by (simp add: listener_is_ready_def Adm_connection)
    consider "mon1 = mon" | "mon1 = deferred_clear mon"
      using a by (auto simp: adm_socket_is_ready_def split: prod.splits if_splits)
    then show ?thesis
    proof cases
      case 1
      from adm_connection_event_ok [OF inv ok l here Adm_connection event [unfolded 1]] show ?thesis .
    next
      case 2
      have "map_of (m_listeners (deferred_clear mon)) fd = Some l"
        "fd \<notin> set (m_fds_to_remove (deferred_clear mon))"
        "listeners_ok watched (listener_ok p_ok) (deferred_clear mon)"
        using l here ok by (simp_all add: listeners_ok_clear) (simp_all add: deferred_clear_def)
      from adm_connection_event_ok [OF deferred_clear_ok [OF inv] this(3,1,2) Adm_connection event [unfolded 2]]
      moreover have "m_epoll (deferred_clear mon) = m_epoll mon" by (simp add: deferred_clear_def)
      ultimately show ?thesis by (auto split: option.split_asm option.split dest: callback_post_clear)
    qed
  qed
qed

lemma listener_is_idle_ok:
  "callback_contract watched clock (listener_ok p_ok) (listener_is_idle eops kops hops)"
  unfolding callback_contract_def
proof (intro allI impI, elim conjE)
  fix mon fd l obj mon' exc
  assume inv: "monitor_inv watched clock mon"
    and ok: "listeners_ok watched (listener_ok p_ok) mon"
    and l: "map_of (m_listeners mon) fd = Some l" and here: "fd \<notin> set (m_fds_to_remove mon)"
    and call: "listener_is_idle eops kops hops (m_object l) fd mon = (obj, mon', exc)"
  have l_inv: "\<exists>ev. listener_ok p_ok ev (m_object l)"
    using listeners_okD [OF ok l here] by blast
  show "case exc of
      None \<Rightarrow> callback_post watched clock (listener_ok p_ok) fd obj mon mon'
    | Some e \<Rightarrow> thrown e \<and> clock (m_epoll mon) \<le> clock (m_epoll mon')"
  proof (cases "m_object l")
    case (Http_connection c)
    let ?out = "Some (socket_is_idle (inet_ops kops) hops (ceh_session c))"
    have event: "http_connection_event eops ?out c fd mon = (obj, mon', exc)"
      using call by (simp add: listener_is_idle_def Http_connection)
    have p: "p_ok (ceh_session c)"
      using l_inv by (simp add: Http_connection listener_ok_def)
    show ?thesis
      by (rule http_connection_event_ok [OF inv ok l here Http_connection _ _ _ event])
         (use ses_idle [OF p] in auto)
  next
    case (Adm_connection c)
    have "adm_connection_event eops Keep_connection (c\<lparr>ceh_session := ceh_session c\<rparr>) fd mon = (obj, mon', exc)"
      using call by (simp add: listener_is_idle_def Adm_connection)
    from adm_connection_event_ok [OF inv ok l here Adm_connection this] show ?thesis .
  qed (use call callback_post_same [OF inv ok l] in \<open>auto simp: listener_is_idle_def\<close>)
qed

end

sublocale http_sessions \<subseteq> server: listener_contract eops watched clock
  "server_ops eops calls kops hops req_handler" "listener_ok p_ok"
  by unfold_locales
     (simp_all add: server_ops_def listener_is_ready_ok listener_is_idle_ok listener_destroy_ok)

text \<open>
  With any streams and any request handler that meet their contracts, the invariant of the
  request processor is one.
\<close>

locale http_service =
  server_contract eops watched clock calls +
  session_io "inet_ops kops" incoming sent m_read_disabled hops h_inv h_responding
  for eops :: "'k epoll_ops" and watched and clock and calls :: "('k, 'c) server_calls"
    and kops :: "'c kernel_ops" and incoming and sent
    and hops :: "('h, 'e) handler_ops" and h_inv and h_responding +
  fixes req_handler :: 'h
  assumes ac_handler: "h_inv req_handler"

sublocale http_service \<subseteq> http_sessions eops watched clock calls kops hops req_handler
  "proc_inv h_inv h_responding"
proof unfold_locales
  fix k fd k' cfd c address port
  show "proc_inv h_inv h_responding (request_processor_init (inet_connection_init c address port) req_handler)"
    using proc_inv_init [of h_inv req_handler h_responding "inet_connection_init c address port"] ac_handler by simp
next
  fix p :: "('c inet_connection, 'h) request_processor"
  assume p: "proc_inv h_inv h_responding p"
  have ends: "st \<noteq> Proc_more_data_needed \<Longrightarrow> is_session_terminated st" for st
    by (cases st) (simp_all add: is_session_terminated_def)
  show "\<exists>r. socket_is_ready (inet_ops kops) hops p = Some r
      \<and> (case r of
           Inl e \<Rightarrow> thrown e
         | Inr (p', res) \<Rightarrow> pr_io_dir res = select_io_direction (fst (m_state p'))
             \<and> (is_session_terminated (pr_status res) \<or> proc_inv h_inv h_responding p'))"
  proof -
    from socket_is_ready_ok [OF p] obtain r where ready: "socket_is_ready (inet_ops kops) hops p = Some r"
      and post: "case r of
         Inl e \<Rightarrow> thrown e
       | Inr (p', res) \<Rightarrow> proc_base h_inv p' \<and> pr_io_dir res = select_io_direction (fst (m_state p'))
           \<and> (pr_status res = Proc_more_data_needed \<longrightarrow> proc_inv h_inv h_responding p')" by blast
    show ?thesis
    proof (cases r)
      case (Inr x)
      obtain p' res where x: "x = (p', res)" by (cases x)
      with ready post Inr ends [of "pr_status res"] show ?thesis
        by (cases "pr_status res = Proc_more_data_needed") simp_all
    qed (use ready post in simp)
  qed
  show "case socket_is_idle (inet_ops kops) hops p of
         Inl e \<Rightarrow> thrown e
       | Inr (p', res) \<Rightarrow> pr_io_dir res = select_io_direction (fst (m_state p'))
           \<and> (is_session_terminated (pr_status res) \<or> proc_inv h_inv h_responding p')"
    using socket_is_idle_ok [OF p]
    by (auto simp: is_session_terminated_def split: sum.splits if_splits)
qed

context http_service
begin

lemma service_sessions:
  "http_sessions eops watched clock calls kops hops req_handler (proc_inv h_inv h_responding)"
  by (rule http_sessions_axioms)

end

end
