(* ===== verification/Header_Size.thy ===== *)
theory Header_Size
  imports Request_Parser
begin

text \<open>
  How large a header the parser of \<^verbatim>\<open>src/lib/http_request_header_parser.hpp\<close> can
  build: what it holds grows by at most five characters with each character it is fed, those
  that the text of a header has between its parts included. A server that limits the bytes
  of a header, as \<^verbatim>\<open>src/lib/http_read_request_header.hpp\<close> does, limits its memory.
\<close>

definition fields_size :: "field_map \<Rightarrow> nat" where
  "fields_size m = length (concat (map field_text m))"

definition parser_size :: "request_header_parser \<Rightarrow> nat" where
  "parser_size p = length (m_buffer p) + length (m_current_field_name p)
     + length (method_value (rl_method (req_line (m_req_header p))))
     + length (uri_value (rl_request_target (req_line (m_req_header p))))
     + fields_size (req_fields (m_req_header p))"

lemma fields_size_simps [simp]:
  "fields_size [] = 0"
  "fields_size ((k, v) # m) = length (name_value k) + length v + 4 + fields_size m"
  by (simp_all add: fields_size_def field_text_def)

lemma om_emplace_size:
  "om_emplace cmp k v m = (m', inserted) \<Longrightarrow>
   fields_size m' = (if inserted then length (name_value k) + length v + 4 else 0) + fields_size m"
  by (induction cmp k v m arbitrary: m' inserted rule: om_emplace.induct)
     (auto split: ordering.splits prod.splits)

lemma om_adjust_size:
  "fields_size (om_adjust cmp k (\<lambda>v. v @ w) m) \<le> fields_size m + length w"
  by (induction cmp k "\<lambda>v. v @ w" m rule: om_adjust.induct) auto

lemma field_map_append_size:
  "fields_size (field_map_append k v m) \<le> fields_size m + length (name_value k) + length (value_value v) + 4"
  using om_adjust_size [of field_name_cmp k "'', '' @ value_value v" m]
  by (auto simp: field_map_append_def dest: om_emplace_size om_emplace_not_inserted split: prod.splits)

lemma rtrim_length: "length (rtrim s) \<le> length s"
  using length_dropWhile_le [of is_strict_whitespace "rev s"] by (simp add: rtrim_def)

lemma parse_step_size:
  assumes "parse_step p c = Inr (p', r)"
  shows "parser_size p' \<le> parser_size p + 5"
proof -
  have field: "fields_size (field_map_append (Field_name (m_current_field_name p)) v m)
      \<le> fields_size m + length (m_current_field_name p) + length (value_value v) + 4" for v m
    using field_map_append_size [of "Field_name (m_current_field_name p)"] by simp
  show ?thesis
    using assms rtrim_length [of "m_buffer p"]
      field [of "Field_value []" "req_fields (m_req_header p)"]
      field [of "Field_value (rtrim (m_buffer p))" "req_fields (m_req_header p)"]
    by (auto simp: parse_step_def step_defs Let_def parser_size_def
        split: parser_state.splits if_splits option.splits)
qed

lemma parse_size: "parse p s = Inr (p', rest, ec) \<Longrightarrow> parser_size p' + 5 * length rest \<le> parser_size p + 5 * length s"
proof (induction p s rule: parse.induct)
  case (2 p ch input)
  then show ?case
    by (fastforce dest: parse_step_size split: sum.splits prod.splits option.splits)
qed simp

lemma request_text_size:
  "length (request_text h) = length (method_value (rl_method (req_line h)))
     + length (uri_value (rl_request_target (req_line h)))
     + length (version_to_string (rl_http_version (req_line h))) + fields_size (req_fields h) + 11"
  by (simp add: request_text_def fields_size_def)

lemma req_header_parser_error_code_to_string_length: "length (req_header_parser_error_code_to_string ec) \<le> 30"
  by (cases ec) simp_all

text \<open>The text of a header of version 1.1 against the bytes it was read from.\<close>

lemma completed_header_size:
  assumes "parse request_header_parser_init s = Inr (p, rest, Completed)"
    and "rl_http_version (req_line (take_result p)) = mk_version 1 1"
  shows "length (request_text (take_result p)) \<le> 5 * length s + 14"
proof -
  have "parser_size p \<le> 5 * length s"
    using parse_size [OF assms(1)]
    by (simp add: parser_size_def request_header_parser_init_def request_header_default_def)
  moreover have "length (version_to_string (mk_version 1 1)) = 3"
    by (simp add: version_to_string_def std_to_string.simps)
  ultimately show ?thesis
    using assms(2) by (simp add: request_text_size parser_size_def take_result_def)
qed

text \<open>
  C16: the memory of the parser. However a header is cut into pieces, what the parser holds
  after them (the buffer, the name of the current field, and the method, the target and the
  fields read so far, each field as long as its line) is at most five times the bytes it was
  fed.
\<close>

theorem parser_memory_bounded:
  assumes "parse_pieces request_header_parser_init ss = Inr (p, rest, ec)"
  shows "length (m_buffer p) + length (m_current_field_name p)
      + length (method_value (rl_method (req_line (take_result p))))
      + length (uri_value (rl_request_target (req_line (take_result p))))
      + length (concat (map field_text (req_fields (take_result p))))
    \<le> 5 * length (concat ss)"
  using parse_size [OF assms [unfolded parse_cut]]
  by (simp add: parser_size_def fields_size_def take_result_def request_header_parser_init_def
      request_header_default_def)

theorem parser_memory_bounded_witness:
  "parse_pieces request_header_parser_init [''GE'', ''T /a''] =
     Inr (request_header_parser_init\<lparr>m_current_state := Req_line_read_req_target, m_buffer := ''/a'',
       m_req_header := request_header_default\<lparr>req_line := (req_line request_header_default)
         \<lparr>rl_method := Request_method ''GET''\<rparr>\<rparr>\<rparr>, [], More_data_needed)
   \<and> length ''/a'' + length ''GET'' \<le> 5 * length (concat [''GE'', ''T /a''])"
  (is "?run = Inr (?p, [], More_data_needed) \<and> _")
proof -
  have "is_token ''GET''"
    by (simp add: is_token_iff is_token_char_def is_not_token_char_iff is_delimiter_def is_not_printable_iff)
  then have run: "?run = Inr (?p, [], More_data_needed)"
    by (simp add: parse_step_def step_defs request_header_parser_init_def request_header_default_def method_create_def)
  from parser_memory_bounded [OF run] run show ?thesis
    by (simp add: take_result_def request_header_parser_init_def request_header_default_def)
qed

end
