(* ===== verification/Echo_Reference.thy ===== *)
theory Echo_Reference
  imports Echo_Handler Request_Processor Header_Size "HOL-Library.Sublist"
begin

text \<open>
  What the echo server should answer, as a function of all the bytes a peer sends: a list of
  replies. A reply is the response to a whole request, which has the request for its body,
  or a refusal of something that is not a whole request. After a refusal nothing more is
  read from the connection, but the bytes that have been read and not used are taken for
  another request.
\<close>

section \<open>Requests and replies on the wire\<close>

type_synonym request = "request_header \<times> string"

definition wire_request :: "request \<Rightarrow> string" where
  "wire_request r = request_text (fst r) @ snd r"

definition request_stream :: "request list \<Rightarrow> string" where
  "request_stream rs = concat (map wire_request rs)"

datatype reply =
    Echoed request
  | Broken_off request
  | Refused status string string

text \<open>A refusal has a status, a message and the bytes behind what was refused.\<close>

fun reply_status :: "reply \<Rightarrow> status" where
  "reply_status (Echoed r) = Ok"
| "reply_status (Broken_off r) = Bad_request"
| "reply_status (Refused st msg rest) = st"

fun reply_body :: "reply \<Rightarrow> string" where
  "reply_body (Echoed r) = wire_request r"
| "reply_body (Broken_off r) = ''Client claims there is more data to read''"
| "reply_body (Refused st msg rest) = msg"

fun is_refusal :: "reply \<Rightarrow> bool" where
  "is_refusal (Echoed r) = False"
| "is_refusal (Broken_off r) = True"
| "is_refusal (Refused st msg rest) = True"

fun unread :: "reply \<Rightarrow> string" where
  "unread (Echoed r) = []"
| "unread (Broken_off r) = []"
| "unread (Refused st msg rest) = rest"

definition reply_header :: "status \<Rightarrow> string \<Rightarrow> response_header" where
  "reply_header st body =
     \<lparr>resp_status_line = \<lparr>sl_http_version = mk_version 1 1, sl_status_code = st,
        sl_reason_phrase = status_to_string st\<rparr>,
      resp_fields = [(Field_name ''Content-Length'', std_to_string (length body)),
                     (Field_name ''Content-Type'', ''text/plain'')]\<rparr>"

definition reply_head :: "reply \<Rightarrow> response_header" where
  "reply_head a = reply_header (reply_status a) (reply_body a)"

definition reply_text :: "reply \<Rightarrow> string" where
  "reply_text a = response_text (reply_head a) @ reply_body a"

definition reply_stream :: "reply list \<Rightarrow> string" where
  "reply_stream as = concat (map reply_text as)"

text \<open>The responses to whole requests.\<close>

abbreviation echo_response_header :: "string \<Rightarrow> response_header" where
  "echo_response_header \<equiv> reply_header Ok"

definition echo_response :: "request \<Rightarrow> string" where
  "echo_response r = response_text (echo_response_header (wire_request r)) @ wire_request r"

definition response_stream :: "request list \<Rightarrow> string" where
  "response_stream rs = concat (map echo_response rs)"

lemma stream_simps [simp]:
  "request_stream [] = []" "request_stream (r # rs) = wire_request r @ request_stream rs"
  "response_stream [] = []" "response_stream (r # rs) = echo_response r @ response_stream rs"
  "response_stream (rs @ qs) = response_stream rs @ response_stream qs"
  "reply_stream [] = []" "reply_stream (a # as) = reply_text a @ reply_stream as"
  "reply_stream (as @ bs) = reply_stream as @ reply_stream bs"
  by (simp_all add: request_stream_def response_stream_def reply_stream_def)

lemma reply_stream_echoed: "reply_stream (map Echoed rs) = response_stream rs"
  by (induction rs) (simp_all add: reply_text_def reply_head_def echo_response_def)

lemma request_text_nonempty [simp]: "request_text h \<noteq> []"
  by (simp add: request_text_def)

text \<open>
  A request the server accepts: valid, of version 1.1, with the length it announces, a
  header within the limit of the server and, all in all, no longer than a string can be.
\<close>

definition servable :: "request \<Rightarrow> bool" where
  "servable r \<longleftrightarrow> wf_request_header (fst r) \<and> rl_http_version (req_line (fst r)) = mk_version 1 1
     \<and> get_content_length_request (fst r) = Some (length (snd r))
     \<and> length (request_text (fst r)) \<le> max_header_size_default
     \<and> length (wire_request r) \<le> string_max_size"

text \<open>A reply for which the handler holds no longer string than there can be.\<close>

fun reply_fits :: "reply \<Rightarrow> bool" where
  "reply_fits (Echoed r) \<longleftrightarrow> length (wire_request r) \<le> string_max_size"
| "reply_fits (Broken_off r) \<longleftrightarrow> length (wire_request r) \<le> string_max_size"
| "reply_fits (Refused st msg rest) \<longleftrightarrow> length msg \<le> string_max_size"

section \<open>The reference\<close>

text \<open>
  The verdict on the bytes from the beginning of a header, when no more will come: the
  header with the length of its body and what is behind it, or the status and the message
  of the answer, and what is behind the bytes that were looked at. A header is looked for in no more bytes than the limit.
\<close>

datatype header_verdict =
    Good_header request_header nat string
  | Bad_header status string string

definition judge_header :: "request_header \<Rightarrow> string \<Rightarrow> header_verdict" where
  "judge_header h rest =
     (if rl_http_version (req_line h) \<noteq> mk_version 1 1
      then Bad_header Http_version_not_supported ''This web server only supports HTTP version 1.1'' rest
      else
        (case get_content_length_request h of
           None \<Rightarrow> Bad_header Bad_request ''Bad content-length'' rest
         | Some n \<Rightarrow> Good_header h n rest))"

definition read_header :: "string \<Rightarrow> header_verdict" where
  "read_header s =
     (case parse request_header_parser_init (take max_header_size_default s) of
        Inl e \<Rightarrow> Bad_header Internal_server_error [] []
      | Inr (p, rest, ec) \<Rightarrow>
          if ec = Completed
          then judge_header (take_result p) (rest @ drop max_header_size_default s)
          else if ec \<noteq> More_data_needed
          then Bad_header Bad_request (req_header_parser_error_code_to_string ec)
            (rest @ drop max_header_size_default s)
          else if max_header_size_default \<le> length s
          then Bad_header Request_entity_too_large ''Header truncated'' (drop max_header_size_default s)
          else Bad_header Bad_request ''Header truncated'' [])"

lemma judge_header_good:
  "judge_header h rest = Good_header h' n rest' \<Longrightarrow> h' = h \<and> rest' = rest"
  by (auto simp: judge_header_def split: if_splits option.splits)

lemma parse_rest_length: "parse p s = Inr (p', rest, ec) \<Longrightarrow> s \<noteq> [] \<Longrightarrow> length rest < length s"
proof (induction p s rule: parse.induct)
  case (2 p ch input)
  then show ?case
    by (cases "input = []") (fastforce split: sum.splits prod.splits option.splits)+
qed simp

lemma read_header_shorter:
  assumes "read_header s = Good_header h n rest"
  shows "length rest < length s"
proof (cases "s = []")
  case True
  with assms show ?thesis by (simp add: read_header_def max_header_size_default_def)
next
  case False
  with assms parse_rest_length [of request_header_parser_init "take max_header_size_default s"] show ?thesis
    by (fastforce simp: read_header_def max_header_size_default_def
        split: sum.splits prod.splits if_splits dest: judge_header_good)
qed

text \<open>
  The replies to a stream that begins with a header. Behind a whole request the server waits,
  and ends when nothing comes.
\<close>

function header_replies :: "string \<Rightarrow> reply list" where
  "header_replies s =
     (case read_header s of
        Bad_header st msg rest \<Rightarrow> [Refused st msg rest]
      | Good_header h n rest \<Rightarrow>
          if length rest < n then [Broken_off (h, rest)]
          else Echoed (h, take n rest) #
            (if drop n rest = [] then [] else header_replies (drop n rest)))"
  by auto
termination
  by (relation "measure length") (auto dest: read_header_shorter)

declare header_replies.simps [simp del]

definition later_replies :: "string \<Rightarrow> reply list" where
  "later_replies s = (if s = [] then [] else header_replies s)"

text \<open>The same from the middle of a body, of which \<open>n\<close> bytes are missing.\<close>

definition body_replies :: "request_header \<Rightarrow> string \<Rightarrow> nat \<Rightarrow> string \<Rightarrow> reply list" where
  "body_replies h body n s =
     (if length s < n then [Broken_off (h, body @ s)]
      else Echoed (h, body @ take n s) # later_replies (drop n s))"

lemma header_replies_eq:
  "header_replies s =
     (case read_header s of
        Bad_header st msg rest \<Rightarrow> [Refused st msg rest]
      | Good_header h n rest \<Rightarrow> body_replies h [] n rest)"
  by (subst header_replies.simps)
     (simp add: body_replies_def later_replies_def split: header_verdict.split)

lemma body_replies_more: "body_replies h (body @ s) n t = body_replies h body (length s + n) (s @ t)"
  by (simp add: body_replies_def)

section \<open>The reference, from what the parser says\<close>

lemma read_header_completed:
  assumes "parse request_header_parser_init raw = Inr (p, [], Completed)"
    and "length raw \<le> max_header_size_default"
  shows "read_header (raw @ rest) = judge_header (take_result p) rest"
  using assms by (simp add: read_header_def parse_append)

lemma read_header_error:
  assumes "parse request_header_parser_init raw = Inr (p, [], ec)"
    and "ec \<noteq> Completed" "ec \<noteq> More_data_needed"
    and "length raw \<le> max_header_size_default"
  shows "read_header (raw @ rest) = Bad_header Bad_request (req_header_parser_error_code_to_string ec) rest"
  using assms by (simp add: read_header_def parse_append)

lemma read_header_truncated:
  assumes "parse request_header_parser_init raw = Inr (p, [], More_data_needed)"
  shows "length raw = max_header_size_default \<Longrightarrow>
      read_header (raw @ rest) = Bad_header Request_entity_too_large ''Header truncated'' rest"
    and "length raw < max_header_size_default \<Longrightarrow> read_header raw = Bad_header Bad_request ''Header truncated'' []"
  using assms by (simp_all add: read_header_def)

text \<open>Well-formed requests are all echoed, in order.\<close>

lemma read_header_servable:
  assumes "servable r"
  shows "read_header (wire_request r @ rest) = Good_header (fst r) (length (snd r)) (snd r @ rest)"
proof -
  from assms parse_text [of "fst r" "[]"] obtain p where
    "parse request_header_parser_init (request_text (fst r)) = Inr (p, [], Completed)"
    "take_result p = fst r" by (auto simp: servable_def)
  with assms read_header_completed [of "request_text (fst r)" p "snd r @ rest"] show ?thesis
    by (simp add: wire_request_def servable_def judge_header_def)
qed

lemma header_replies_servable:
  assumes "list_all servable rs" and "rs \<noteq> []"
  shows "header_replies (request_stream rs) = map Echoed rs"
  using assms
proof (induction rs)
  case (Cons r rs)
  have "request_stream rs \<noteq> []" if "rs \<noteq> []"
    using that by (cases rs) (simp_all add: wire_request_def)
  with Cons read_header_servable [of r "[]"] show ?case
    by (cases "rs = []")
       (simp_all add: header_replies_eq read_header_servable body_replies_def later_replies_def)
qed simp

lemma replies_fit_servable: "list_all servable rs \<Longrightarrow> list_all reply_fits (map Echoed rs)"
  by (induction rs) (simp_all add: servable_def)

text \<open>
  No reply to a stream that a peer can send in a lifetime is too long, for a header that is
  accepted is no longer than the limit on headers allows, and a body is part of the stream.
\<close>

lemma read_header_size:
  assumes "read_header s = Good_header h n rest"
  shows "length (request_text h) \<le> 5 * max_header_size_default + 14"
proof -
  from assms obtain p rest' where
    "parse request_header_parser_init (take max_header_size_default s) = Inr (p, rest', Completed)"
    and h: "h = take_result p" "rl_http_version (req_line h) = mk_version 1 1"
    by (auto simp: read_header_def judge_header_def split: sum.splits if_splits option.splits)
  from completed_header_size [OF this(1)] h show ?thesis by simp
qed

lemma read_header_message: "read_header s = Bad_header st msg rest \<Longrightarrow> length msg \<le> 100"
  by (auto simp: read_header_def judge_header_def order.trans [OF req_header_parser_error_code_to_string_length]
      split: sum.splits if_splits option.splits)

lemma header_replies_fit:
  "length s < 2 ^ 61 \<Longrightarrow> list_all reply_fits (header_replies s)"
proof (induction s rule: header_replies.induct)
  case (1 s)
  show ?case
  proof (cases "read_header s")
    case (Bad_header st msg rest)
    with read_header_message [OF this] show ?thesis by (simp add: header_replies_eq string_max_size_def)
  next
    case (Good_header h n rest)
    have short: "length rest < 2 ^ 61" using 1(2) read_header_shorter [OF Good_header] by simp
    moreover have "length (request_text h) \<le> 2 ^ 20"
      using read_header_size [OF Good_header] by (simp add: max_header_size_default_def)
    ultimately have fits: "length (request_text h) + length rest \<le> string_max_size"
      by (simp add: string_max_size_def)
    have "list_all reply_fits (later_replies (drop n rest))" if "\<not> length rest < n"
      using 1(1) [OF Good_header that] short by (simp add: later_replies_def)
    with fits show ?thesis
      by (simp add: header_replies_eq [of s] Good_header body_replies_def wire_request_def)
  qed
qed

section \<open>After a refusal\<close>

text \<open>
  The bytes that are in the receive window when a request is refused are taken for the
  beginning of another request, and so for the only part of one: how many of the bytes
  behind the refused ones that are depends on the pieces they came in.
\<close>

inductive with_leftovers :: "reply list \<Rightarrow> reply list \<Rightarrow> bool" where
  no_leftovers: "with_leftovers as as"
| leftovers: "with_leftovers as bs \<Longrightarrow> bs \<noteq> [] \<Longrightarrow> is_refusal (last bs) \<Longrightarrow> k \<le> processor_buffer_size \<Longrightarrow>
    with_leftovers as (bs @ later_replies (take k (unread (last bs))))"

lemma with_leftovers_prefix: "with_leftovers as bs \<Longrightarrow> prefix as bs"
  by (induction rule: with_leftovers.induct) (auto intro: prefix_order.trans)

lemma with_leftovers_trans: "with_leftovers bs cs \<Longrightarrow> with_leftovers as bs \<Longrightarrow> with_leftovers as cs"
  by (induction rule: with_leftovers.induct) (auto intro: with_leftovers.leftovers)

lemma no_refusal_no_leftovers:
  "with_leftovers as bs \<Longrightarrow> \<not> (as \<noteq> [] \<and> is_refusal (last as)) \<Longrightarrow> bs = as"
  by (induction rule: with_leftovers.induct) auto

lemma echoed_no_leftovers: "with_leftovers (map Echoed rs) bs \<Longrightarrow> bs = map Echoed rs"
  by (erule no_refusal_no_leftovers) (auto simp: last_map)

lemma nothing_left_no_leftovers:
  "with_leftovers as bs \<Longrightarrow> as \<noteq> [] \<Longrightarrow> unread (last as) = [] \<Longrightarrow> bs = as"
  by (induction rule: with_leftovers.induct) (auto simp: later_replies_def)

lemma leftovers_fit: "k \<le> processor_buffer_size \<Longrightarrow> list_all reply_fits (later_replies (take k s))"
  using header_replies_fit [of "take k s"]
  by (auto simp: later_replies_def processor_buffer_size_def)

text \<open>
  A peer that is silent for too long, in the middle of a request or between two, is refused.
\<close>

definition timeout_reply :: reply where
  "timeout_reply = Refused Request_timeout (status_to_string Request_timeout) []"

lemma timeout_reply_simps [simp]:
  "is_refusal timeout_reply" "reply_status timeout_reply = Request_timeout"
  "reply_body timeout_reply = status_to_string Request_timeout" "reply_fits timeout_reply"
  "unread timeout_reply = []"
  by (simp_all add: timeout_reply_def string_max_size_def)

text \<open>All the replies a peer may be given to a stream, however long it takes over it.\<close>

inductive replies_to :: "string \<Rightarrow> reply list \<Rightarrow> bool" where
  replies_whole: "replies_to s (header_replies s)"
| replies_leftovers: "replies_to s as \<Longrightarrow> with_leftovers as bs \<Longrightarrow> replies_to s bs"
| replies_timeout: "replies_to s as \<Longrightarrow> replies_to s (take k as @ [timeout_reply])"

text \<open>The messages of the answers are C strings without a zero in them.\<close>

lemma make_unique_cstr_messages [simp]:
  "make_unique_cstr (req_header_parser_error_code_to_string ec)
     = Some (req_header_parser_error_code_to_string ec)"
  "make_unique_cstr (status_to_string st) = Some (status_to_string st)"
  by (cases ec; simp) (cases st; simp)

end
