(* ===== verification/Echo_Session.thy ===== *)
theory Echo_Session
  imports Processor_Contracts Echo_Reference
begin

text \<open>
  The echo server on one connection: a request processor over any socket that meets its
  contract, with the request handler of \<^verbatim>\<open>src/bin/http_echo.cpp\<close>. Whatever a peer
  sends, in pieces of any size and without waiting for answers, it gets the replies of the
  reference in order and, up to the end of these, nothing else.
\<close>

section \<open>The handler on a whole request\<close>

lemma echo_renders_request:
  "concat (map (\<lambda>(k, v). name_value k @ '': '' @ v @ CRLF) fs) = concat (map field_text fs)"
  by (induction fs) (auto simp: field_text_def)

lemma echo_finalize_header_eq:
  "echo_finalize_header h header =
     (if length (request_text header) \<le> string_max_size
      then Inr (h\<lparr>m_response_body := request_text header, m_read_offset := None\<rparr>,
             \<lparr>http_status = Ok, error_message = None\<rparr>)
      else Inl (Exception_thrown ''std::length_error''))"
proof -
  have "method_value (rl_method (req_line header)) @ '' '' @ uri_value (rl_request_target (req_line header))
        @ '' '' @ ''HTTP/'' @ version_to_string (rl_http_version (req_line header)) @ CRLF
        @ concat (map (\<lambda>(k, v). name_value k @ '': '' @ v @ CRLF) (req_fields header)) @ CRLF
      = request_text header"
    using echo_renders_request [of "req_fields header"] by (simp add: request_text_def)
  then show ?thesis
    unfolding echo_finalize_header_def by (simp add: check_length_def)
qed

lemma echo_fed:
  "content_fed echo_ops h s h' stop \<Longrightarrow> m_response_body h' = m_response_body h @ s \<and> stop = None"
proof (induction rule: content_fed.induct)
  case (fed_more h bytes n h1 k ec s h2 stop)
  then show ?case
    by (auto simp: echo_ops_def echo_process_request_content_def check_length_cases)
next
  case (fed_stop h bytes n h1 k ec)
  then show ?case
    by (cases ec) (auto simp: echo_ops_def echo_process_request_content_def)
qed simp

lemma echo_drawn:
  "content_drawn echo_ops h s h' \<Longrightarrow> m_read_offset h = Some off \<Longrightarrow>
   \<exists>off'. m_read_offset h' = Some off' \<and> m_response_body h' = m_response_body h
     \<and> drop off (m_response_body h) = s @ drop off' (m_response_body h)"
proof (induction arbitrary: off rule: content_drawn.induct)
  case (drawn_more h n h1 data ec rest h2)
  let ?k = "min n (length (m_response_body h) - off)"
  from drawn_more(1,4) have h1: "h1 = h\<lparr>m_read_offset := Some (off + ?k)\<rparr>"
      "data = take ?k (drop off (m_response_body h))"
    by (auto simp: echo_ops_def echo_read_response_content_def Let_def)
  with drawn_more(3) [of "off + ?k"] show ?case
    using append_take_drop_id [of ?k "drop off (m_response_body h)"] by (auto simp: add.commute)
qed simp

lemma echo_read_end:
  assumes "read_response_content echo_ops h0 m = Inr (h, [], ec)" and "0 < m"
  shows "\<exists>off. m_read_offset h = Some off \<and> drop off (m_response_body h) = []"
  using assms
  by (auto simp: echo_ops_def echo_read_response_content_def Let_def min_def
      split: option.splits if_splits)

section \<open>Where the server stands\<close>

text \<open>
  The replies to what the peer sends are \<open>answered @ todo\<close>. Those of \<open>answered\<close> have been sent
  in full; the processor is somewhere in the first of \<open>todo\<close>, with the bytes that it
  depends on in the receive window and still to come, and what remains of the current
  response in the serializer, the handler and the send window.
\<close>

definition pending_input :: "('s \<Rightarrow> string) \<Rightarrow> ('s, 'h) request_processor \<Rightarrow> string" where
  "pending_input incoming proc =
     span_to_read (m_recv_span proc) @ incoming (connection (m_session proc))"

definition serving_header ::
  "('s \<Rightarrow> string) \<Rightarrow> reply list \<Rightarrow> read_request_header \<Rightarrow> ('s, 'h) request_processor \<Rightarrow> bool" where
  "serving_header incoming todo rd proc \<longleftrightarrow>
     (\<exists>consumed. todo = header_replies (consumed @ pending_input incoming proc)
        \<and> parse request_header_parser_init consumed
            = Inr (m_req_header_parser rd, [], More_data_needed)
        \<and> length consumed + m_bytes_to_read rd = max_header_size_default)"

definition serving_body ::
  "('s \<Rightarrow> string) \<Rightarrow> reply list \<Rightarrow> nat \<Rightarrow> ('s, echo_http_request) request_processor \<Rightarrow> bool" where
  "serving_body incoming todo n proc \<longleftrightarrow>
     (\<exists>h body. todo = body_replies h body n (pending_input incoming proc)
        \<and> m_response_body (request_handler (m_session proc)) = request_text h @ body)"

definition serving_response_header ::
  "('s \<Rightarrow> string) \<Rightarrow> ('s \<Rightarrow> string) \<Rightarrow> reply list \<Rightarrow> reply list \<Rightarrow>
   response_header_serializer \<Rightarrow> ('s, echo_http_request) request_processor \<Rightarrow> bool" where
  "serving_response_header incoming sent answered todo ser proc \<longleftrightarrow>
     (\<exists>a. todo = a # later_replies (pending_input incoming proc)
        \<and> m_response_body (request_handler (m_session proc)) = reply_body a
        \<and> m_read_offset (request_handler (m_session proc)) = Some 0
        \<and> rsp_header (s_response_info (m_session proc)) = reply_head a
        \<and> sent (connection (m_session proc)) @ span_to_read (m_send_span proc) @ serializer_rest ser
            = reply_stream answered @ response_text (reply_head a))"

definition serving_response_body ::
  "('s \<Rightarrow> string) \<Rightarrow> ('s \<Rightarrow> string) \<Rightarrow> reply list \<Rightarrow> reply list \<Rightarrow>
   nat \<Rightarrow> ('s, echo_http_request) request_processor \<Rightarrow> bool" where
  "serving_response_body incoming sent answered todo n proc \<longleftrightarrow>
     (\<exists>a off. todo = a # later_replies (pending_input incoming proc)
        \<and> m_response_body (request_handler (m_session proc)) = reply_body a
        \<and> m_read_offset (request_handler (m_session proc)) = Some off
        \<and> n = length (span_to_read (m_send_span proc) @ drop off (reply_body a))
        \<and> sent (connection (m_session proc)) @ span_to_read (m_send_span proc)
            @ drop off (reply_body a) = reply_stream (answered @ [a]))"

text \<open>Between two replies the send window is empty.\<close>

definition between_replies ::
  "('s \<Rightarrow> string) \<Rightarrow> reply list \<Rightarrow> ('s, 'h) request_processor \<Rightarrow> bool" where
  "between_replies sent answered proc \<longleftrightarrow>
     span_to_read (m_send_span proc) = [] \<and> sent (connection (m_session proc)) = reply_stream answered"

definition serving ::
  "('s \<Rightarrow> string) \<Rightarrow> ('s \<Rightarrow> string) \<Rightarrow> reply list \<Rightarrow> reply list \<Rightarrow>
   ('s, echo_http_request) request_processor \<Rightarrow> bool" where
  "serving incoming sent answered todo proc \<longleftrightarrow>
     (case fst (m_state proc) of
        Read_request_header rd \<Rightarrow>
          between_replies sent answered proc \<and> serving_header incoming todo rd proc
      | Read_request_body n \<Rightarrow>
          between_replies sent answered proc \<and> serving_body incoming todo n proc
      | Write_response_header ser \<Rightarrow> serving_response_header incoming sent answered todo ser proc
      | Write_response_body n \<Rightarrow> serving_response_body incoming sent answered todo n proc
      | Wait_for_data \<Rightarrow>
          between_replies sent answered proc \<and> todo = later_replies (pending_input incoming proc))"

text \<open>A processor that waits for its peer has used all that it has read.\<close>

definition resting :: "('s, 'h) request_processor \<Rightarrow> bool" where
  "resting proc \<longleftrightarrow> (select_io_direction (fst (m_state proc)) = Io_input \<longrightarrow> span_to_read (m_recv_span proc) = [])"

section \<open>The states, one by one\<close>

locale echo_session = session_io ops incoming sent read_stopped echo_ops echo_inv echo_responding
  for ops :: "'s socket_ops"
    and incoming :: "'s \<Rightarrow> string"
    and sent :: "'s \<Rightarrow> string"
    and read_stopped :: "'s \<Rightarrow> bool"
begin

text \<open>
  What a visit of a state leaves: the next state is served, or the answers are cut short, or
  the refusal is made that is due.
\<close>

definition served ::
  "reply list \<Rightarrow> reply list \<Rightarrow> ('s, echo_http_request) request_processor \<Rightarrow>
   session_state_response \<Rightarrow> bool" where
  "served answered todo proc' resp \<longleftrightarrow>
     (case st_status resp of
        State_completed \<Rightarrow>
          (\<forall>st. make_state_handler (fst (m_state proc')) (s_request_info (m_session proc'))
              (s_response_info (m_session proc')) = Inr st \<longrightarrow>
            serving incoming sent answered todo (proc'\<lparr>m_state := st\<rparr>)
            \<or> (\<exists>a as. todo = a # as \<and> serving incoming sent (answered @ [a]) as (proc'\<lparr>m_state := st\<rparr>)))
      | State_more_data_needed \<Rightarrow> serving incoming sent answered todo proc' \<and> resting proc'
          \<and> (read_refused ops (connection (m_session proc')) Op_would_block
             \<or> write_refused ops (connection (m_session proc')) Op_would_block)
      | Connection_closed \<Rightarrow>
          prefix (sent (connection (m_session proc'))) (reply_stream (answered @ todo))
          \<and> (write_refused ops (connection (m_session proc')) Op_completed
             \<or> read_refused ops (connection (m_session proc')) Op_error
             \<or> todo = [] \<and> sent (connection (m_session proc')) = reply_stream answered)
      | State_io_error \<Rightarrow>
          prefix (sent (connection (m_session proc'))) (reply_stream (answered @ todo))
          \<and> (read_refused ops (connection (m_session proc')) Op_error
             \<or> write_refused ops (connection (m_session proc')) Op_error)
      | Client_error_detected \<Rightarrow>
          between_replies sent answered proc'
          \<and> (\<exists>a. todo = [a] \<and> is_refusal a \<and> http_status (st_result resp) = reply_status a
               \<and> error_message (st_result resp) = Some (reply_body a)
               \<and> unread a = pending_input incoming proc')
      | Write_response_failed \<Rightarrow> False)"

lemma prefix_answers: "sent s = reply_stream answered \<Longrightarrow> prefix (sent s) (reply_stream (answered @ todo))"
  by simp

text \<open>What a read that returned nothing leads to, if the end of the input is a refusal.\<close>

lemma make_read_response_served:
  assumes "read_refused ops (connection (m_session proc')) res"
    and "between_replies sent answered proc'"
    and "span_to_read (m_recv_span proc') = []"
    and "res = Op_completed \<Longrightarrow> incoming (connection (m_session proc')) = [] \<Longrightarrow>
      \<exists>a. todo = [a] \<and> is_refusal a \<and> reply_status a = Bad_request
        \<and> make_unique_cstr msg = Some (reply_body a) \<and> unread a = []"
    and "res = Op_would_block \<Longrightarrow> serving incoming sent answered todo proc'"
  shows "served answered todo proc' (make_read_response res msg)"
proof (cases "res = Op_completed")
  case True
  with assms(1) have "incoming (connection (m_session proc')) = []" by (auto dest: read_refused_eof)
  with True assms(2-4) show ?thesis
    by (auto simp: served_def make_read_response_def pending_input_def)
next
  case False
  with assms show ?thesis
    by (cases res) (auto simp: served_def make_read_response_def between_replies_def resting_def)
qed

text \<open>Reading a request's header: more of it, its end, or a refusal.\<close>

lemma echo_header_completed:
  assumes "judge_header h rest = Good_header h' n rest'" and "length (request_text h) \<le> string_max_size"
  shows "header_completed echo_ops ses h =
    Inr (ses\<lparr>request_handler := (request_handler ses)\<lparr>m_response_body := request_text h, m_read_offset := None\<rparr>,
            s_request_info := \<lparr>ri_header = h, ri_content_length = n\<rparr>\<rparr>,
         state_response State_completed Ok None)"
  using assms
  by (auto simp: judge_header_def header_completed_def Let_def echo_ops_def echo_finalize_header_eq
      is_error_def state_response_def split: if_splits option.splits)

lemma echo_header_completedD:
  assumes "judge_header h rest = Good_header h' n rest'" and "length (request_text h) \<le> string_max_size"
    and "header_completed echo_ops ses h = Inr (ses', resp)"
  shows "resp = state_response State_completed Ok None"
    and "m_response_body (request_handler ses') = request_text h"
    and "ri_content_length (s_request_info ses') = n"
  using assms(3) unfolding echo_header_completed [OF assms(1,2)] by auto

lemma echo_header_refused:
  assumes "judge_header h rest = Bad_header st msg rest'"
  shows "rest' = rest" and "header_completed echo_ops ses h =
    Inr (ses\<lparr>s_request_info := (s_request_info ses)\<lparr>ri_header := h\<rparr>\<rparr>,
         state_response Client_error_detected st (Some msg))"
  using assms
  by (auto simp: judge_header_def header_completed_def Let_def split: if_splits option.splits)

lemma echo_header_refused_served:
  assumes "todo = header_replies s" and "read_header s = Bad_header st msg rest"
    and "resp = state_response Client_error_detected st (Some msg)"
    and "between_replies sent answered proc'" and "rest = pending_input incoming proc'"
  shows "served answered todo proc' resp"
  using assms by (simp add: served_def header_replies_eq)

lemma replies_fit_header:
  assumes "todo = header_replies s" and "read_header s = Good_header h n rest" and "list_all reply_fits todo"
  shows "todo = body_replies h [] n rest" and "length (request_text h) \<le> string_max_size"
proof -
  show todo: "todo = body_replies h [] n rest" using assms(1,2) by (simp add: header_replies_eq)
  with assms(3) show "length (request_text h) \<le> string_max_size"
    by (auto simp: body_replies_def wire_request_def split: if_splits)
qed

lemma serve_header_spec:
  assumes s: "serving incoming sent answered todo proc" and fits: "list_all reply_fits todo"
    and st: "fst (m_state proc) = Read_request_header rd"
    and spec: "header_read_spec ops incoming sent read_stopped echo_ops rd (m_recv_span proc)
      (m_session proc) rd' b' ses' resp"
  shows "served answered todo (store_visit proc (Read_request_header rd') b' ses') resp"
proof -
  let ?ses = "m_session proc" and ?proc = "store_visit proc (Read_request_header rd') b' ses'"
  from s obtain consumed where between: "between_replies sent answered proc"
    and todo: "todo = header_replies (consumed @ span_to_read (m_recv_span proc) @ incoming (connection ?ses))"
    and consumed: "parse request_header_parser_init consumed = Inr (m_req_header_parser rd, [], More_data_needed)"
    and budget: "length consumed + m_bytes_to_read rd = max_header_size_default"
    by (auto simp: serving_def serving_header_def st pending_input_def)
  from spec obtain moved got ec where mv: "span_to_read (m_recv_span proc) @ got = moved @ span_to_read b'"
      "incoming (connection ?ses) = got @ incoming (connection ses')"
    and frame: "sent (connection ses') = sent (connection ?ses)"
      "read_stopped (connection ses') = read_stopped (connection ?ses)"
    and ps: "parse (m_req_header_parser rd) moved = Inr (m_req_header_parser rd', [], ec)"
    and n: "length moved \<le> m_bytes_to_read rd" "m_bytes_to_read rd' = m_bytes_to_read rd - length moved"
    and ans: "if ec = Completed then
               header_completed echo_ops (?ses\<lparr>connection := connection ses'\<rparr>)
                 (take_result (m_req_header_parser rd')) = Inr (ses', resp)
             else ses' = ?ses\<lparr>connection := connection ses'\<rparr>
               \<and> (if ec \<noteq> More_data_needed then
                    resp = state_response Client_error_detected Bad_request
                      (make_unique_cstr (req_header_parser_error_code_to_string ec))
                  else if m_bytes_to_read rd' = 0 then
                    resp = state_response Client_error_detected Request_entity_too_large
                      (make_unique_cstr ''Header truncated'')
                  else span_to_read b' = []
                    \<and> (\<exists>res. resp = make_read_response res ''Header truncated''
                        \<and> read_refused ops (connection ses') res))"
    unfolding header_read_spec_eq by auto
  let ?raw = "consumed @ moved" and ?more = "span_to_read b' @ incoming (connection ses')"
  have todo': "todo = header_replies (?raw @ ?more)" unfolding todo using mv by (metis append.assoc)
  have raw: "parse request_header_parser_init ?raw = Inr (m_req_header_parser rd', [], ec)"
    using consumed ps by (simp add: parse_append)
  have len: "length ?raw + m_bytes_to_read rd' = max_header_size_default" using budget n by simp
  have between': "between_replies sent answered ?proc"
    using between frame by (simp add: between_replies_def st)
  show ?thesis
  proof (cases "ec = Completed")
    case completed: True
    have judged: "read_header (?raw @ ?more) = judge_header (take_result (m_req_header_parser rd')) ?more"
      using raw completed len by (intro read_header_completed) simp_all
    show ?thesis
    proof (cases "judge_header (take_result (m_req_header_parser rd')) ?more")
      case (Bad_header status msg rest)
      with ans completed have "resp = state_response Client_error_detected status (Some msg)"
        by (simp add: echo_header_refused(2))
      from echo_header_refused_served [OF todo' judged [unfolded Bad_header] this between'] show ?thesis
        using echo_header_refused(1) [OF Bad_header] by (simp add: pending_input_def st)
    next
      case (Good_header h m rest)
      then have h: "h = take_result (m_req_header_parser rd')" "rest = ?more" by (auto dest: judge_header_good)
      note replies = replies_fit_header [OF todo' judged [unfolded Good_header] fits]
      from ans completed have "header_completed echo_ops (?ses\<lparr>connection := connection ses'\<rparr>) h = Inr (ses', resp)"
        by (simp add: h)
      note finished = echo_header_completedD [OF Good_header [folded h(1)] replies(2) this]
      with finished between' replies(1) show ?thesis
        by (auto simp: served_def make_state_handler_def serving_def serving_body_def between_replies_def
            pending_input_def h(2) st intro!: exI [of _ h] exI [of _ "[]"])
    qed
  next
    case unfinished: False
    show ?thesis
    proof (cases "ec = More_data_needed")
      case error: False
      have "read_header (?raw @ ?more) = Bad_header Bad_request (req_header_parser_error_code_to_string ec) ?more"
        using raw unfinished error len by (intro read_header_error) simp_all
      from echo_header_refused_served [OF todo' this _ between'] ans unfinished error show ?thesis
        by (simp add: pending_input_def st)
    next
      case more: True
      show ?thesis
      proof (cases "m_bytes_to_read rd' = 0")
        case True
        with len raw more have "read_header (?raw @ ?more) = Bad_header Request_entity_too_large ''Header truncated'' ?more"
          by (intro read_header_truncated(1)) simp_all
        from echo_header_refused_served [OF todo' this _ between'] ans more True show ?thesis
          by (simp add: pending_input_def st)
      next
        case False
        with ans more obtain res where b': "span_to_read b' = []"
          and resp: "resp = make_read_response res ''Header truncated''" "read_refused ops (connection ses') res"
          by auto
        show ?thesis
          unfolding resp(1)
        proof (rule make_read_response_served)
          show "read_refused ops (connection (m_session ?proc)) res" using resp(2) by simp
          show "between_replies sent answered ?proc" by (rule between')
          show "span_to_read (m_recv_span ?proc) = []" using b' by (simp add: st)
          assume "incoming (connection (m_session ?proc)) = []"
          moreover from False len have "read_header ?raw = Bad_header Bad_request ''Header truncated'' []"
            by (intro read_header_truncated(2) [OF raw [unfolded more]]) simp
          ultimately show "\<exists>a. todo = [a] \<and> is_refusal a \<and> reply_status a = Bad_request
              \<and> make_unique_cstr ''Header truncated'' = Some (reply_body a) \<and> unread a = []"
            using todo' b' by (simp add: header_replies_eq)
        next
          from raw more len between' todo' show "serving incoming sent answered todo ?proc"
            by (auto simp: serving_def serving_header_def st pending_input_def intro!: exI [of _ ?raw])
        qed
      qed
    qed
  qed
qed

lemma visit_header:
  assumes inv: "proc_inv echo_inv echo_responding proc"
    and st: "fst (m_state proc) = Read_request_header rd"
  obtains (thrown) e where "visit_state ops echo_ops proc = Some (Inl e)"
      "header_read_fault incoming echo_ops rd (m_recv_span proc) (m_session proc) e"
  | (returns) rd' b' ses' resp where
      "visit_state ops echo_ops proc = Some (Inr (store_visit proc (Read_request_header rd') b' ses', resp))"
      "header_read_spec ops incoming sent read_stopped echo_ops rd (m_recv_span proc) (m_session proc) rd' b' ses' resp"
proof -
  from inv have pre: "parser_inv (m_req_header_parser rd)" "wf_span (m_recv_span proc)"
      "echo_inv (request_handler (m_session proc))" "0 < buffer_size (m_recv_span proc)"
    by (simp_all add: proc_inv_def proc_base_def state_inv_def st processor_buffer_size_def)
  from read_request_header_outcome [OF pre] that show ?thesis
    by (fastforce simp: visit_defs st split: sum.splits)
qed

lemma serve_header:
  assumes inv: "proc_inv echo_inv echo_responding proc"
    and s: "serving incoming sent answered todo proc" and fits: "list_all reply_fits todo"
    and st: "fst (m_state proc) = Read_request_header rd"
  shows "\<exists>proc' resp. visit_state ops echo_ops proc = Some (Inr (proc', resp))
    \<and> served answered todo proc' resp"
  using inv st
proof (cases rule: visit_header)
  case (thrown e)
  let ?b = "m_recv_span proc" and ?ses = "m_session proc"
  from s obtain consumed where
    todo: "todo = header_replies (consumed @ span_to_read (m_recv_span proc) @ incoming (connection (m_session proc)))"
    and consumed: "parse request_header_parser_init consumed = Inr (m_req_header_parser rd, [], More_data_needed)"
    and budget: "length consumed + m_bytes_to_read rd = max_header_size_default"
    by (auto simp: serving_def serving_header_def st pending_input_def)
  from thrown(2) obtain moved rest p' where
    m: "span_to_read ?b @ incoming (connection ?ses) = moved @ rest"
      "parse (m_req_header_parser rd) moved = Inr (p', [], Completed)" "length moved \<le> m_bytes_to_read rd"
      "header_completed echo_ops ?ses (take_result p') = Inl e"
    unfolding header_completed_fault header_read_fault_def by blast
  have "read_header ((consumed @ moved) @ rest) = judge_header (take_result p') rest"
    by (rule read_header_completed) (use consumed m budget in \<open>simp_all add: parse_append\<close>)
  with m(1) have judged: "read_header (consumed @ span_to_read ?b @ incoming (connection ?ses))
      = judge_header (take_result p') rest" by simp
  note hc = m(4)
  show ?thesis
  proof (cases "judge_header (take_result p') rest")
    case (Good_header h n rest')
    then have "h = take_result p'" by (auto dest: judge_header_good)
    with replies_fit_header(2) [OF todo judged [unfolded Good_header] fits]
    have False using hc echo_header_completed [OF Good_header, of ?ses] by simp
    then show ?thesis ..
  next
    case (Bad_header status msg rest')
    with hc show ?thesis by (simp add: echo_header_refused(2))
  qed
next
  case (returns rd' b' ses' resp)
  with serve_header_spec [OF s fits st] show ?thesis by blast
qed

text \<open>Reading a request's body: more of it, its end and the response, or a refusal.\<close>

lemma echo_body_completedD:
  assumes "m_response_body (request_handler ses) = body"
    and "body_completed echo_ops ses = Inr (ses', resp)"
  shows "resp = state_response State_completed Ok None"
    and "connection ses' = connection ses"
    and "m_response_body (request_handler ses') = body"
    and "m_read_offset (request_handler ses') = Some 0"
    and "rsp_header (s_response_info ses') = reply_header Ok body"
  using assms(2)
  by (auto simp: body_completed_def echo_ops_def echo_finalize_body_def assms(1)
      append_response_fields_empty response_info_default_def reply_header_def
      is_error_def state_response_def)

lemma serve_body_spec:
  assumes s: "serving incoming sent answered todo proc"
    and st: "fst (m_state proc) = Read_request_body n"
    and spec: "body_read_spec ops incoming sent read_stopped echo_ops n (m_recv_span proc)
      (m_session proc) n' b' ses' resp"
  shows "served answered todo (store_visit proc (Read_request_body n') b' ses') resp"
proof -
  let ?ses = "m_session proc" and ?proc = "store_visit proc (Read_request_body n') b' ses'"
  from s obtain h body where between: "between_replies sent answered proc"
    and todo: "todo = body_replies h body n (span_to_read (m_recv_span proc) @ incoming (connection ?ses))"
    and had: "m_response_body (request_handler ?ses) = request_text h @ body"
    by (auto simp: serving_def serving_body_def st pending_input_def)
  from spec obtain moved got rest h1 stop where mv: "span_to_read (m_recv_span proc) @ got = moved @ rest"
      "incoming (connection ?ses) = got @ incoming (connection ses')"
    and frame: "sent (connection ses') = sent (connection ?ses)"
      "read_stopped (connection ses') = read_stopped (connection ?ses)"
    and fed: "content_fed echo_ops (request_handler ?ses) moved h1 stop"
    and n: "length moved \<le> n" "n' = n - length moved"
    and ans: "let ses1 = ?ses\<lparr>connection := connection ses', request_handler := h1\<rparr> in
       case stop of
         Some ec \<Rightarrow> same_request ?ses ses' \<and> request_handler ses' = h1
           \<and> (if ec_can_continue echo_ops ec \<and> n' \<noteq> 0
              then span_to_read b' = rest \<and> resp = state_response State_more_data_needed Ok None
              else span_to_read b' = []
                \<and> resp = state_response Client_error_detected Bad_request
                    (make_unique_cstr (ec_to_string echo_ops ec)))
       | None \<Rightarrow> span_to_read b' = rest
           \<and> (if n' = 0 then body_completed echo_ops ses1 = Inr (ses', resp)
              else rest = [] \<and> same_request ?ses ses' \<and> request_handler ses' = h1
                \<and> (\<exists>res. resp = make_read_response res ''Client claims there is more data to read''
                    \<and> read_refused ops (connection ses') res))"
    unfolding body_read_spec_eq by auto
  have h1: "m_response_body h1 = request_text h @ body @ moved" and stop: "stop = None"
    using echo_fed [OF fed] had by simp_all
  have "span_to_read (m_recv_span proc) @ incoming (connection ?ses) = moved @ rest @ incoming (connection ses')"
    using mv by (metis append.assoc)
  then have todo': "todo = body_replies h (body @ moved) n' (rest @ incoming (connection ses'))"
    using todo n by (simp add: body_replies_more)
  have between': "between_replies sent answered ?proc"
    using between frame by (simp add: between_replies_def st)
  show ?thesis
  proof (cases "n' = 0")
    case True
    let ?ses1 = "?ses\<lparr>connection := connection ses', request_handler := h1\<rparr>"
    have whole: "m_response_body (request_handler ?ses1) = wire_request (h, body @ moved)"
      by (simp add: h1 wire_request_def)
    have "body_completed echo_ops ?ses1 = Inr (ses', resp)" and "span_to_read b' = rest"
      using ans True by (simp_all add: stop Let_def)
    moreover have "todo = Echoed (h, body @ moved) # later_replies (rest @ incoming (connection ses'))"
      using todo' True by (simp add: body_replies_def)
    ultimately show ?thesis
      using echo_body_completedD [OF whole, of ses' resp] between'
      by (simp add: served_def make_state_handler_def st serving_def serving_response_header_def
          between_replies_def reply_head_def pending_input_def)
  next
    case False
    with ans obtain res where nil: "rest = []" "span_to_read b' = []"
      and handler: "request_handler ses' = h1"
      and resp: "resp = make_read_response res ''Client claims there is more data to read''"
        "read_refused ops (connection ses') res"
      by (auto simp: stop Let_def)
    show ?thesis
      unfolding resp(1)
    proof (rule make_read_response_served)
      show "read_refused ops (connection (m_session ?proc)) res" using resp(2) by simp
      show "between_replies sent answered ?proc" by (rule between')
      show "span_to_read (m_recv_span ?proc) = []" using nil by (simp add: st)
      assume "incoming (connection (m_session ?proc)) = []"
      with todo' nil False show "\<exists>a. todo = [a] \<and> is_refusal a \<and> reply_status a = Bad_request
          \<and> make_unique_cstr ''Client claims there is more data to read'' = Some (reply_body a) \<and> unread a = []"
        by (simp add: body_replies_def)
    next
      from between' todo' nil handler h1 show "serving incoming sent answered todo ?proc"
        by (auto simp: serving_def serving_body_def st pending_input_def
            intro!: exI [of _ h] exI [of _ "body @ moved"])
    qed
  qed
qed

lemma visit_body:
  assumes inv: "proc_inv echo_inv echo_responding proc"
    and st: "fst (m_state proc) = Read_request_body n"
  obtains (thrown) e where "visit_state ops echo_ops proc = Some (Inl e)"
      "body_read_fault incoming echo_ops n (m_recv_span proc) (m_session proc) e"
  | (returns) n' b' ses' resp where
      "visit_state ops echo_ops proc = Some (Inr (store_visit proc (Read_request_body n') b' ses', resp))"
      "body_read_spec ops incoming sent read_stopped echo_ops n (m_recv_span proc) (m_session proc) n' b' ses' resp"
proof -
  from inv have pre: "wf_span (m_recv_span proc)" "echo_inv (request_handler (m_session proc))"
      "0 < buffer_size (m_recv_span proc)"
    by (simp_all add: proc_inv_def proc_base_def processor_buffer_size_def)
  from read_request_body_outcome [OF pre, of n] that show ?thesis
    by (fastforce simp: visit_defs st split: sum.splits)
qed

text \<open>The body that is collected is no longer than that of a reply that is due.\<close>

lemma replies_fit_body:
  assumes "list_all reply_fits (body_replies h body n (s @ t))" and "length s \<le> n"
  shows "length (request_text h @ body @ s) \<le> string_max_size"
  using assms by (auto simp: body_replies_def wire_request_def split: if_splits)

lemma serve_body:
  assumes inv: "proc_inv echo_inv echo_responding proc"
    and s: "serving incoming sent answered todo proc" and fits: "list_all reply_fits todo"
    and st: "fst (m_state proc) = Read_request_body n"
  shows "\<exists>proc' resp. visit_state ops echo_ops proc = Some (Inr (proc', resp))
    \<and> served answered todo proc' resp"
  using inv st
proof (cases rule: visit_body)
  case (thrown e)
  from s obtain h body where
    todo: "todo = body_replies h body n (span_to_read (m_recv_span proc) @ incoming (connection (m_session proc)))"
    and had: "m_response_body (request_handler (m_session proc)) = request_text h @ body"
    by (auto simp: serving_def serving_body_def st pending_input_def)
  from thrown(2) obtain moved bytes rest h1 where
    m: "span_to_read (m_recv_span proc) @ incoming (connection (m_session proc)) = (moved @ bytes) @ rest"
      "length (moved @ bytes) \<le> n" "content_fed echo_ops (request_handler (m_session proc)) moved h1 None"
      "(\<exists>m. process_request_content echo_ops h1 bytes m = Inl e) \<or> finalize_body echo_ops h1 [] = Inl e"
    unfolding body_read_fault_def append_assoc length_append by blast
  have "m_response_body h1 = request_text h @ body @ moved" using echo_fed [OF m(3)] had by simp
  moreover from replies_fit_body [OF fits [unfolded todo m(1)] m(2)]
  have "length (request_text h @ body @ moved @ bytes) \<le> string_max_size" by simp
  ultimately have False
    using m(4) append_response_fields_ok [of "m_response_body h1"]
    by (auto simp: echo_ops_def echo_process_request_content_def echo_finalize_body_def
        check_length_def and_then_def split: if_splits)
  then show ?thesis ..
next
  case (returns n' b' ses' resp)
  with serve_body_spec [OF s st] show ?thesis by blast
qed

text \<open>Writing the response.\<close>

lemma make_write_response_served:
  assumes "prefix (sent (connection (m_session proc'))) (reply_stream (answered @ todo))"
    and "write_refused ops (connection (m_session proc')) res"
    and "serving incoming sent answered todo proc'"
    and "select_io_direction (fst (m_state proc')) = Io_output"
  shows "served answered todo proc' (make_write_response res)"
  using assms by (cases res) (simp_all add: served_def make_write_response_def resting_def)

lemma reply_content_length:
  assumes "reply_fits a"
  shows "make_write_response_body \<lparr>rsp_header = reply_head a\<rparr>
     = Inr (Write_response_body (length (reply_body a)))"
proof -
  have "length (reply_body a) \<le> string_max_size"
    using assms by (cases a) (simp_all add: string_max_size_def)
  moreover have "field_map_find ''Content-Length'' (resp_fields (reply_head a))
      = Some (std_to_string (length (reply_body a)))"
    "field_map_find ''Transfer-encoding'' (resp_fields (reply_head a)) = None"
    by (simp_all add: reply_head_def reply_header_def field_map_find_def response_field_names)
  ultimately show ?thesis
    by (simp add: make_write_response_body_def field_map_contains_def to_number_digits string_max_size_def)
qed

lemma response_info_eq: "rsp_header r = h \<Longrightarrow> r = \<lparr>rsp_header = h\<rparr>"
  by (cases r) simp

lemma serve_response_header_spec:
  assumes s: "serving incoming sent answered todo proc" and fits: "list_all reply_fits todo"
    and st: "fst (m_state proc) = Write_response_header ser"
    and spec: "header_write_spec ops incoming sent read_stopped ser (m_send_span proc)
      (m_session proc) ser' b' ses' resp"
  shows "served answered todo (store_visit proc (Write_response_header ser') b' ses') resp"
proof -
  let ?ses = "m_session proc" and ?proc = "store_visit proc (Write_response_header ser') b' ses'"
  from s obtain a where todo: "todo = a # later_replies (pending_input incoming proc)"
    and body: "m_response_body (request_handler ?ses) = reply_body a"
      "m_read_offset (request_handler ?ses) = Some 0" "rsp_header (s_response_info ?ses) = reply_head a"
    and out: "sent (connection ?ses) @ span_to_read (m_send_span proc) @ serializer_rest ser
      = reply_stream answered @ response_text (reply_head a)"
    by (auto simp: serving_def serving_response_header_def st)
  from spec obtain s1 where s1: "ses' = ?ses\<lparr>connection := s1\<rparr>"
    unfolding header_write_spec_def by blast
  then have s1': "connection ses' = s1" by simp
  from spec obtain moved where frame: "incoming s1 = incoming (connection ?ses)"
    and mv: "sent s1 = sent (connection ?ses) @ moved"
      "span_to_read (m_send_span proc) @ serializer_rest ser
        = moved @ span_to_read b' @ serializer_rest ser'"
    and ans: "if resp = state_response State_completed Ok None
        then span_to_read b' = [] \<and> serializer_rest ser' = []
        else \<exists>res. resp = make_write_response res \<and> write_refused ops s1 res"
    unfolding header_write_spec_def s1' by auto
  have pending: "pending_input incoming ?proc = pending_input incoming proc"
    "pending_input incoming (?proc\<lparr>m_state := next\<rparr>) = pending_input incoming proc" for "next"
    by (simp_all add: pending_input_def s1 st frame)
  have out': "sent s1 @ span_to_read b' @ serializer_rest ser'
      = reply_stream answered @ response_text (reply_head a)"
    using out mv by simp
  show ?thesis
  proof (cases "resp = state_response State_completed Ok None")
    case True
    have "reply_fits a" using fits by (simp add: todo)
    from True ans out' pending body reply_content_length [OF this] show ?thesis
      by (auto simp: served_def make_state_handler_def response_info_eq [OF body(3)] s1 st
          serving_def serving_response_body_def reply_text_def todo intro!: exI [of _ 0])
  next
    case False
    with ans obtain res where res: "resp = make_write_response res" "write_refused ops s1 res" by auto
    have "reply_stream (answered @ todo) = (sent s1 @ span_to_read b' @ serializer_rest ser')
        @ reply_body a @ reply_stream (later_replies (pending_input incoming proc))"
      unfolding out' by (simp add: todo reply_text_def)
    then have "prefix (sent s1) (reply_stream (answered @ todo))" by (metis append.assoc prefixI)
    with res out' body pending show ?thesis
      by (auto intro!: make_write_response_served simp: s1 st serving_def serving_response_header_def todo)
  qed
qed

lemma serve_response_header:
  assumes inv: "proc_inv echo_inv echo_responding proc"
    and s: "serving incoming sent answered todo proc" and fits: "list_all reply_fits todo"
    and st: "fst (m_state proc) = Write_response_header ser"
  shows "\<exists>proc' resp. visit_state ops echo_ops proc = Some (Inr (proc', resp))
    \<and> served answered todo proc' resp"
proof -
  let ?b = "m_send_span proc" and ?ses = "m_session proc"
  from inv have "serializer_inv ser" "wf_span ?b" "0 < buffer_size ?b"
    "length (span_to_read ?b @ serializer_rest ser) < 2 ^ 64 - 1"
    by (simp_all add: proc_inv_def proc_base_def state_inv_def st processor_buffer_size_def)
  from write_response_header_outcome [OF this, of ?ses] obtain ser' b' ses' resp where
    "write_response_header_ready ops ser ?b ?ses = Some (Inr (ser', b', ses', resp))"
    and spec: "header_write_spec ops incoming sent read_stopped ser ?b ?ses ser' b' ses' resp"
    by blast
  then have "visit_state ops echo_ops proc =
      Some (Inr (store_visit proc (Write_response_header ser') b' ses', resp))"
    by (simp add: visit_state_def visit_result_def processor_buffer_def select_buffer_index_def st Let_def)
  with serve_response_header_spec [OF s fits st spec] show ?thesis by blast
qed

lemma serve_response_body_spec:
  assumes s: "serving incoming sent answered todo proc"
    and st: "fst (m_state proc) = Write_response_body n"
    and size: "0 < buffer_size (m_send_span proc)"
    and spec: "body_write_spec ops incoming sent read_stopped echo_responding echo_ops n
      (m_send_span proc) (m_session proc) n' b' ses' resp"
  shows "served answered todo (store_visit proc (Write_response_body n') b' ses') resp"
proof -
  let ?ses = "m_session proc" and ?proc = "store_visit proc (Write_response_body n') b' ses'"
  from s obtain a off where todo: "todo = a # later_replies (pending_input incoming proc)"
    and body: "m_response_body (request_handler ?ses) = reply_body a"
      "m_read_offset (request_handler ?ses) = Some off"
    and n: "n = length (span_to_read (m_send_span proc) @ drop off (reply_body a))"
    and out: "sent (connection ?ses) @ span_to_read (m_send_span proc) @ drop off (reply_body a)
      = reply_stream (answered @ [a])"
    by (auto simp: serving_def serving_response_body_def st)
  from spec obtain moved got where frame: "incoming (connection ses') = incoming (connection ?ses)"
    and mv: "sent (connection ses') = sent (connection ?ses) @ moved"
      "content_drawn echo_ops (request_handler ?ses) got (request_handler ses')"
      "span_to_read (m_send_span proc) @ got = moved @ span_to_read b'"
      "n' = n - length moved"
    and ans: "if resp = state_response State_completed Ok None then n' = 0
        else (\<exists>ec h0. 0 < n' \<and> resp = map_response_body_exit echo_ops (Read_exit ec)
             \<and> (ec_is_error_indicator echo_ops ec \<or> span_to_read b' = [])
             \<and> echo_responding h0
             \<and> read_response_content echo_ops h0 (buffer_size (m_send_span proc))
                 = Inr (request_handler ses', span_to_read b', ec))
          \<or> (\<exists>res. resp = make_write_response res \<and> write_refused ops (connection ses') res)"
    unfolding body_write_spec_def by auto
  from echo_drawn [OF mv(2) body(2)] body(1) obtain off' where
    body': "m_read_offset (request_handler ses') = Some off'"
      "m_response_body (request_handler ses') = reply_body a"
    and got: "drop off (reply_body a) = got @ drop off' (reply_body a)" by auto
  have all: "span_to_read (m_send_span proc) @ drop off (reply_body a)
      = moved @ span_to_read b' @ drop off' (reply_body a)"
    using mv(3) got by (metis append.assoc)
  have n': "n' = length (span_to_read b' @ drop off' (reply_body a))"
    unfolding mv(4) n all by simp
  have out': "sent (connection ses') @ span_to_read b' @ drop off' (reply_body a)
      = reply_stream (answered @ [a])"
    using out mv(1) all by simp
  have pending: "pending_input incoming ?proc = pending_input incoming proc"
    "pending_input incoming (?proc\<lparr>m_state := next\<rparr>) = pending_input incoming proc" for "next"
    by (simp_all add: pending_input_def st frame)
  show ?thesis
  proof (cases "resp = state_response State_completed Ok None")
    case True
    with ans n' have "span_to_read b' = []" "drop off' (reply_body a) = []" by auto
    with True out' pending(2) show ?thesis
      by (auto simp: served_def make_state_handler_def serving_def between_replies_def st todo)
  next
    case False
    have no_end: False if more: "0 < n'" and ec: "ec_is_error_indicator echo_ops ec \<or> span_to_read b' = []"
      and rd: "read_response_content echo_ops h0 (buffer_size (m_send_span proc))
                 = Inr (request_handler ses', span_to_read b', ec)" for ec h0
    proof -
      from ec have nil: "span_to_read b' = []" by (cases ec) (simp add: echo_ops_def)
      from echo_read_end [OF rd [unfolded nil] size] nil more n' body' show False by simp
    qed
    with ans False obtain res where res: "resp = make_write_response res"
      "write_refused ops (connection ses') res" by auto
    have "reply_stream (answered @ todo) = (sent (connection ses') @ span_to_read b'
        @ drop off' (reply_body a)) @ reply_stream (later_replies (pending_input incoming proc))"
      unfolding out' by (simp add: todo)
    then have "prefix (sent (connection ses')) (reply_stream (answered @ todo))"
      by (metis append.assoc prefixI)
    with res out' n' body' pending(1) show ?thesis
      by (auto intro!: make_write_response_served simp: st serving_def serving_response_body_def todo)
  qed
qed

lemma serve_response_body:
  assumes inv: "proc_inv echo_inv echo_responding proc"
    and s: "serving incoming sent answered todo proc"
    and st: "fst (m_state proc) = Write_response_body n"
  shows "\<exists>proc' resp. visit_state ops echo_ops proc = Some (Inr (proc', resp))
    \<and> served answered todo proc' resp"
proof -
  let ?b = "m_send_span proc" and ?ses = "m_session proc"
  from inv have pre: "echo_responding (request_handler ?ses)" "wf_span ?b" and size: "0 < buffer_size ?b"
    by (simp_all add: proc_inv_def proc_base_def state_inv_def st processor_buffer_size_def)
  from write_response_body_outcome [OF pre] obtain res where
    res: "write_response_body_ready ops echo_ops n ?b ?ses = Some res"
    and post: "case res of Inl e \<Rightarrow> thrown e \<and> body_write_fault echo_ops ?ses e
       | Inr (n', b', ses', resp) \<Rightarrow> wf_span b' \<and> buffer_size b' = buffer_size ?b
           \<and> echo_responding (request_handler ses')
           \<and> body_write_spec ops incoming sent read_stopped echo_responding echo_ops n ?b ?ses n' b' ses' resp"
    by blast
  have visit: "visit_state ops echo_ops proc = visit_result proc Write_response_body (Some res)"
    by (simp add: visit_defs st res)
  show ?thesis
  proof (cases res)
    case (Inl e)
    with post obtain got h1 m where drawn: "content_drawn echo_ops (request_handler ?ses) got h1"
      and "read_response_content echo_ops h1 m = Inl e" by (auto simp: body_write_fault_def)
    with content_drawn_responding [OF drawn pre(1)] show ?thesis
      by (auto simp: echo_ops_def echo_read_response_content_def echo_responding_def Let_def)
  next
    case (Inr t)
    obtain n' b' ses' resp where t: "t = (n', b', ses', resp)" by (cases t)
    with serve_response_body_spec [OF s st size] post visit show ?thesis
      by (simp add: Inr visit_result_def)
  qed
qed

text \<open>Waiting for the next request.\<close>

lemma header_replies_nonempty [simp]: "header_replies s \<noteq> []"
  by (simp add: header_replies_eq body_replies_def split: header_verdict.split)

lemma serve_wait:
  assumes inv: "proc_inv echo_inv echo_responding proc"
    and s: "serving incoming sent answered todo proc"
    and st: "fst (m_state proc) = Wait_for_data"
  shows "\<exists>proc' resp. visit_state ops echo_ops proc = Some (Inr (proc', resp))
    \<and> served answered todo proc' resp"
proof -
  let ?b = "m_recv_span proc" and ?ses = "m_session proc"
  from inv have pre: "wf_span ?b" "0 < buffer_size ?b"
    by (simp_all add: proc_inv_def proc_base_def processor_buffer_size_def)
  from wait_for_data_outcome [OF pre, of ?ses] obtain b' ses' resp where
    r: "wait_for_data_ready ops ?b ?ses = Inr (b', ses', resp)"
    and spec: "wait_spec ops incoming sent read_stopped ?b ?ses b' ses' resp" by blast
  let ?proc = "store_visit proc Wait_for_data b' ses'"
  have visit: "visit_state ops echo_ops proc = Some (Inr (?proc, resp))"
    by (simp add: visit_state_def visit_result_def processor_buffer_def select_buffer_index_def st r Let_def)
  from s have between: "between_replies sent answered proc"
    and todo: "todo = later_replies (pending_input incoming proc)"
    by (simp_all add: serving_def st)
  from spec have between': "between_replies sent answered ?proc"
    and todo': "todo = later_replies (pending_input incoming ?proc)"
    using between todo unfolding wait_spec_def by (auto simp: between_replies_def pending_input_def st)
  have "served answered todo ?proc resp"
  proof (cases "st_status resp")
    case State_completed
    with spec have "span_to_read b' \<noteq> []" by (simp add: wait_spec_def)
    then have "todo = header_replies (pending_input incoming ?proc)"
      using todo' by (simp add: later_replies_def pending_input_def st)
    with State_completed between' show ?thesis
      by (auto simp: served_def make_state_handler_def serving_def serving_header_def between_replies_def
          pending_input_def st request_header_parser_init_def intro!: exI [of _ "[]"])
  next
    case Connection_closed
    with spec obtain res where nil: "span_to_read b' = []" and res: "res \<noteq> Op_would_block"
      "read_refused ops (connection ses') res" by (auto simp: wait_spec_def)
    have "todo = []" if "res = Op_completed"
      using that res todo' nil by (auto simp: later_replies_def pending_input_def st dest: read_refused_eof)
    with Connection_closed res between' show ?thesis
      by (cases res) (auto simp: served_def between_replies_def)
  next
    case State_more_data_needed
    with spec between' todo' show ?thesis
      by (simp add: served_def serving_def resting_def st wait_spec_def)
  qed (use spec in \<open>simp_all add: wait_spec_def\<close>)
  with visit show ?thesis by blast
qed

text \<open>Every state.\<close>

lemma serve_visit:
  assumes "proc_inv echo_inv echo_responding proc"
    and "serving incoming sent answered todo proc" and "list_all reply_fits todo"
  shows "\<exists>proc' resp. visit_state ops echo_ops proc = Some (Inr (proc', resp))
    \<and> served answered todo proc' resp"
  using serve_header [OF assms] serve_body [OF assms] serve_response_header [OF assms]
    serve_response_body [OF assms(1,2)] serve_wait [OF assms(1,2)]
  by (cases "fst (m_state proc)") blast+

end

end
