(* ===== verification/Socket_Frame.thy ===== *)
theory Socket_Frame
  imports Request_Processor
begin

text \<open>
  What a request processor cannot do to its connection: whatever relation every socket
  operation respects, any call of the processor respects. Nothing is asked of the socket's
  contract, of the handler or of the state the processor is in.
\<close>

lemma transfer_data_frame:
  fixes rd :: "'c \<Rightarrow> nat \<Rightarrow> ('c \<times> string \<times> 'er) faulty"
    and wr :: "'c \<Rightarrow> string \<Rightarrow> nat \<Rightarrow> ('c \<times> nat \<times> 'ew) faulty"
  assumes refl: "\<And>c. Q c c" and trans: "\<And>c c1 c2. Q c c1 \<Longrightarrow> Q c1 c2 \<Longrightarrow> Q c c2"
    and rd: "\<And>c m c1 data ec. rd c m = Inr (c1, data, ec) \<Longrightarrow> Q c c1"
    and wr: "\<And>c bytes m c1 k ec. wr c bytes m = Inr (c1, k, ec) \<Longrightarrow> Q c c1"
    and transfer: "transfer_data rd wr rd_error wr_error c buffer n = Some (Inr (c', buffer', n', ex))"
  shows "Q c c'"
proof -
  let ?P = "\<lambda>rd' wr' (rd_error :: 'er \<Rightarrow> bool) (wr_error :: 'ew \<Rightarrow> bool) c (buffer :: buffer_span) (n :: nat)
      (r :: ('c \<times> buffer_span \<times> nat \<times> ('er, 'ew) transfer_exit) faulty).
    rd' = rd \<and> wr' = wr \<longrightarrow>
      (\<forall>c' (buffer' :: buffer_span) (n' :: nat) (ex :: ('er, 'ew) transfer_exit).
         r = Inr (c', buffer', n', ex) \<longrightarrow> Q c c')"
  have "?P rd wr rd_error wr_error c buffer n (Inr (c', buffer', n', ex))"
  proof (rule transfer_data.raw_induct [where P = ?P, OF _ transfer], intro impI allI, elim conjE)
    fix tr rd' wr' rd_error wr_error c buffer and n :: nat
      and r :: "('c \<times> buffer_span \<times> nat \<times> ('er, 'ew) transfer_exit) faulty" and c2 b2 n2 ex2
    assume rec: "\<And>rd' wr' rd_error wr_error c buffer n r.
        tr rd' wr' rd_error wr_error c buffer n = Some r \<Longrightarrow> ?P rd' wr' rd_error wr_error c buffer n r"
      and body: "(if n = 0 then Some (Inr (c, buffer, n, All_transferred))
        else if length (span_to_read buffer) = 0
        then (case rd' c (span_to_write buffer) of
                Inl e \<Rightarrow> Some (Inl e)
              | Inr (c1, data, ec) \<Rightarrow>
                  (case reset_with_new_length (length data) (fill_span data buffer) of
                     Inl e \<Rightarrow> Some (Inl e)
                   | Inr buffer1 \<Rightarrow>
                       if rd_error ec \<or> length data = 0 then Some (Inr (c1, buffer1, n, Read_exit ec))
                       else tr rd' wr' rd_error wr_error c1 buffer1 n))
        else (case wr' c (span_to_read_max n buffer) n of
                Inl e \<Rightarrow> Some (Inl e)
              | Inr (c1, k, ec) \<Rightarrow>
                  (case consume_elements k buffer of
                     Inl e \<Rightarrow> Some (Inl e)
                   | Inr buffer1 \<Rightarrow>
                       if wr_error ec \<or> k = 0 then Some (Inr (c1, buffer1, size_minus n k, Write_exit ec))
                       else tr rd' wr' rd_error wr_error c1 buffer1 (size_minus n k)))) = Some r"
      and eq: "rd' = rd" "wr' = wr" and r: "r = Inr (c2, b2, n2, ex2)"
    have more: "Q c1 c2" if "tr rd wr rd_error wr_error c1 b1 n1 = Some (Inr (c2, b2, n2, ex2))" for c1 b1 n1
      using rec [OF that] by simp
    show "Q c c2"
      using body unfolding eq r
      by (auto split: if_splits sum.splits dest!: more rd wr intro: refl trans)
  qed
  then show ?thesis by simp
qed

locale socket_frame =
  fixes ops :: "'s socket_ops"
    and frame :: "'s \<Rightarrow> 's \<Rightarrow> bool"
  assumes fr_refl: "frame s s"
    and fr_trans: "frame s s1 \<Longrightarrow> frame s1 s2 \<Longrightarrow> frame s s2"
    and fr_read: "sock_read ops s n = (s', data, ec) \<Longrightarrow> frame s s'"
    and fr_write: "sock_write ops s bytes = (s', k, ew) \<Longrightarrow> frame s s'"
    and fr_stop: "frame s (sock_stop_reading ops s)"
begin

abbreviation session_frame :: "('s, 'h) session \<times> 'x \<Rightarrow> ('s, 'h) session \<times> 'x \<Rightarrow> bool" where
  "session_frame c c' \<equiv> frame (connection (fst c)) (connection (fst c'))"

lemma reader_writer_frame:
  "read_connection ops c n = Inr (c1, data, ec) \<Longrightarrow> session_frame c c1"
  "write_connection ops c bytes n = Inr (c1, k, ec) \<Longrightarrow> session_frame c c1"
  by (auto simp: read_connection_def write_connection_def dest: fr_read fr_write split: prod.splits)

lemma other_end_frame:
  "parse_content c bytes n = Inr (c1, k, ec1) \<Longrightarrow> session_frame c c1"
  "handle_content hops d bytes n = Inr (d1, k, ec2) \<Longrightarrow> session_frame d d1"
  "read_serializer f n = Inr (f1, data, ec3) \<Longrightarrow> session_frame f f1"
  "read_content hops d n = Inr (d1, data, ec4) \<Longrightarrow> session_frame d d1"
  by (auto simp: parse_content_def handle_content_def read_serializer_def read_content_def and_then_def fr_refl
      split: sum.splits prod.splits)

lemma session_transfer:
  assumes "\<And>c m c1 data ec. rd c m = Inr (c1, data, ec) \<Longrightarrow> session_frame c c1"
    and "\<And>c bytes m c1 k ec. wr c bytes m = Inr (c1, k, ec) \<Longrightarrow> session_frame c c1"
    and "transfer_data rd wr rd_error wr_error c buffer n = Some (Inr (c', buffer', n', ex))"
  shows "session_frame c c'"
  by (rule transfer_data_frame [where Q = session_frame, OF fr_refl _ assms]) (rule fr_trans)

lemma read_request_header_frame:
  assumes "read_request_header_ready ops hops st b ses = Some (Inr (st', b', ses', resp))"
  shows "frame (connection ses) (connection ses')"
proof -
  obtain ses1 p n ex b1 where t: "transfer_data (read_connection ops) parse_content is_error_indicator
      parser_error_code_checker (ses, m_req_header_parser st) b (m_bytes_to_read st)
      = Some (Inr ((ses1, p), b1, n, ex))"
    and m: "map_header_exit hops ses1 p ex = Inr (ses', resp)"
    using assms by (auto simp: read_request_header_ready_def finish_transfer_def and_then_def
        split: option.splits sum.splits)
  have "frame (connection ses) (connection ses1)"
    using session_transfer [OF reader_writer_frame(1) other_end_frame(1) t] by simp
  moreover have "connection ses' = connection ses1"
    using m by (auto simp: map_header_exit_def header_completed_def and_then_def Let_def
        split: transfer_exit.splits req_header_parser_error_code.splits if_splits option.splits sum.splits)
  ultimately show ?thesis by simp
qed

lemma read_request_body_frame:
  assumes "read_request_body_ready ops hops k b ses = Some (Inr (st', b', ses', resp))"
  shows "frame (connection ses) (connection ses')"
proof -
  obtain ses1 u n ex b1 where t: "transfer_data (read_connection ops) (handle_content hops) is_error_indicator
      (ec_is_error_indicator hops) (ses, ()) b k = Some (Inr ((ses1, u), b1, n, ex))"
    and m: "map_body_exit hops ses1 b1 n ex = Inr (b', ses', resp)"
    using assms by (auto simp: read_request_body_ready_def finish_transfer_def and_then_def
        split: option.splits sum.splits)
  have "frame (connection ses) (connection ses1)"
    using session_transfer [OF reader_writer_frame(1) other_end_frame(2) t] by simp
  moreover have "connection ses' = connection ses1"
    using m by (auto simp: map_body_exit_def body_completed_def and_then_def Let_def
        split: transfer_exit.splits if_splits sum.splits)
  ultimately show ?thesis by simp
qed

lemma write_response_header_frame:
  assumes "write_response_header_ready ops ser b ses = Some (Inr (st', b', ses', resp))"
  shows "frame (connection ses) (connection ses')"
proof -
  obtain ser1 n ex where t: "transfer_data read_serializer (write_connection ops)
      serializer_error_code_checker is_error_indicator (ses, ser) b (2 ^ 64 - 1)
      = Some (Inr ((ses', ser1), b', n, ex))"
    using assms by (auto simp: write_response_header_ready_def finish_transfer_def and_then_def Let_def
        split: option.splits sum.splits)
  show ?thesis using session_transfer [OF other_end_frame(3) reader_writer_frame(2) t] by simp
qed

lemma write_response_body_frame:
  assumes "write_response_body_ready ops hops k b ses = Some (Inr (st', b', ses', resp))"
  shows "frame (connection ses) (connection ses')"
proof -
  obtain u n ex where t: "transfer_data (read_content hops) (write_connection ops)
      (ec_is_error_indicator hops) is_error_indicator (ses, ()) b k = Some (Inr ((ses', u), b', n, ex))"
    using assms by (auto simp: write_response_body_ready_def finish_transfer_def
        split: option.splits sum.splits)
  show ?thesis using session_transfer [OF other_end_frame(4) reader_writer_frame(2) t] by simp
qed

lemma wait_for_data_frame:
  "wait_for_data_ready ops b ses = Inr (b', ses', resp) \<Longrightarrow> frame (connection ses) (connection ses')"
  by (auto simp: wait_for_data_ready_def and_then_def Let_def fr_refl dest: fr_read
      split: if_splits prod.splits sum.splits operation_result.splits)

lemma visit_state_frame:
  assumes "visit_state ops hops p = Some (Inr (p', resp))"
  shows "frame (connection (m_session p)) (connection (m_session p'))"
  using assms
  by (auto simp: visit_state_def visit_result_def store_visit_def and_then_def Let_def
      dest: read_request_header_frame read_request_body_frame write_response_header_frame
        write_response_body_frame wait_for_data_frame
      split: request_state.splits option.splits sum.splits)

lemma respond_with_error_frame:
  "respond_with_error ops hops res p = Inr p' \<Longrightarrow>
   frame (connection (m_session p)) (connection (m_session p'))"
  by (auto simp: respond_with_error_def and_then_def Let_def fr_stop split: sum.splits)

lemma processor_turn_frame:
  assumes "processor_turn ops hops p = Some (Inr (p', r))"
  shows "frame (connection (m_session p)) (connection (m_session p'))"
proof -
  obtain p1 res where v: "visit_state ops hops p = Some (Inr (p1, res))"
    and a: "after_visit ops hops p1 res = Inr (p', r)"
    using assms by (auto simp: processor_turn_def split: option.splits sum.splits)
  have "frame (connection (m_session p1)) (connection (m_session p'))"
    using a by (auto simp: after_visit_def and_then_def Let_def fr_refl dest: respond_with_error_frame
        split: session_state_status.splits sum.splits)
  with visit_state_frame [OF v] show ?thesis by (rule fr_trans)
qed

lemma socket_is_ready_frame:
  fixes p p' :: "('s, 'h) request_processor"
  assumes "socket_is_ready ops hops p = Some (Inr (p', res))"
  shows "frame (connection (m_session p)) (connection (m_session p'))"
proof -
  let ?P = "\<lambda>ops' hops' p (r :: (('s, 'h) request_processor \<times> process_request_result) faulty). ops' = ops \<and> hops' = hops \<longrightarrow>
    (\<forall>p' (res :: process_request_result). r = Inr (p', res) \<longrightarrow>
       frame (connection (m_session p)) (connection (m_session p')))"
  have "?P ops hops p (Inr (p', res))"
  proof (rule socket_is_ready.raw_induct [where P = ?P, OF _ assms], intro impI allI, elim conjE)
    fix ready ops' hops' p r p2 res2
    assume rec: "\<And>ops' hops' p r. ready ops' hops' p = Some r \<Longrightarrow> ?P ops' hops' p r"
      and body: "(case processor_turn ops' hops' p of
        None \<Rightarrow> None
      | Some (Inl e) \<Rightarrow> Some (Inl e)
      | Some (Inr (p1, None)) \<Rightarrow> ready ops' hops' p1
      | Some (Inr (p1, Some res)) \<Rightarrow> Some (Inr (p1, res))) = Some r"
      and eq: "ops' = ops" "hops' = hops" and r: "r = Inr (p2, res2)"
    obtain p1 again where turn: "processor_turn ops hops p = Some (Inr (p1, again))"
      using body r unfolding eq by (auto split: option.splits sum.splits)
    note step = processor_turn_frame [OF turn]
    show "frame (connection (m_session p)) (connection (m_session p2))"
    proof (cases again)
      case None
      with body turn have "ready ops hops p1 = Some r" by (simp add: eq)
      from rec [OF this] r have "frame (connection (m_session p1)) (connection (m_session p2))" by simp
      with step show ?thesis by (rule fr_trans)
    next
      case (Some x)
      with body turn r step show ?thesis by (simp add: eq)
    qed
  qed
  then show ?thesis by simp
qed

lemma socket_is_idle_frame:
  "socket_is_idle ops hops p = Inr (p', res) \<Longrightarrow>
   frame (connection (m_session p)) (connection (m_session p'))"
  by (auto simp: socket_is_idle_def and_then_def fr_refl dest: respond_with_error_frame
      split: io_direction.splits sum.splits)

end

end
