(* ===== verification/Echo_Loop.thy ===== *)
theory Echo_Loop
  imports Echo_Session Socket_Frame
begin

text \<open>
  The echo server's calls on one connection: the loop of the request processor over the
  states of \<^verbatim>\<open>Echo_Session\<close>, the refusals it makes, with what becomes of the bytes
  behind them, and the time-out.
\<close>

text \<open>The replies the peer is to get, and that the processor is somewhere in them.\<close>

definition on_course ::
  "('s \<Rightarrow> string) \<Rightarrow> ('s \<Rightarrow> string) \<Rightarrow> reply list \<Rightarrow> ('s, echo_http_request) request_processor \<Rightarrow> bool" where
  "on_course incoming sent as proc \<longleftrightarrow>
     (\<exists>answered todo. as = answered @ todo \<and> list_all reply_fits todo
        \<and> serving incoming sent answered todo proc)"

lemma on_courseI:
  assumes "serving incoming sent answered todo proc" and "list_all reply_fits todo"
  shows "on_course incoming sent (answered @ todo) proc"
  using assms by (auto simp: on_course_def)

lemma on_course_next:
  assumes "serving incoming sent (answered @ [a]) todo proc" and "list_all reply_fits todo"
  shows "on_course incoming sent (answered @ a # todo) proc"
  using on_courseI [OF assms] by simp

context echo_session
begin

section \<open>Refusals\<close>

text \<open>
  A refusal is made between two replies: reading stops, the text of the refusal is on its way,
  and the next request is looked for in the receive window.
\<close>

lemma refuse:
  assumes between: "between_replies sent answered proc"
    and a: "is_refusal a" "http_status res = reply_status a" "error_message res = Some (reply_body a)"
    and fits: "reply_fits a"
  shows "\<exists>proc'. respond_with_error ops echo_ops res proc = Inr proc'
    \<and> read_stopped (connection (m_session proc'))
    \<and> serving incoming sent answered (a # later_replies (span_to_read (m_recv_span proc))) proc'"
proof -
  have len: "length (reply_body a) \<le> string_max_size"
    using fits by (cases a) (simp_all add: string_max_size_def)
  have "append_response_fields (reply_body a) [] = Inr (resp_fields (reply_head a))"
    by (simp add: append_response_fields_empty reply_head_def reply_header_def)
  then have "finalize_error echo_ops h [] res =
      Inr (h\<lparr>m_error_message := Some (reply_body a), m_response_body := reply_body a,
             m_read_offset := Some 0\<rparr>, resp_fields (reply_head a))" for h
    using len by (simp add: echo_ops_def echo_finalize_error_def a(3) check_length_def)
  with between a stop_reading show ?thesis
    by (simp add: respond_with_error_def Let_def response_info_default_def serving_def
        serving_response_header_def between_replies_def pending_input_def reply_head_def reply_header_def)
qed

lemma refused_on_course:
  assumes "proc_base echo_inv proc" and "between_replies sent answered proc"
    and "is_refusal a" "http_status res = reply_status a" "error_message res = Some (reply_body a)"
    and "reply_fits a" and "unread a = pending_input incoming proc"
  shows "\<exists>proc' bs. respond_with_error ops echo_ops res proc = Inr proc'
    \<and> read_stopped (connection (m_session proc'))
    \<and> with_leftovers (answered @ [a]) bs \<and> on_course incoming sent bs proc'"
proof -
  let ?window = "span_to_read (m_recv_span proc)"
  have "length ?window \<le> processor_buffer_size"
    using assms(1) length_span_le [of "m_recv_span proc"] by (auto simp: proc_base_def)
  moreover have "?window = take (length ?window) (unread a)" using assms(7) by (simp add: pending_input_def)
  moreover note leftovers [OF no_leftovers [of "answered @ [a]"], of "length ?window"]
    leftovers_fit [of "length ?window" "unread a"]
  ultimately have "with_leftovers (answered @ [a]) (answered @ a # later_replies ?window)"
    and "list_all reply_fits (a # later_replies ?window)"
    using assms(3,6) by simp_all
  with refuse [OF assms(2-6)] show ?thesis unfolding on_course_def by blast
qed

section \<open>The loop\<close>

text \<open>
  What a call of the loop ends with: the bytes sent are a prefix of the replies; when it asks
  for more data it can be called again, and when it ends the connection, either the socket
  refused or all replies have been sent.
\<close>

definition loop_result ::
  "reply list \<Rightarrow> ('s, echo_http_request) request_processor \<Rightarrow> process_request_result \<Rightarrow> bool" where
  "loop_result as proc' res \<longleftrightarrow>
     (let s' = connection (m_session proc') in
      prefix (sent s') (reply_stream as)
      \<and> (case pr_status res of
           Proc_more_data_needed \<Rightarrow> on_course incoming sent as proc' \<and> resting proc'
             \<and> (read_refused ops s' Op_would_block \<or> write_refused ops s' Op_would_block)
         | Proc_completed \<Rightarrow>
             write_refused ops s' Op_completed \<or> read_refused ops s' Op_error
             \<or> sent s' = reply_stream as
         | Proc_io_error \<Rightarrow> read_refused ops s' Op_error \<or> write_refused ops s' Op_error
         | Proc_application_error \<Rightarrow> False))"

lemma serving_prefix:
  assumes "serving incoming sent answered todo proc"
  shows "prefix (sent (connection (m_session proc))) (reply_stream (answered @ todo))"
proof (cases "fst (m_state proc)")
  case (Write_response_header ser)
  with assms obtain a rest where "todo = a # rest"
    and "sent (connection (m_session proc)) @ span_to_read (m_send_span proc) @ serializer_rest ser
      = reply_stream answered @ response_text (reply_head a)"
    by (auto simp: serving_def serving_response_header_def)
  then have "reply_stream (answered @ todo) = sent (connection (m_session proc))
      @ (span_to_read (m_send_span proc) @ serializer_rest ser @ reply_body a @ reply_stream rest)"
    by (simp add: reply_text_def)
  then show ?thesis by (rule prefixI)
next
  case (Write_response_body n)
  with assms obtain a rest off where "todo = a # rest"
    and "sent (connection (m_session proc)) @ span_to_read (m_send_span proc)
      @ drop off (reply_body a) = reply_stream (answered @ [a])"
    by (auto simp: serving_def serving_response_body_def)
  then have "reply_stream (answered @ todo) = sent (connection (m_session proc))
      @ (span_to_read (m_send_span proc) @ drop off (reply_body a) @ reply_stream rest)"
    by simp
  then show ?thesis by (rule prefixI)
qed (use assms in \<open>simp_all add: serving_def between_replies_def\<close>)

lemma on_course_prefix:
  "on_course incoming sent as proc \<Longrightarrow> prefix (sent (connection (m_session proc))) (reply_stream as)"
  unfolding on_course_def using serving_prefix by blast

text \<open>One turn of the loop.\<close>

lemma serve_turn:
  assumes inv: "proc_inv echo_inv echo_responding proc" and course: "on_course incoming sent as proc"
  shows "\<exists>proc' out. processor_turn ops echo_ops proc = Some (Inr (proc', out))
    \<and> (case out of
         None \<Rightarrow> proc_inv echo_inv echo_responding proc'
           \<and> proc_weight incoming proc' < proc_weight incoming proc
           \<and> (\<exists>bs. with_leftovers as bs \<and> (bs = as \<or> read_stopped (connection (m_session proc')))
                \<and> on_course incoming sent bs proc')
       | Some res \<Rightarrow> loop_result as proc' res)"
proof -
  from course obtain answered todo where as: "as = answered @ todo" and fits: "list_all reply_fits todo"
    and s: "serving incoming sent answered todo proc" by (auto simp: on_course_def)
  from serve_visit [OF inv s fits] obtain proc1 resp where
    v: "visit_state ops echo_ops proc = Some (Inr (proc1, resp))"
    and sv: "served answered todo proc1 resp" by blast
  have turn: "processor_turn ops echo_ops proc = Some (after_visit ops echo_ops proc1 resp)"
    by (simp add: processor_turn_def v)
  with processor_turn_ok [OF inv] have ok: "case after_visit ops echo_ops proc1 resp of
       Inr (proc', None) \<Rightarrow> proc_inv echo_inv echo_responding proc'
         \<and> proc_weight incoming proc' < proc_weight incoming proc
     | _ \<Rightarrow> True"
    by (auto split: sum.splits option.splits)
  from good_visit [OF inv] v have good: "good_visit proc (Inr (proc1, resp))" by auto
  show ?thesis
  proof (cases "st_status resp")
    case State_completed
    with good obtain st where
      st: "make_state_handler (fst (m_state proc1)) (s_request_info (m_session proc1))
             (s_response_info (m_session proc1)) = Inr st"
      by (auto simp: good_visit_def)
    have "on_course incoming sent as (proc1\<lparr>m_state := st\<rparr>)"
      using sv st fits by (auto simp: served_def State_completed as intro: on_courseI on_course_next)
    with ok st State_completed no_leftovers [of as] show ?thesis
      by (auto simp: turn after_visit_def Let_def)
  next
    case Client_error_detected
    with sv obtain a where between: "between_replies sent answered proc1"
      and todo: "todo = [a]" and a: "is_refusal a" "http_status (st_result resp) = reply_status a"
        "error_message (st_result resp) = Some (reply_body a)" and left: "unread a = pending_input incoming proc1"
      by (auto simp: served_def)
    from good have "proc_base echo_inv proc1" by (simp add: good_visit_def)
    from refused_on_course [OF this between a _ left] fits obtain proc' bs where
      "respond_with_error ops echo_ops (st_result resp) proc1 = Inr proc'"
      "read_stopped (connection (m_session proc'))" "with_leftovers as bs" "on_course incoming sent bs proc'"
      by (auto simp: todo as)
    with ok Client_error_detected show ?thesis
      by (auto simp: turn after_visit_def Let_def)
  next
    case State_more_data_needed
    with sv fits serving_prefix [of answered todo proc1] show ?thesis
      by (auto simp: turn after_visit_def Let_def served_def loop_result_def on_course_def as)
  qed (use sv in \<open>auto simp: turn after_visit_def Let_def served_def loop_result_def as\<close>)
qed

end

text \<open>Reading does not start again.\<close>

sublocale echo_session \<subseteq> stopping: socket_frame ops "\<lambda>s s'. read_stopped s \<longrightarrow> read_stopped s'"
  by unfold_locales (use read_frame write_frame stop_reading in \<open>fastforce+\<close>)

context echo_session
begin

text \<open>The loop returns, without an exception.\<close>

lemma serve_loop:
  assumes "proc_inv echo_inv echo_responding proc" and "on_course incoming sent as proc"
  shows "\<exists>proc' res bs. socket_is_ready ops echo_ops proc = Some (Inr (proc', res))
    \<and> with_leftovers as bs \<and> (bs = as \<or> read_stopped (connection (m_session proc')))
    \<and> loop_result bs proc' res"
  using assms
proof (induction "proc_weight incoming proc" arbitrary: proc as rule: less_induct)
  case less
  from serve_turn [OF less.prems] obtain proc1 out where
    turn: "processor_turn ops echo_ops proc = Some (Inr (proc1, out))"
    and post: "case out of
         None \<Rightarrow> proc_inv echo_inv echo_responding proc1
           \<and> proc_weight incoming proc1 < proc_weight incoming proc
           \<and> (\<exists>bs. with_leftovers as bs \<and> (bs = as \<or> read_stopped (connection (m_session proc1)))
                \<and> on_course incoming sent bs proc1)
       | Some res \<Rightarrow> loop_result as proc1 res" by blast
  show ?case
  proof (cases out)
    case None
    with post obtain bs where inv: "proc_inv echo_inv echo_responding proc1"
      and less': "proc_weight incoming proc1 < proc_weight incoming proc"
      and bs: "with_leftovers as bs" "bs = as \<or> read_stopped (connection (m_session proc1))"
      and course: "on_course incoming sent bs proc1" by auto
    from less.hyps [OF less' inv course] obtain proc' res cs where
      r: "socket_is_ready ops echo_ops proc1 = Some (Inr (proc', res))"
      and cs: "with_leftovers bs cs" "cs = bs \<or> read_stopped (connection (m_session proc'))"
        "loop_result cs proc' res" by blast
    from stopping.socket_is_ready_frame [OF r] bs(2) cs(2)
    have "cs = as \<or> read_stopped (connection (m_session proc'))" by auto
    with with_leftovers_trans [OF cs(1) bs(1)] cs(3) r show ?thesis
      by (auto simp: socket_is_ready.simps [of ops echo_ops proc] turn None)
  next
    case (Some res)
    with post no_leftovers [of as] show ?thesis
      by (auto simp: socket_is_ready.simps [of ops echo_ops proc] turn)
  qed
qed

text \<open>
  The time-out: while the server waits for the peer it answers that, and reads no more; while
  it waits to send, it gives up.
\<close>

lemma serve_idle:
  assumes course: "on_course incoming sent as proc" and resting: "resting proc"
  shows "\<exists>proc' res. socket_is_idle ops echo_ops proc = Inr (proc', res)
    \<and> (if select_io_direction (fst (m_state proc)) = Io_input
       then pr_status res = Proc_more_data_needed \<and> read_stopped (connection (m_session proc'))
         \<and> (\<exists>k. on_course incoming sent (take k as @ [timeout_reply]) proc')
       else pr_status res = Proc_completed \<and> proc' = proc)"
proof (cases "select_io_direction (fst (m_state proc))")
  case Io_input
  from course obtain answered todo where as: "as = answered @ todo"
    and s: "serving incoming sent answered todo proc" by (auto simp: on_course_def)
  from s Io_input have between: "between_replies sent answered proc"
    by (cases "fst (m_state proc)") (simp_all add: serving_def)
  have window: "later_replies (span_to_read (m_recv_span proc)) = []"
    using resting Io_input by (simp add: resting_def later_replies_def)
  let ?res = "\<lparr>http_status = Request_timeout, error_message = make_unique_cstr (status_to_string Request_timeout)\<rparr>"
  from refuse [OF between, of timeout_reply ?res] obtain proc' where
    r: "respond_with_error ops echo_ops ?res proc = Inr proc'" "read_stopped (connection (m_session proc'))"
    and s': "serving incoming sent answered [timeout_reply] proc'" by (auto simp: window)
  have "on_course incoming sent (take (length answered) as @ [timeout_reply]) proc'"
    unfolding on_course_def using s' by (intro exI [of _ answered] exI [of _ "[timeout_reply]"]) (simp add: as)
  with r show ?thesis by (auto simp: socket_is_idle_def Io_input)
qed (simp add: socket_is_idle_def)

end

end
