(* ===== verification/Connection_Properties.thy ===== *)
theory Connection_Properties
  imports Echo_Loop
begin

text \<open>
  The properties of one connection: what each state of a request promises for any socket
  and handler that meet their contracts, and what the processor promises.
\<close>

section \<open>The contracts on the model's own sockets and handler\<close>

sublocale kernel_contract \<subseteq> echo_server: echo_session "inet_ops kops" inet_incoming inet_sent m_read_disabled
  by (intro echo_session.intro session_io.intro inet.socket_contract_axioms echo.handler_contract_axioms)

text \<open>
  A kernel that never makes a caller wait: the peer's bytes are all there, followed by the
  end of the stream, and every send takes all it is given.
\<close>

record pipe_kernel =
  p_arrived :: string
  p_delivered :: string

definition pipe_ops :: "pipe_kernel kernel_ops" where
  "pipe_ops =
     \<lparr>sys_read = (\<lambda>k n. (k\<lparr>p_arrived := drop n (p_arrived k)\<rparr>, Returned (take n (p_arrived k)))),
      sys_send = (\<lambda>k bytes. (k\<lparr>p_delivered := p_delivered k @ bytes\<rparr>, Returned (length bytes))),
      sys_shutdown_read = (\<lambda>k. k)\<rparr>"

interpretation pipe: kernel_contract pipe_ops p_arrived p_delivered
  by unfold_locales (auto simp: pipe_ops_def)

lemma pipe_contract: "kernel_contract pipe_ops p_arrived p_delivered"
  by (rule pipe.kernel_contract_axioms)

lemma script_echo_session_io:
  "session_io (inet_ops script_ops) script.inet_incoming script.inet_sent m_read_disabled
     echo_ops echo_inv echo_responding"
  by (rule script.echo_server.session_io_axioms)

text \<open>A session to try the properties on: half a request has arrived, and there is room to send.\<close>

definition example_session :: "(script_kernel inet_connection, echo_http_request) session" where
  "example_session =
     \<lparr>connection = inet_connection_init
        \<lparr>k_reads = [Returned ''GET / HT'', Failed EAGAIN], k_sends = [Returned 5, Failed EAGAIN],
         k_delivered = []\<rparr> 0x7F000001 49152,
      request_handler = echo_http_request_init\<lparr>m_read_offset := Some 0\<rparr>,
      s_request_info = request_info_default,
      s_response_info = \<lparr>rsp_header = echo_response_header []\<rparr>\<rparr>"

lemma example_session_handler:
  "echo_inv (request_handler example_session)" "echo_responding (request_handler example_session)"
  by (simp_all add: example_session_def echo_inv_def echo_responding_def echo_http_request_init_def)

definition example_buffer :: buffer_span where
  "example_buffer = buffer_span_init (replicate 16 NUL)"

lemma example_buffer_wf:
  "wf_span example_buffer" "0 < buffer_size example_buffer" "span_to_read example_buffer = []"
  by (simp_all add: example_buffer_def)

section \<open>The states\<close>

text \<open>
  C8: reading a request header, whatever the socket does within its contract. The call
  returns. It took some bytes from the window and then from the connection, in order, no
  more than the budget allows, passed them to the parser, and sent nothing; the rest is
  still in the window or has not arrived. What it answers follows from the parser's
  verdict on those bytes as \<open>header_read_spec\<close> says. To a complete header, as
  \<open>header_answered\<close> writes out: 505 for another version and 400 for a content length that is not
  a number, without the handler being asked; otherwise the handler is given the header, and its
  result is the answer, an error of the client when its status is one. Else 400 for what the
  parser refuses, 413 when the budget is used up, and for more data what the socket said. An
  exception can only come from the handler.
\<close>

theorem read_request_header_refines:
  assumes "session_io ops incoming sent read_stopped hops h_inv h_responding"
    and "parser_inv (m_req_header_parser st)" and "wf_span buffer" and "0 < buffer_size buffer"
    and "h_inv (request_handler ses)"
  shows "\<exists>r. read_request_header_ready ops hops st buffer ses = Some r
    \<and> (case r of
         Inl e \<Rightarrow> thrown e \<and> header_read_fault incoming hops st buffer ses e
       | Inr (st', buffer', ses', resp) \<Rightarrow> wf_span buffer' \<and> buffer_size buffer' = buffer_size buffer
           \<and> h_inv (request_handler ses')
           \<and> header_read_spec ops incoming sent read_stopped hops st buffer ses st' buffer' ses' resp)"
  using session_io.read_request_header_outcome [OF assms(1,2,3,5,4)] by blast

theorem read_request_header_refines_witness:
  "\<exists>r. read_request_header_ready (inet_ops script_ops) echo_ops (read_request_header_init 100)
        example_buffer example_session = Some r
    \<and> (case r of
         Inl e \<Rightarrow> thrown e \<and> header_read_fault script.inet_incoming echo_ops
           (read_request_header_init 100) example_buffer example_session e
       | Inr (st', buffer', ses', resp) \<Rightarrow> wf_span buffer' \<and> buffer_size buffer' = buffer_size example_buffer
           \<and> echo_inv (request_handler ses')
           \<and> header_read_spec (inet_ops script_ops) script.inet_incoming script.inet_sent m_read_disabled
               echo_ops (read_request_header_init 100) example_buffer example_session st' buffer' ses' resp)"
  by (rule read_request_header_refines [OF script_echo_session_io _ example_buffer_wf(1,2)
        example_session_handler(1)]) (simp add: parser_inv_init)

text \<open>
  C9: reading a request body. The bytes taken from the window and the connection went to
  the handler in order, never more than the request announced, and nothing was sent; the rest
  of the window is kept for the next request. When all announced bytes were delivered, and only
  then, the handler's \<open>finalize_body\<close> is asked, and what it says becomes the response and the
  answer, as \<open>body_answered\<close> writes out: version 1.1, its status and fields, an error of the
  client when its status is one. The other answers are those of \<open>body_read_spec\<close>; an exception
  can only come from the handler.
\<close>

theorem read_request_body_refines:
  assumes "session_io ops incoming sent read_stopped hops h_inv h_responding"
    and "wf_span buffer" and "0 < buffer_size buffer" and "h_inv (request_handler ses)"
  shows "\<exists>r. read_request_body_ready ops hops n buffer ses = Some r
    \<and> (case r of
         Inl e \<Rightarrow> thrown e \<and> body_read_fault incoming hops n buffer ses e
       | Inr (n', buffer', ses', resp) \<Rightarrow> wf_span buffer' \<and> buffer_size buffer' = buffer_size buffer
           \<and> h_inv (request_handler ses')
           \<and> body_read_spec ops incoming sent read_stopped hops n buffer ses n' buffer' ses' resp)"
  using session_io.read_request_body_outcome [OF assms(1,2,4,3)] by blast

theorem read_request_body_refines_witness:
  "\<exists>r. read_request_body_ready (inet_ops script_ops) echo_ops 3 example_buffer example_session = Some r
    \<and> (case r of
         Inl e \<Rightarrow> thrown e \<and> body_read_fault script.inet_incoming echo_ops 3 example_buffer example_session e
       | Inr (n', buffer', ses', resp) \<Rightarrow> wf_span buffer' \<and> buffer_size buffer' = buffer_size example_buffer
           \<and> echo_inv (request_handler ses')
           \<and> body_read_spec (inet_ops script_ops) script.inet_incoming script.inet_sent m_read_disabled
               echo_ops 3 example_buffer example_session n' buffer' ses' resp)"
  by (rule read_request_body_refines [OF script_echo_session_io example_buffer_wf(1,2)
        example_session_handler(1)])

text \<open>
  C10: writing a response header. What the connection took is a prefix of what was in the
  send window followed by the text of the header not yet handed out; the rest is still
  there, so over any number of calls every byte is sent once and in order. The state has
  completed only when nothing is left. The call cannot fail: the abort at the end of the
  transfer is not reached, because the text is shorter than the largest transfer.
\<close>

theorem write_response_header_refines:
  fixes ses :: "('s, 'h) session" and hops :: "('h, 'e) handler_ops"
  assumes "session_io ops incoming sent read_stopped hops h_inv h_responding"
    and "serializer_inv ser" and "wf_span buffer" and "0 < buffer_size buffer"
    and "length (span_to_read buffer @ serializer_rest ser) < 2 ^ 64 - 1"
  shows "\<exists>ser' buffer' ses' resp.
    write_response_header_ready ops ser buffer ses = Some (Inr (ser', buffer', ses', resp))
    \<and> wf_span buffer' \<and> buffer_size buffer' = buffer_size buffer \<and> serializer_inv ser'
    \<and> header_write_spec ops incoming sent read_stopped ser buffer ses ser' buffer' ses' resp"
  using session_io.write_response_header_outcome [OF assms] .

theorem write_response_header_refines_witness:
  "\<exists>ser' buffer' ses' resp.
    write_response_header_ready (inet_ops script_ops)
      (response_header_serializer_init (echo_response_header [])) example_buffer example_session
        = Some (Inr (ser', buffer', ses', resp))
    \<and> wf_span buffer' \<and> buffer_size buffer' = buffer_size example_buffer \<and> serializer_inv ser'
    \<and> header_write_spec (inet_ops script_ops) script.inet_incoming script.inet_sent m_read_disabled
        (response_header_serializer_init (echo_response_header [])) example_buffer example_session
        ser' buffer' ses' resp"
proof (rule write_response_header_refines [OF script_echo_session_io _ example_buffer_wf(1,2)])
  show "serializer_inv (response_header_serializer_init (echo_response_header []))" by simp
  have "wf_response_fields (resp_fields (echo_response_header []))"
    using append_response_fields_ok [of "[]"]
    by (simp add: append_response_fields_empty reply_header_def)
  from response_text_length [OF this, of Ok]
  show "length (span_to_read example_buffer
      @ serializer_rest (response_header_serializer_init (echo_response_header []))) < 2 ^ 64 - 1"
    by (simp add: example_buffer_wf reply_header_def)
qed

text \<open>
  C11: writing a response body. The same for the content the handler returns: the
  connection takes it in order behind what is in the send window, never more than the
  response announced, and the state has completed only when that many bytes were taken.
\<close>

theorem write_response_body_refines:
  assumes "session_io ops incoming sent read_stopped hops h_inv h_responding"
    and "h_responding (request_handler ses)" and "wf_span buffer"
  shows "\<exists>r. write_response_body_ready ops hops n buffer ses = Some r
    \<and> (case r of
         Inl e \<Rightarrow> thrown e \<and> body_write_fault hops ses e
       | Inr (n', buffer', ses', resp) \<Rightarrow> wf_span buffer' \<and> buffer_size buffer' = buffer_size buffer
           \<and> h_responding (request_handler ses')
           \<and> body_write_spec ops incoming sent read_stopped h_responding hops n buffer ses
               n' buffer' ses' resp)"
  using session_io.write_response_body_outcome [OF assms] .

theorem write_response_body_refines_witness:
  "\<exists>r. write_response_body_ready (inet_ops script_ops) echo_ops 7 example_buffer example_session = Some r
    \<and> (case r of
         Inl e \<Rightarrow> thrown e \<and> body_write_fault echo_ops example_session e
       | Inr (n', buffer', ses', resp) \<Rightarrow> wf_span buffer' \<and> buffer_size buffer' = buffer_size example_buffer
           \<and> echo_responding (request_handler ses')
           \<and> body_write_spec (inet_ops script_ops) script.inet_incoming script.inet_sent m_read_disabled
               echo_responding echo_ops 7 example_buffer example_session n' buffer' ses' resp)"
  by (rule write_response_body_refines [OF script_echo_session_io example_session_handler(2)
        example_buffer_wf(1)])

text \<open>
  C33: a request that repeats Content-Length is refused rather than read with one of the
  lengths. The field map joins the values with a comma, and the joined text is not a number,
  whatever the values, equal ones included: the complete header is answered with 400, and the
  handler is not asked. Only an empty repetition, which the map drops, leaves the first length
  in force.
\<close>

theorem repeated_content_length_refused:
  assumes "om_ordered field_name_cmp m"
    and "map toupper name = map toupper ''Content-Length''"
    and "field_map_find ''Content-Length'' m = Some v"
    and "req_fields hdr = field_map_append (Field_name name) w m"
    and "rl_http_version (req_line hdr) = mk_version 1 1"
  shows "if value_value w = [] then get_content_length_request hdr = to_number 64 v
    else get_content_length_request hdr = None
      \<and> header_completed hops ses hdr
          = Inr (ses\<lparr>s_request_info := (s_request_info ses)\<lparr>ri_header := hdr\<rparr>\<rparr>,
             \<lparr>st_status = Client_error_detected, st_result = \<lparr>http_status = Bad_request,
                error_message = Some ''Bad content-length''\<rparr>\<rparr>)"
proof -
  have joined: "field_map_find ''Content-Length'' (req_fields hdr) = Some (merge_value (Some v) (value_value w))"
    using assms(2-4) by (simp add: field_map_find_append [OF assms(1)])
  show ?thesis
  proof (cases "value_value w = []")
    case True
    with joined show ?thesis
      by (simp add: merge_value_def get_content_length_request_def get_content_length_def)
  next
    case False
    have "\<not> list_all is_digit (v @ '', '' @ value_value w)" by (simp add: is_digit_def)
    from to_number_not_digits [OF this, of 64]
    have none: "to_number 64 (merge_value (Some v) (value_value w)) = None"
      using False by (simp add: merge_value_def)
    from unreadable_length [OF assms(5) joined none, of hops ses] False none joined show ?thesis
      by (simp add: header_answered_iff get_content_length_request_def get_content_length_def)
  qed
qed

text \<open>The length 5, given twice.\<close>

definition length_twice :: request_header where
  "length_twice =
     \<lparr>req_line = \<lparr>rl_method = Request_method ''GET'', rl_request_target = Uri ''/'',
        rl_http_version = mk_version 1 1\<rparr>,
      req_fields = field_map_append (Field_name ''content-length'') (Field_value ''5'')
        [(Field_name ''Content-Length'', ''5'')]\<rparr>"

theorem repeated_content_length_refused_witness:
  "get_content_length_request length_twice = None
   \<and> header_completed echo_ops example_session length_twice
       = Inr (example_session\<lparr>s_request_info := (s_request_info example_session)\<lparr>ri_header := length_twice\<rparr>\<rparr>,
          \<lparr>st_status = Client_error_detected, st_result = \<lparr>http_status = Bad_request,
             error_message = Some ''Bad content-length''\<rparr>\<rparr>)"
proof -
  have "om_ordered field_name_cmp [(Field_name ''Content-Length'', ''5'')]" by simp
  moreover have "map toupper ''content-length'' = map toupper ''Content-Length''" by code_simp
  moreover have "field_map_find ''Content-Length'' [(Field_name ''Content-Length'', ''5'')] = Some ''5''"
    by code_simp
  moreover have "req_fields length_twice = field_map_append (Field_name ''content-length'') (Field_value ''5'')
      [(Field_name ''Content-Length'', ''5'')]" "rl_http_version (req_line length_twice) = mk_version 1 1"
    by (simp_all add: length_twice_def)
  ultimately show ?thesis
    using repeated_content_length_refused
      [of "[(Field_name ''Content-Length'', ''5'')]" "''content-length''" "''5''" length_twice
        "Field_value ''5''" echo_ops example_session] by simp
qed

section \<open>The processor\<close>

text \<open>
  C7: a processor in a state it can be in, called because its socket is ready, for any
  socket and handler within their contracts. The call returns, so a peer cannot keep the
  server in the loop with what it has sent; no assertion fails, nothing aborts and nothing
  is undefined, only an exception of the handler can come out; the direction reported is
  that of the state it stopped in; and when it asks for more data it is again in a state
  it can be in, ready to be called when the socket is.
\<close>

theorem processor_ready_safe:
  assumes "session_io ops incoming sent read_stopped hops h_inv h_responding"
    and "proc_inv h_inv h_responding proc"
  shows "\<exists>r. socket_is_ready ops hops proc = Some r
    \<and> (case r of
         Inl e \<Rightarrow> thrown e
       | Inr (proc', res) \<Rightarrow> pr_io_dir res = select_io_direction (fst (m_state proc'))
           \<and> (if pr_status res = Proc_more_data_needed then proc_inv h_inv h_responding proc'
              else is_session_terminated (pr_status res)))"
proof -
  have "pr_status res \<noteq> Proc_more_data_needed \<Longrightarrow> is_session_terminated (pr_status res)" for res
    by (cases "pr_status res") (simp_all add: is_session_terminated_def)
  with session_io.socket_is_ready_ok [OF assms] show ?thesis
    by (elim exE, rename_tac r, rule_tac x = r in exI) (auto split: sum.splits)
qed

definition example_processor ::
  "(script_kernel inet_connection, echo_http_request) request_processor" where
  "example_processor =
     request_processor_init (connection example_session) echo_http_request_init"

lemma example_processor_inv: "proc_inv echo_inv echo_responding example_processor"
  by (simp add: example_processor_def proc_inv_init echo_inv_def echo_http_request_init_def)

theorem processor_ready_safe_witness:
  "\<exists>r. socket_is_ready (inet_ops script_ops) echo_ops example_processor = Some r
    \<and> (case r of
         Inl e \<Rightarrow> thrown e
       | Inr (proc', res) \<Rightarrow> pr_io_dir res = select_io_direction (fst (m_state proc'))
           \<and> (if pr_status res = Proc_more_data_needed then proc_inv echo_inv echo_responding proc'
              else is_session_terminated (pr_status res)))"
  by (rule processor_ready_safe [OF script_echo_session_io example_processor_inv])

text \<open>
  C29: an idle connection. While a request is being read or waited for, reading stops, nothing
  is sent yet, and the processor goes on to write the header of a response of version 1.1 with
  status 408, its reason phrase and the fields the handler made for it; while a response is
  being written, the session ends and nothing has changed.
\<close>

theorem processor_idle:
  assumes "session_io ops incoming sent read_stopped hops h_inv h_responding"
    and "proc_inv h_inv h_responding proc"
  shows "case socket_is_idle ops hops proc of
      Inl e \<Rightarrow> thrown e
    | Inr (proc', res) \<Rightarrow> pr_io_dir res = select_io_direction (fst (m_state proc'))
        \<and> (if select_io_direction (fst (m_state proc)) = Io_input
           then pr_status res = Proc_more_data_needed \<and> proc_inv h_inv h_responding proc'
             \<and> pr_io_dir res = Io_output \<and> read_stopped (connection (m_session proc'))
             \<and> sent (connection (m_session proc')) = sent (connection (m_session proc))
             \<and> (\<exists>flds. wf_response_fields flds
                  \<and> rsp_header (s_response_info (m_session proc')) = idle_response flds
                  \<and> m_state proc' = (Write_response_header
                      (response_header_serializer_init (idle_response flds)), Io_output))
           else pr_status res = Proc_completed \<and> proc' = proc)"
  using session_io.socket_is_idle_ok [OF assms] .

theorem processor_idle_witness:
  "case socket_is_idle (inet_ops script_ops) echo_ops example_processor of
      Inl e \<Rightarrow> thrown e
    | Inr (proc', res) \<Rightarrow> pr_io_dir res = select_io_direction (fst (m_state proc'))
        \<and> (if select_io_direction (fst (m_state example_processor)) = Io_input
           then pr_status res = Proc_more_data_needed \<and> proc_inv echo_inv echo_responding proc'
             \<and> pr_io_dir res = Io_output \<and> m_read_disabled (connection (m_session proc'))
             \<and> script.inet_sent (connection (m_session proc')) = script.inet_sent (connection (m_session example_processor))
             \<and> (\<exists>flds. wf_response_fields flds
                  \<and> rsp_header (s_response_info (m_session proc')) = idle_response flds
                  \<and> m_state proc' = (Write_response_header
                      (response_header_serializer_init (idle_response flds)), Io_output))
           else pr_status res = Proc_completed \<and> proc' = example_processor)"
  by (rule processor_idle [OF script_echo_session_io example_processor_inv])

text \<open>
  C28: an error of the client. Whatever state found it, the turn stops reading from the
  connection, sends nothing yet, and goes on to write the header of a response of version
  1.1 that has the status found and the fields the handler made for it.
\<close>

theorem client_error_is_answered:
  assumes "session_io ops incoming sent read_stopped hops h_inv h_responding"
    and "proc_inv h_inv h_responding proc"
    and "visit_state ops hops proc = Some (Inr (proc1, resp))"
    and "st_status resp = Client_error_detected"
  shows "case processor_turn ops hops proc of
      Some (Inl e) \<Rightarrow> thrown e
    | Some (Inr (proc2, None)) \<Rightarrow>
        proc_inv h_inv h_responding proc2
        \<and> read_stopped (connection (m_session proc2))
        \<and> sent (connection (m_session proc2)) = sent (connection (m_session proc1))
        \<and> (\<exists>flds. wf_response_fields flds \<and>
             m_state proc2 = (Write_response_header (response_header_serializer_init
               \<lparr>resp_status_line = \<lparr>sl_http_version = mk_version 1 1,
                  sl_status_code = http_status (st_result resp),
                  sl_reason_phrase = status_to_string (http_status (st_result resp))\<rparr>,
                resp_fields = flds\<rparr>), Io_output))
    | _ \<Rightarrow> False"
proof -
  from session_io.good_visit [OF assms(1,2)] assms(3)
  have good: "session_io.good_visit incoming h_inv h_responding proc (Inr (proc1, resp))" by auto
  then have base: "proc_base h_inv proc1" and msg: "error_message (st_result resp) \<noteq> None"
    using assms(4) by (simp_all add: session_io.good_visit_def [OF assms(1)])
  from session_io.respond_with_error_ok [OF assms(1) base msg] show ?thesis
    by (cases "respond_with_error ops hops (st_result resp) proc1")
       (auto simp: processor_turn_def assms(3,4) after_visit_def Let_def)
qed

text \<open>A peer that closes its end in the middle of a request body.\<close>

definition broken_off :: "(script_kernel inet_connection, echo_http_request) request_processor" where
  "broken_off = example_processor
     \<lparr>m_state := (Read_request_body 3, Io_input),
      m_session := (m_session example_processor)\<lparr>connection := inet_connection_init
         \<lparr>k_reads = [Returned []], k_sends = [], k_delivered = []\<rparr> 0x7F000001 49152\<rparr>\<rparr>"

lemma broken_off_facts: "proc_inv echo_inv echo_responding broken_off"
  "\<exists>proc1 resp. visit_state (inet_ops script_ops) echo_ops broken_off = Some (Inr (proc1, resp))
    \<and> st_status resp = Client_error_detected"
proof -
  show "proc_inv echo_inv echo_responding broken_off" using example_processor_inv
    by (simp add: broken_off_def proc_inv_def proc_base_def state_inv_def)
  have p: "m_recv_span broken_off = buffer_span_init (replicate processor_buffer_size NUL)"
    and s: "m_state broken_off = (Read_request_body 3, Io_input)"
    by (simp_all add: broken_off_def example_processor_def request_processor_init_def)
  obtain b where b: "reset_with_new_length 0 (fill_span [] (m_recv_span broken_off)) = Inr b"
    using fill_reset [of "[]" "m_recv_span broken_off"] by auto
  let ?c = "connection (m_session broken_off)"
  have c: "sock_read (inet_ops script_ops) ?c n = (?c, [], Op_completed)" for n
    by (simp add: broken_off_def inet_connection_init_def inet_ops_def inet_read_def script_ops_def script_read_def)
  have "transfer_data (read_connection (inet_ops script_ops)) (handle_content echo_ops) is_error_indicator
      (ec_is_error_indicator echo_ops) (m_session broken_off, ()) (m_recv_span broken_off) 3
      = Some (Inr ((m_session broken_off, ()), b, 3, Read_exit Op_completed))"
    using b by (simp add: transfer_data.simps p read_connection_def c)
  then show "\<exists>proc1 resp. visit_state (inet_ops script_ops) echo_ops broken_off = Some (Inr (proc1, resp))
    \<and> st_status resp = Client_error_detected"
   by (simp add: visit_defs read_request_body_ready_def s map_body_exit_def make_read_response_def)
qed

theorem client_error_is_answered_witness:
  "\<exists>proc1 resp. visit_state (inet_ops script_ops) echo_ops broken_off = Some (Inr (proc1, resp))
    \<and> (case processor_turn (inet_ops script_ops) echo_ops broken_off of
      Some (Inl e) \<Rightarrow> thrown e
    | Some (Inr (proc2, None)) \<Rightarrow>
        proc_inv echo_inv echo_responding proc2
        \<and> m_read_disabled (connection (m_session proc2))
        \<and> script.inet_sent (connection (m_session proc2)) = script.inet_sent (connection (m_session proc1))
        \<and> (\<exists>flds. wf_response_fields flds \<and>
             m_state proc2 = (Write_response_header (response_header_serializer_init
               \<lparr>resp_status_line = \<lparr>sl_http_version = mk_version 1 1,
                  sl_status_code = http_status (st_result resp),
                  sl_reason_phrase = status_to_string (http_status (st_result resp))\<rparr>,
                resp_fields = flds\<rparr>), Io_output))
    | _ \<Rightarrow> False)"
proof -
  from broken_off_facts(2) obtain proc1 resp where
    v: "visit_state (inet_ops script_ops) echo_ops broken_off = Some (Inr (proc1, resp))"
    and "st_status resp = Client_error_detected" by blast
  from client_error_is_answered [OF script_echo_session_io broken_off_facts(1) this] v
  show ?thesis by (intro exI conjI)
qed

lemma header_refused:
  assumes io: "session_io ops incoming sent read_stopped hops h_inv h_responding"
    and spec: "header_read_spec ops incoming sent read_stopped hops rd b ses rd' b' ses' resp"
    and input: "span_to_read b @ incoming (connection ses) = moved @ rest"
    and refused: "parse (m_req_header_parser rd) moved = Inr (q, [], ec)"
    and ec: "ec \<noteq> Completed" "ec \<noteq> More_data_needed"
    and budget: "length moved \<le> m_bytes_to_read rd"
  shows "(\<exists>got. incoming (connection ses) = got @ incoming (connection ses')
        \<and> span_to_read b @ got = moved @ span_to_read b'
        \<and> resp = state_response Client_error_detected Bad_request
            (make_unique_cstr (req_header_parser_error_code_to_string ec)))
    \<or> length (span_to_read b) < length moved
      \<and> (\<exists>res. res \<noteq> Op_completed \<and> resp = make_read_response res ''Header truncated'')"
proof -
  from spec obtain m got ec1 where m: "span_to_read b @ got = m @ span_to_read b'"
      "incoming (connection ses) = got @ incoming (connection ses')"
    and ps: "parse (m_req_header_parser rd) m = Inr (m_req_header_parser rd', [], ec1)"
    and n: "m_bytes_to_read rd' = m_bytes_to_read rd - length m"
    and ans: "ec1 \<noteq> Completed \<Longrightarrow> ec1 \<noteq> More_data_needed \<Longrightarrow>
          resp = state_response Client_error_detected Bad_request
            (make_unique_cstr (req_header_parser_error_code_to_string ec1))"
      "ec1 = More_data_needed \<Longrightarrow> m_bytes_to_read rd' \<noteq> 0 \<Longrightarrow> span_to_read b' = []
         \<and> (\<exists>res. resp = make_read_response res ''Header truncated'' \<and> read_refused ops (connection ses') res)"
    unfolding header_read_spec_eq by auto
  have "m @ span_to_read b' @ incoming (connection ses') = moved @ rest"
    using m input by (metis append_assoc)
  then consider us where "m = moved @ us"
    | us where "moved = m @ us" "us \<noteq> []" "us @ rest = span_to_read b' @ incoming (connection ses')"
    unfolding append_eq_append_conv2 by fastforce
  then show ?thesis
  proof cases
    case 1
    with ps refused ec have "us = []" "ec1 = ec" by (auto simp: parse_append)
    with 1 m ans(1) ec show ?thesis by auto
  next
    case 2
    then have more: "ec1 = More_data_needed"
      using ps refused by (auto simp: parse_append split: if_splits)
    have "m_bytes_to_read rd' \<noteq> 0" using 2(1,2) n budget by (cases us) simp_all
    with ans(2) [OF more] obtain res where r: "span_to_read b' = []"
        "resp = make_read_response res ''Header truncated''" "read_refused ops (connection ses') res" by blast
    have "res \<noteq> Op_completed"
      using session_io.read_refused_eof [OF io, of "connection ses'"] r(1,3) 2(2,3) by auto
    moreover have "length (span_to_read b) + length got = length m"
      using arg_cong [OF m(1), of length] r(1) by simp
    ultimately show ?thesis using r(2) 2(1,2) by (cases us) auto
  qed
qed

text \<open>
  C34: what a refused request leaves behind. When the next byte that makes the parser refuse
  the header is in the receive window or arrives in the same turn, the turn goes on to answer
  with 400, and every byte behind it that was in the window or has been read with it is still
  in the window: unlike a refused body, which drops the rest of the window, a refused header
  keeps it, although reading has stopped. Nothing else can happen, except that a
  byte which is not in the window yet does not arrive, because the socket would block or
  fails, or that the handler throws when it is asked for the response.
\<close>

theorem refused_header_leaves_bytes:
  assumes "session_io ops incoming sent read_stopped hops h_inv h_responding"
    and "proc_inv h_inv h_responding proc" and "fst (m_state proc) = Read_request_header rd"
    and "span_to_read (m_recv_span proc) @ incoming (connection (m_session proc)) = moved @ rest"
    and "parse (m_req_header_parser rd) moved = Inr (q, [], ec)"
    and "ec \<noteq> Completed" and "ec \<noteq> More_data_needed" and "length moved \<le> m_bytes_to_read rd"
  shows "case processor_turn ops hops proc of
      None \<Rightarrow> False
    | Some (Inl e) \<Rightarrow> thrown e
    | Some (Inr (proc2, None)) \<Rightarrow> read_stopped (connection (m_session proc2))
        \<and> sl_status_code (resp_status_line (rsp_header (s_response_info (m_session proc2)))) = Bad_request
        \<and> m_state proc2 = (Write_response_header
            (response_header_serializer_init (rsp_header (s_response_info (m_session proc2)))), Io_output)
        \<and> (\<exists>proc1 resp got. visit_state ops hops proc = Some (Inr (proc1, resp))
             \<and> incoming (connection (m_session proc)) = got @ incoming (connection (m_session proc1))
             \<and> span_to_read (m_recv_span proc) @ got = moved @ span_to_read (m_recv_span proc2))
    | Some (Inr (proc2, Some res)) \<Rightarrow> length (span_to_read (m_recv_span proc)) < length moved
        \<and> pr_status res \<in> {Proc_more_data_needed, Proc_io_error}"
proof -
  let ?b = "m_recv_span proc" and ?ses = "m_session proc"
  from assms(2,3) have pre: "parser_inv (m_req_header_parser rd)" "wf_span ?b"
      "h_inv (request_handler ?ses)" "0 < buffer_size ?b"
    by (simp_all add: proc_inv_def proc_base_def state_inv_def processor_buffer_size_def)
  from session_io.read_request_header_outcome [OF assms(1) pre] obtain r where
    r: "read_request_header_ready ops hops rd ?b ?ses = Some r"
    and post: "case r of Inl e \<Rightarrow> thrown e \<and> header_read_fault incoming hops rd ?b ?ses e
       | Inr (st', b', ses', resp) \<Rightarrow> wf_span b' \<and> buffer_size b' = buffer_size ?b
           \<and> h_inv (request_handler ses')
           \<and> header_read_spec ops incoming sent read_stopped hops rd ?b ?ses st' b' ses' resp"
    by blast
  have visit: "visit_state ops hops proc = visit_result proc Read_request_header (Some r)"
    by (simp add: visit_defs assms(3) r)
  show ?thesis
  proof (cases r)
    case (Inl e)
    with post show ?thesis by (simp add: processor_turn_def visit visit_result_def)
  next
    case (Inr t)
    obtain rd' b' ses' resp where t: "t = (rd', b', ses', resp)" by (cases t)
    let ?proc = "store_visit proc (Read_request_header rd') b' ses'"
    have v: "visit_state ops hops proc = Some (Inr (?proc, resp))"
      by (simp add: visit visit_result_def Inr t)
    from post have "header_read_spec ops incoming sent read_stopped hops rd ?b ?ses rd' b' ses' resp"
      by (simp add: Inr t)
    from header_refused [OF assms(1) this assms(4-8)] show ?thesis
    proof (elim disjE exE conjE)
      fix got
      assume got: "incoming (connection ?ses) = got @ incoming (connection ses')"
          "span_to_read ?b @ got = moved @ span_to_read b'"
        and resp: "resp = state_response Client_error_detected Bad_request
          (make_unique_cstr (req_header_parser_error_code_to_string ec))"
      have base: "proc_base h_inv ?proc"
        using session_io.good_visit [OF assms(1,2)] v
        by (auto simp: session_io.good_visit_def [OF assms(1)])
      have msg: "error_message (st_result resp) \<noteq> None"
        by (simp add: resp make_unique_cstr_def Let_def)
      have "\<exists>got'. incoming (connection ?ses) = got' @ incoming (connection ses')
          \<and> span_to_read ?b @ got' = moved @ span_to_read b'"
        using got by blast
      with session_io.respond_with_error_ok [OF assms(1) base msg] resp show ?thesis
        by (cases "respond_with_error ops hops (st_result resp) ?proc")
           (auto simp: processor_turn_def v after_visit_def Let_def assms(3))
    next
      fix res
      assume "length (span_to_read ?b) < length moved" "res \<noteq> Op_completed"
        "resp = make_read_response res ''Header truncated''"
      then show ?thesis
        by (cases res) (simp_all add: processor_turn_def v after_visit_def Let_def make_read_response_def)
    qed
  qed
qed

text \<open>The first byte of a request that will be refused is in the window, the others arrive.\<close>

definition refused_processor ::
  "(script_kernel inet_connection, echo_http_request) request_processor" where
  "refused_processor = example_processor
     \<lparr>m_recv_span := \<lparr>bs_array = ''('' @ replicate (processor_buffer_size - 1) NUL,
        bs_begin = 0, bs_end = 1\<rparr>,
      m_session := (m_session example_processor)\<lparr>connection := inet_connection_init
         \<lparr>k_reads = [Returned '' GET''], k_sends = [], k_delivered = []\<rparr> 0x7F000001 49152\<rparr>\<rparr>"

lemma refused_processor_facts:
  "proc_inv echo_inv echo_responding refused_processor"
  "fst (m_state refused_processor) = Read_request_header (read_request_header_init max_header_size_default)"
  "span_to_read (m_recv_span refused_processor) = ''(''"
  "script.inet_incoming (connection (m_session refused_processor)) = '' GET''"
  using example_processor_inv
  by (auto simp: refused_processor_def proc_inv_def proc_base_def state_inv_def wf_span_def buffer_size_def
      processor_buffer_size_def span_to_read_def example_processor_def request_processor_init_def
      script.inet_incoming_def inet_connection_init_def script_arriving_def)

theorem refused_header_leaves_bytes_witness:
  "case processor_turn (inet_ops script_ops) echo_ops refused_processor of
      None \<Rightarrow> False
    | Some (Inl e) \<Rightarrow> thrown e
    | Some (Inr (proc2, None)) \<Rightarrow> m_read_disabled (connection (m_session proc2))
        \<and> sl_status_code (resp_status_line (rsp_header (s_response_info (m_session proc2)))) = Bad_request
        \<and> prefix (span_to_read (m_recv_span proc2)) ''GET''
    | Some (Inr (proc2, Some res)) \<Rightarrow> pr_status res \<in> {Proc_more_data_needed, Proc_io_error}"
proof -
  have "\<exists>q. parse request_header_parser_init ''( '' = Inr (q, [], Bad_request_method)"
    by (simp add: request_header_parser_init_def parse_step_def step_read_method_def method_create_def
        is_token_iff is_token_char_def is_not_token_char_iff is_delimiter_def)
  then obtain q where "parse (m_req_header_parser (read_request_header_init max_header_size_default)) ''( ''
      = Inr (q, [], Bad_request_method)" by auto
  from refused_header_leaves_bytes [OF script_echo_session_io refused_processor_facts(1,2) _ this, of "''GET''"]
  show ?thesis
    by (auto simp: refused_processor_facts max_header_size_default_def
        split: option.splits sum.splits prod.splits)
qed

text \<open>
  Bytes left behind are taken for a request. When the response has been written and the
  processor waits for data, bytes in the window are enough to start reading a header from
  them, whether or not reading has stopped: the rest of a refused request is parsed as the
  next request of the connection, and answered.
\<close>

theorem leftover_bytes_start_a_request:
  assumes "fst (m_state proc) = Wait_for_data" and "span_to_read (m_recv_span proc) \<noteq> []"
  shows "processor_turn ops hops proc = Some (Inr
      (proc\<lparr>m_state := (Read_request_header (read_request_header_init max_header_size_default), Io_input)\<rparr>,
       None))"
  using assms
  by (simp add: processor_turn_def visit_state_def visit_result_def processor_buffer_def
      select_buffer_index_def wait_for_data_ready_def store_visit_def after_visit_def
      make_state_handler_def Let_def)

theorem leftover_bytes_start_a_request_witness:
  "processor_turn (inet_ops script_ops) echo_ops (refused_processor\<lparr>m_state := (Wait_for_data, Io_input)\<rparr>)
   = Some (Inr (refused_processor\<lparr>m_state := (Read_request_header
        (read_request_header_init max_header_size_default), Io_input)\<rparr>, None))"
  using leftover_bytes_start_a_request
    [of "refused_processor\<lparr>m_state := (Wait_for_data, Io_input)\<rparr>" "inet_ops script_ops" echo_ops]
  by (simp add: refused_processor_facts)

end
