(* ===== verification/Server_Runs.thy ===== *)
theory Server_Runs
  imports Service_Registry Connection_Properties
begin

text \<open>
  The server over time: the steps it and the world around it take between cycles, what
  holds between cycles, and that starting the server and every step keep it. A scripted
  kernel, and a desk with the echo server on it, to try the properties on.
\<close>

section \<open>A scripted kernel\<close>

text \<open>
  A kernel for the properties to be tried on: which descriptors new sockets get, how far the
  clock moves at each reading, what each wait reports and which peers connect are listed in
  advance.
\<close>

record 'c script_epoll =
  e_open :: "fd list"
  e_bound :: "16 word list"
  e_watched :: "fd \<Rightarrow> listen_on option"
  e_clock :: nat
  e_sockets :: "fd list"
  e_ticks :: "nat list"
  e_ready :: "fd list list"
  e_peers :: "(fd \<times> 'c \<times> 32 word \<times> 16 word) list"

definition script_epoll_ops :: "'c script_epoll epoll_ops" where
  "script_epoll_ops =
     \<lparr>sys_epoll_create = (\<lambda>k. (k\<lparr>e_watched := \<lambda>_. None\<rparr>, Returned ())),
      sys_epoll_add = (\<lambda>k fd ev.
        if e_watched k fd = None
        then (k\<lparr>e_watched := (e_watched k)(fd := Some ev)\<rparr>, Returned ()) else (k, Failed (Other_errno 17))),
      sys_epoll_mod = (\<lambda>k fd ev.
        if e_watched k fd = None
        then (k, Failed (Other_errno 2)) else (k\<lparr>e_watched := (e_watched k)(fd := Some ev)\<rparr>, Returned ())),
      sys_epoll_del = (\<lambda>k fd. (k\<lparr>e_watched := (e_watched k)(fd := None)\<rparr>, Returned ())),
      sys_epoll_wait = (\<lambda>k n. case e_ready k of
          [] \<Rightarrow> (k, Returned [])
        | fds # rest \<Rightarrow> (k\<lparr>e_ready := rest\<rparr>,
            Returned (take n (remdups (filter (\<lambda>fd. e_watched k fd \<noteq> None) fds))))),
      sys_now = (\<lambda>k. case e_ticks k of
          [] \<Rightarrow> (k, e_clock k)
        | d # ds \<Rightarrow> (k\<lparr>e_clock := e_clock k + d, e_ticks := ds\<rparr>, e_clock k + d))\<rparr>"

definition script_calls :: "('c script_epoll, 'c) server_calls" where
  "script_calls =
     \<lparr>sys_socket = (\<lambda>k. case e_sockets k of
          [] \<Rightarrow> (k, Failed (Other_errno 24))
        | fd # fds \<Rightarrow> if fd \<in> set (e_open k) then (k, Failed (Other_errno 24))
                      else (k\<lparr>e_open := fd # e_open k, e_sockets := fds\<rparr>, Returned fd)),
      sys_bind = (\<lambda>k fd addr port.
        if port \<in> set (e_bound k) then (k, Failed (Other_errno 98))
        else (k\<lparr>e_bound := port # e_bound k\<rparr>, Returned ())),
      sys_listen = (\<lambda>k fd n. (k, Returned ())),
      sys_accept = (\<lambda>k fd. case e_peers k of
          [] \<Rightarrow> (k, Failed EAGAIN)
        | p # ps \<Rightarrow>
            if e_watched k (fst p) = None \<and> fst p \<notin> set (e_open k)
            then (k\<lparr>e_open := fst p # e_open k, e_peers := ps\<rparr>, Returned p)
            else (k, Failed (Other_errno 24))),
      sys_set_send_buffer = (\<lambda>k fd size. (k, Returned ())),
      sys_set_non_blocking = (\<lambda>k fd. (k, Returned ())),
      sys_close = (\<lambda>k fd. k\<lparr>e_open := filter (\<lambda>f. f \<noteq> fd) (e_open k),
                             e_watched := (e_watched k)(fd := None)\<rparr>),
      sys_errno = (\<lambda>k. Other_errno 0)\<rparr>"

lemma script_server: "server_contract script_epoll_ops e_watched e_clock script_calls"
  by unfold_locales
     (auto simp: script_epoll_ops_def script_calls_def dest!: in_set_takeD split: list.splits if_splits)

lemma script_descriptors: "descriptor_calls script_calls (\<lambda>k. set (e_open k))"
  by unfold_locales (auto simp: script_calls_def split: list.splits if_splits)

interpretation desk: http_service script_epoll_ops e_watched e_clock script_calls script_ops
  script.inet_incoming script.inet_sent echo_ops echo_inv echo_responding echo_http_request_init
  by (intro http_service.intro script_server script_echo_session_io http_service_axioms.intro)
     (simp add: echo_inv_def echo_http_request_init_def)

lemma desk_service:
  "http_service script_epoll_ops e_watched e_clock script_calls script_ops script.inet_incoming
     script.inet_sent echo_ops echo_inv echo_responding echo_http_request_init"
  by (rule desk.http_service_axioms)

section \<open>The server over time\<close>

text \<open>
  The server's states over time: cycles, and in between the world goes on. Time passes and
  what is ready changes, but the interest list and the open descriptors stay; and what the
  peers of the connections do changes the streams, as \<open>stream_step\<close> says.
\<close>

definition set_stream ::
  "'c \<Rightarrow> ('c inet_connection, 'h) request_processor \<Rightarrow> ('c inet_connection, 'h) request_processor" where
  "set_stream c p =
     p\<lparr>m_session := (m_session p)\<lparr>connection := (connection (m_session p))\<lparr>m_fd := c\<rparr>\<rparr>\<rparr>"

definition listener_stream :: "('c, 'h) listener_object \<Rightarrow> 'c option" where
  "listener_stream l =
     (case l of
        Http_service srv \<Rightarrow> None
      | Adm_service srv \<Rightarrow> None
      | Http_connection c \<Rightarrow> Some (m_fd (connection (m_session (ceh_session c))))
      | Adm_connection c \<Rightarrow> Some (m_fd (ceh_session c)))"

definition with_stream :: "'c \<Rightarrow> ('c, 'h) listener_object \<Rightarrow> ('c, 'h) listener_object" where
  "with_stream c l =
     (case l of
        Http_service srv \<Rightarrow> l
      | Adm_service srv \<Rightarrow> l
      | Http_connection h \<Rightarrow> Http_connection (h\<lparr>ceh_session := set_stream c (ceh_session h)\<rparr>)
      | Adm_connection h \<Rightarrow> Adm_connection (h\<lparr>ceh_session := (ceh_session h)\<lparr>m_fd := c\<rparr>\<rparr>))"

inductive server_run ::
  "'k epoll_ops \<Rightarrow> ('k, ('c, 'h) listener_object) listener_ops \<Rightarrow> ('k \<Rightarrow> fd \<Rightarrow> listen_on option) \<Rightarrow>
   ('k \<Rightarrow> fd set) \<Rightarrow> ('k \<Rightarrow> nat) \<Rightarrow> ('c \<Rightarrow> 'c \<Rightarrow> bool) \<Rightarrow>
   ('k, 'c, 'h) server_monitor \<Rightarrow> ('k, 'c, 'h) server_monitor \<Rightarrow> bool"
  for eops lops watched opened clock stream_step where
  run_begin: "server_run eops lops watched opened clock stream_step mon mon"
| run_cycle: "server_run eops lops watched opened clock stream_step mon mon1 \<Longrightarrow>
    quick_cycle eops lops clock mon1 \<Longrightarrow>
    wait_for_and_dispatch_events eops lops mon1 = Some (mon2, Inr again) \<Longrightarrow>
    server_run eops lops watched opened clock stream_step mon mon2"
| run_kernel: "server_run eops lops watched opened clock stream_step mon mon1 \<Longrightarrow>
    watched k = watched (m_epoll mon1) \<Longrightarrow> opened k = opened (m_epoll mon1) \<Longrightarrow>
    clock (m_epoll mon1) \<le> clock k \<Longrightarrow>
    server_run eops lops watched opened clock stream_step mon (mon1\<lparr>m_epoll := k\<rparr>)"
| run_peer: "server_run eops lops watched opened clock stream_step mon mon1 \<Longrightarrow>
    map_of (m_listeners mon1) fd = Some l \<Longrightarrow>
    listener_stream (m_object l) = Some c \<Longrightarrow> stream_step c c' \<Longrightarrow>
    server_run eops lops watched opened clock stream_step mon
      (mon1\<lparr>m_listeners := set_object fd (with_stream c' (m_object l)) (m_listeners mon1)\<rparr>)"

text \<open>What holds between cycles.\<close>

definition server_ok ::
  "('k \<Rightarrow> fd \<Rightarrow> listen_on option) \<Rightarrow> ('k \<Rightarrow> nat) \<Rightarrow>
   (('c inet_connection, 'h) request_processor \<Rightarrow> bool) \<Rightarrow> ('k, 'c, 'h) server_monitor \<Rightarrow> bool" where
  "server_ok watched clock p_ok mon \<longleftrightarrow>
     monitor_inv watched clock mon \<and> listeners_ok watched (listener_ok p_ok) mon
     \<and> m_fds_to_remove mon = []"

text \<open>An invariant of processors that does not depend on when the kernel hands bytes over.\<close>

definition stream_stable ::
  "('c \<Rightarrow> 'c \<Rightarrow> bool) \<Rightarrow> (('c inet_connection, 'h) request_processor \<Rightarrow> bool) \<Rightarrow> bool" where
  "stream_stable stream_step p_ok \<longleftrightarrow>
     (\<forall>p c. p_ok p \<and> stream_step (m_fd (connection (m_session p))) c \<longrightarrow> p_ok (set_stream c p))"

lemma proc_inv_set_stream [simp]:
  "proc_inv h_inv h_responding (set_stream c p) = proc_inv h_inv h_responding p"
  by (auto simp: set_stream_def proc_inv_def proc_base_def state_inv_def split: request_state.splits)

lemma proc_inv_stable: "stream_stable stream_step (proc_inv h_inv h_responding)"
  by (simp add: stream_stable_def)

lemma listener_ok_with_stream:
  assumes "stream_stable stream_step p_ok" and "listener_ok p_ok ev l"
    and "listener_stream l = Some c" and "stream_step c c'"
  shows "listener_ok p_ok ev (with_stream c' l)"
proof (cases l)
  case (Http_connection h)
  with assms have "p_ok (set_stream c' (ceh_session h))"
    by (simp add: stream_stable_def listener_ok_def listener_stream_def)
  with assms(2) show ?thesis
    by (simp add: Http_connection listener_ok_def with_stream_def) (simp add: set_stream_def)
qed (use assms(2) in \<open>simp_all add: listener_ok_def with_stream_def\<close>)

lemma server_ok_kernel:
  assumes "server_ok watched clock p_ok mon"
    and "watched k = watched (m_epoll mon)" and "clock (m_epoll mon) \<le> clock k"
  shows "server_ok watched clock p_ok (mon\<lparr>m_epoll := k\<rparr>)"
  using assms by (simp add: server_ok_def monitor_inv_epoll listeners_ok_epoll)

lemma server_ok_peer:
  assumes ok: "server_ok watched clock p_ok mon" and stable: "stream_stable stream_step p_ok"
    and l: "map_of (m_listeners mon) fd = Some l"
    and c: "listener_stream (m_object l) = Some c" "stream_step c c'"
  shows "server_ok watched clock p_ok
    (mon\<lparr>m_listeners := set_object fd (with_stream c' (m_object l)) (m_listeners mon)\<rparr>)"
proof -
  have "listeners_ok watched (listener_ok p_ok) mon" "monitor_inv watched clock mon"
    "m_fds_to_remove mon = []" using ok by (simp_all add: server_ok_def)
  moreover have "\<exists>ev. watched (m_epoll mon) fd = Some ev \<and> listener_ok p_ok ev (with_stream c' (m_object l))"
    using calculation(1,3) l listener_ok_with_stream [OF stable _ c] by (fastforce simp: listeners_ok_def)
  ultimately show ?thesis
    using l by (auto simp: server_ok_def monitor_inv_set_object listeners_ok_def map_of_set_object)
qed

context http_sessions
begin

lemma server_run_ok:
  assumes "server_run eops (server_ops eops calls kops hops req_handler) watched opened clock stream_step mon0 mon"
    and "stream_stable stream_step p_ok" and "server_ok watched clock p_ok mon0"
  shows "server_ok watched clock p_ok mon"
  using assms
proof (induction rule: server_run.induct)
  case (run_cycle mon mon1 mon2 again)
  then have "server_ok watched clock p_ok mon1" by blast
  with server.cycle_ok [of mon1] run_cycle show ?case by (auto simp: server_ok_def)
next
  case (run_kernel mon mon1 k)
  then show ?case by (simp add: server_ok_kernel)
next
  case (run_peer mon mon1 fd l c c')
  then have "server_ok watched clock p_ok mon1" by blast
  from server_ok_peer [OF this run_peer.prems(1) run_peer.hyps(2-4)] show ?case .
qed

lemma enroll_ok:
  assumes ok: "server_ok watched clock p_ok mon"
    and l: "\<And>ev. listener_ok p_ok ev l"
    and enroll: "enroll eops calls fd l mon = (mon', None)"
  shows "server_ok watched clock p_ok mon'"
proof -
  obtain k r where k: "sys_set_non_blocking calls (m_epoll mon) fd = (k, r)" by fastforce
  note same = ac_non_blocking [OF k]
  obtain u where r: "r = Returned u"
    using enroll k by (cases r) (simp_all add: enroll_def set_non_blocking_def checked_def)
  let ?mon = "mon\<lparr>m_epoll := k\<rparr>"
  have add: "monitor_add eops (listener_destroy calls) fd l Readwrite_is_possible ?mon = (mon', None)"
    using enroll k by (simp add: enroll_def set_non_blocking_def checked_def r)
  have ok': "server_ok watched clock p_ok ?mon"
    using ok same by (intro server_ok_kernel) simp_all
  have none: "map_of (m_listeners mon) fd = None"
    using add by (auto simp: monitor_add_def split: if_splits)
  have fresh: "watched (m_epoll ?mon) fd = None"
    using ok' none by (simp add: server_ok_def monitor_inv_def) (metis domIff)
  have inv': "monitor_inv watched clock ?mon" using ok' by (simp add: server_ok_def)
  from monitor_add_ok [OF inv' fresh listener_destroy_ok add] obtain n where
    m: "monitor_inv watched clock mon'" "m_fds_to_remove mon' = m_fds_to_remove mon"
    "m_listeners mon' = m_listeners mon @ [(fd, \<lparr>m_object = l, m_timer = n\<rparr>)]"
    "watched (m_epoll mon') = (watched k)(fd := Some Readwrite_is_possible)" by auto
  then show ?thesis
    using ok' none l
    by (auto simp: server_ok_def listeners_ok_def map_add_def split: option.splits if_splits)
qed

lemma start_services_ok:
  assumes "watched k = (\<lambda>_. None)"
    and start: "start_services eops calls http adm (fd_event_monitor_init k) = (mon, None)"
  shows "server_ok watched clock p_ok mon"
proof -
  obtain mon1 where e1: "enroll eops calls (srv_fd http) (Http_service http) (fd_event_monitor_init k) = (mon1, None)"
    and e2: "enroll eops calls (srv_fd adm) (Adm_service adm) mon1 = (mon, None)"
    using start by (auto simp: start_services_def run_then_def split: prod.splits option.splits)
  have "server_ok watched clock p_ok (fd_event_monitor_init k)"
    using assms(1) by (simp add: server_ok_def monitor_inv_def fd_event_monitor_init_def
        timers_match_def listeners_ok_def)
  from enroll_ok [OF this _ e1] have "server_ok watched clock p_ok mon1"
    by (simp add: listener_ok_def)
  from enroll_ok [OF this _ e2] show ?thesis by (simp add: listener_ok_def)
qed

lemma start_server_ok:
  assumes "start_server eops calls address k = Inr mon"
  shows "server_ok watched clock p_ok mon"
proof -
  from start_serverD [OF assms] obtain k2 k3 http adm where
    "sys_epoll_create eops k2 = (k3, Returned ())"
    "start_services eops calls http adm (fd_event_monitor_init k3) = (mon, None)" by blast
  with start_services_ok [of k3] ep_create [of k2 k3 "Returned ()"] show ?thesis by simp
qed

lemma server_started_ok:
  assumes "start_server eops calls address k = Inr mon0"
    and "server_run eops (server_ops eops calls kops hops req_handler) watched opened clock stream_step mon0 mon"
    and "stream_stable stream_step p_ok"
  shows "server_ok watched clock p_ok mon"
  by (rule server_run_ok [OF assms(2,3) start_server_ok [OF assms(1)]])

lemma server_cycle_ok:
  assumes "server_ok watched clock p_ok mon"
    and "quick_cycle eops (server_ops eops calls kops hops req_handler) clock mon"
  shows "\<exists>mon' r. wait_for_and_dispatch_events eops (server_ops eops calls kops hops req_handler) mon
      = Some (mon', r)
    \<and> (case r of
         Inl e \<Rightarrow> thrown e
       | Inr again \<Rightarrow> (again \<longleftrightarrow> m_listeners mon \<noteq> []) \<and> server_ok watched clock p_ok mon'
           \<and> (cleared_by_events eops (server_ops eops calls kops hops req_handler) mon \<longrightarrow>
                m_listeners mon' = []))"
  using server.cycle_ok [of mon] assms by (auto simp: server_ok_def split: sum.splits)

end

section \<open>A desk\<close>

text \<open>
  The echo server on a desk: clients can connect to descriptor 3. What the kernel has before
  the server is started; when the two server sockets and the epoll instance are there; and
  the registry when the services are enrolled.
\<close>

definition desk_boot_with :: "(fd \<times> 'c \<times> 32 word \<times> 16 word) list \<Rightarrow> 'c script_epoll" where
  "desk_boot_with peers = \<lparr>e_open = [2, 1, 0], e_bound = [49152], e_watched = \<lambda>_. None, e_clock = 0,
     e_sockets = [3, 4], e_ticks = [1, 2, 3], e_ready = [[3]], e_peers = peers\<rparr>"

definition desk_epoll_with :: "(fd \<times> 'c \<times> 32 word \<times> 16 word) list \<Rightarrow> 'c script_epoll" where
  "desk_epoll_with peers = \<lparr>e_open = [4, 3, 2, 1, 0], e_bound = [49154, 49153, 49152],
     e_watched = \<lambda>_. None, e_clock = 0, e_sockets = [], e_ticks = [1, 2, 3], e_ready = [[3]],
     e_peers = peers\<rparr>"

definition desk_http :: inet_server_socket where
  "desk_http = \<lparr>srv_fd = 3, srv_port = 49153, m_conn_send_size = Some 1024\<rparr>"

definition desk_adm :: inet_server_socket where
  "desk_adm = \<lparr>srv_fd = 4, srv_port = 49154, m_conn_send_size = None\<rparr>"

definition desk_services_with ::
  "(fd \<times> 'c \<times> 32 word \<times> 16 word) list \<Rightarrow> ('c script_epoll, 'c, 'h) server_monitor" where
  "desk_services_with peers =
     \<lparr>m_epoll = (desk_epoll_with peers)\<lparr>e_watched :=
        (\<lambda>_. None)(3 := Some Readwrite_is_possible, 4 := Some Readwrite_is_possible),
        e_clock := 3, e_ticks := [3]\<rparr>,
      m_event_buffer_capacity = 0,
      m_listeners = [(3, \<lparr>m_object = Http_service desk_http, m_timer = 0\<rparr>),
                     (4, \<lparr>m_object = Adm_service desk_adm, m_timer = 1\<rparr>)],
      m_fds_to_remove = [],
      m_fd_activity_timestamps = [(0, 1 + inactivity_period, 3), (1, 3 + inactivity_period, 4)],
      m_reg_should_be_cleared = False, next_node = 2\<rparr>"

lemma desk_enrolled:
  "start_services script_epoll_ops script_calls desk_http desk_adm
     (fd_event_monitor_init (desk_epoll_with peers)) = (desk_services_with peers, None)"
  by (simp add: desk_services_with_def start_services_def run_then_def enroll_def set_non_blocking_def
      checked_def monitor_add_def fd_event_monitor_init_def desk_http_def desk_adm_def desk_epoll_with_def
      script_epoll_ops_def script_calls_def Let_def fun_upd_def)

lemma main_ports_eq: "\<exists>rest. main_ports = 49152 # 49153 # 49154 # rest"
proof -
  have "main_ports = 49152 # 49153 # 49154 # [49155..65535]"
    using upto_rec1 [of 49152 65535] upto_rec1 [of 49153 65535] upto_rec1 [of 49154 65535]
    by (simp add: main_ports_def del: upto_rec_numeral)
  then show ?thesis by (rule exI)
qed

lemma desk_started_with:
  "start_server script_epoll_ops script_calls 0x7F000001 (desk_boot_with peers)
     = Inr (desk_services_with peers :: ('c script_epoll, 'c, 'h) server_monitor)"
proof -
  obtain rest where ports: "main_ports = 49152 # 49153 # 49154 # rest" using main_ports_eq by blast
  let ?k1 = "(desk_boot_with peers)\<lparr>e_open := [3, 2, 1, 0], e_bound := [49153, 49152], e_sockets := [4]\<rparr>"
  have http: "inet_server_socket_init script_calls 0x7F000001 main_ports 128 (Some 1024) (desk_boot_with peers)
      = (?k1, Inr desk_http)"
    by (simp add: inet_server_socket_init_def create_socket_def checked_def ports try_bind_def
        script_calls_def desk_boot_with_def desk_http_def)
  have adm: "inet_server_socket_init script_calls 0x7F000001 main_ports 128 None ?k1
      = (desk_epoll_with peers, Inr desk_adm)"
    by (simp add: inet_server_socket_init_def create_socket_def checked_def ports try_bind_def
        script_calls_def desk_boot_with_def desk_adm_def desk_epoll_with_def)
  have "monitor_create script_epoll_ops (desk_epoll_with peers) = Inr (fd_event_monitor_init (desk_epoll_with peers) ::
      ('c script_epoll, 'c, 'h) server_monitor)"
    by (simp add: monitor_create_def checked_def script_epoll_ops_def) (simp add: desk_epoll_with_def)
  with http adm show ?thesis by (simp add: start_server_def desk_enrolled)
qed

text \<open>With one client, who gets descriptor 5 and has nothing to say yet.\<close>

abbreviation desk_peers :: "(fd \<times> script_kernel \<times> 32 word \<times> 16 word) list" where
  "desk_peers \<equiv> [(5, \<lparr>k_reads = [], k_sends = [], k_delivered = []\<rparr>, 0x7F000001, 40000)]"

abbreviation "desk_boot \<equiv> desk_boot_with desk_peers"
abbreviation "desk_epoll \<equiv> desk_epoll_with desk_peers"

abbreviation desk_services :: "(script_kernel script_epoll, script_kernel, echo_http_request) server_monitor" where
  "desk_services \<equiv> desk_services_with desk_peers"

abbreviation desk_ops ::
  "(script_kernel script_epoll, (script_kernel, echo_http_request) listener_object) listener_ops" where
  "desk_ops \<equiv> server_ops script_epoll_ops script_calls script_ops echo_ops echo_http_request_init"

lemmas desk_epoll_def = desk_epoll_with_def
lemmas desk_services_eq = desk_services_with_def
lemmas desk_defs = desk_http_def desk_adm_def desk_epoll_def script_epoll_ops_def script_calls_def
lemmas desk_started = desk_started_with [of desk_peers]

lemma desk_quick: "quick_cycle script_epoll_ops desk_ops e_clock desk_services"
  by (simp add: quick_cycle_def desk_services_eq desk_defs grow_event_buffer_def Let_def
      call_listener_def server_ops_def listener_is_ready_def accept_connection_def inet_accept_def
      set_non_blocking_def checked_def monitor_add_def run_then_def touch_timer_def set_object_def erase_timer_def
      inactivity_period_def)

text \<open>The desk after a cycle: the client is connected.\<close>

definition desk_connected :: "(script_kernel script_epoll, script_kernel, echo_http_request) server_monitor" where
  "desk_connected =
     \<lparr>m_epoll = desk_epoll\<lparr>
        e_watched := (\<lambda>_. None)(3 := Some Readwrite_is_possible, 4 := Some Readwrite_is_possible,
                                 5 := Some Read_is_possible),
        e_open := [5, 4, 3, 2, 1, 0], e_clock := 6, e_ticks := [], e_ready := [], e_peers := []\<rparr>,
      m_event_buffer_capacity = 2,
      m_listeners = [(3, \<lparr>m_object = Http_service desk_http, m_timer = 0\<rparr>),
                     (4, \<lparr>m_object = Adm_service desk_adm, m_timer = 1\<rparr>),
                     (5, \<lparr>m_object = create_http_session echo_http_request_init (inet_connection_init
                        \<lparr>k_reads = [], k_sends = [], k_delivered = []\<rparr> 0x7F000001 40000), m_timer = 2\<rparr>)],
      m_fds_to_remove = [],
      m_fd_activity_timestamps = [(1, 3 + inactivity_period, 4), (2, 6 + inactivity_period, 5),
                                  (0, 6 + inactivity_period, 3)],
      m_reg_should_be_cleared = False, next_node = 3\<rparr>"

lemma desk_connects:
  "wait_for_and_dispatch_events script_epoll_ops desk_ops desk_services = Some (desk_connected, Inr True)"
  by (simp add: wait_for_and_dispatch_events_def desk_services_eq desk_connected_def desk_defs
      grow_event_buffer_def Let_def
      call_listener_def server_ops_def listener_is_ready_def accept_connection_def inet_accept_def
      set_non_blocking_def checked_def monitor_add_def run_then_def touch_timer_def set_object_def erase_timer_def
      inactivity_period_def process_idle_fds_def process_idle_from.simps [of _ _ _ "Some _"]
      flush_fds_to_remove_def fun_upd_def)

lemma desk_run:
  "server_run script_epoll_ops desk_ops e_watched opened e_clock stream_step desk_services desk_connected"
  by (rule run_cycle [OF run_begin desk_quick desk_connects])

lemma desk_services_ok: "server_ok e_watched e_clock (proc_inv echo_inv echo_responding) desk_services"
  by (rule desk.start_server_ok [OF desk_started])

lemma desk_connected_ok: "server_ok e_watched e_clock (proc_inv echo_inv echo_responding) desk_connected"
  by (rule desk.server_started_ok [OF desk_started desk_run proc_inv_stable])

end
