(* ===== verification/Server_Properties.thy ===== *)
theory Server_Properties
  imports Server_Runs
begin

text \<open>
  The properties of the event monitor and of the whole server: what a cycle keeps, how
  descriptors that are idle are handled, how a listener is dropped, how the server is shut
  down, and that the program, over any kernel, streams and request handler within their
  contracts, never fails an assertion nor follows a dangling pointer.
\<close>

text \<open>
  C5: the server does not fail by itself. However the services were started (successfully),
  however time passes and whatever the peers do and the kernel reports, a cycle that is not
  slowed down for the whole inactivity period returns. It may end in an exception, of the
  kernel refusing a call or of the request handler; but no assertion fails, no pointer or
  iterator dangles and nothing loops, and otherwise the invariants hold again: listeners,
  deadlines and the kernel's interest list agree, each connection is fit to be called, and
  what was removed during the cycle is gone. It says to go on exactly if there was a
  listener.
\<close>

theorem server_cycle_safe:
  assumes "http_service eops watched clock calls kops incoming sent hops h_inv h_responding req_handler"
    and "start_server eops calls address k = Inr mon0"
    and "server_run eops (server_ops eops calls kops hops req_handler) watched opened clock stream_step mon0 mon"
    and "quick_cycle eops (server_ops eops calls kops hops req_handler) clock mon"
  shows "\<exists>mon' r. wait_for_and_dispatch_events eops (server_ops eops calls kops hops req_handler) mon
      = Some (mon', r)
    \<and> (case r of
         Inl e \<Rightarrow> thrown e
       | Inr again \<Rightarrow> (again \<longleftrightarrow> m_listeners mon \<noteq> []) \<and> server_ok watched clock (proc_inv h_inv h_responding) mon')"
proof -
  note sessions = http_service.service_sessions [OF assms(1)]
  have "server_ok watched clock (proc_inv h_inv h_responding) mon"
    by (rule http_sessions.server_started_ok [OF sessions assms(2,3) proc_inv_stable])
  from http_sessions.server_cycle_ok [OF sessions this assms(4)] show ?thesis
    by (elim exE conjE, intro exI conjI) (auto split: sum.splits)
qed

theorem server_cycle_safe_witness:
  "\<exists>mon' r. wait_for_and_dispatch_events script_epoll_ops desk_ops desk_services = Some (mon', r)
    \<and> (case r of
         Inl e \<Rightarrow> thrown e
       | Inr again \<Rightarrow> (again \<longleftrightarrow> m_listeners desk_services \<noteq> [])
           \<and> server_ok e_watched e_clock (proc_inv echo_inv echo_responding) mon')"
  by (rule server_cycle_safe [OF desk_service desk_started run_begin desk_quick])

text \<open>
  C18: what a connection waits for. Whenever the server is between cycles, every HTTP
  connection is watched for exactly what the state of its processor needs, reading or
  writing, its handler knows that, and the processor is fit to be called.
\<close>

theorem connection_watched_for_its_state:
  assumes "http_service eops watched clock calls kops incoming sent hops h_inv h_responding req_handler"
    and "start_server eops calls address k = Inr mon0"
    and "server_run eops (server_ops eops calls kops hops req_handler) watched opened clock stream_step mon0 mon"
    and "map_of (m_listeners mon) fd = Some l" and "m_object l = Http_connection c"
  shows "watched (m_epoll mon) fd
      = Some (listen_on_direction (select_io_direction (fst (m_state (ceh_session c)))))
    \<and> watched (m_epoll mon) fd = Some (ceh_events c)
    \<and> proc_inv h_inv h_responding (ceh_session c)"
proof -
  have "server_ok watched clock (proc_inv h_inv h_responding) mon"
    by (rule http_sessions.server_started_ok [OF http_service.service_sessions [OF assms(1)]
          assms(2,3) proc_inv_stable])
  then have "\<exists>ev. watched (m_epoll mon) fd = Some ev
      \<and> listener_ok (proc_inv h_inv h_responding) ev (m_object l)"
    using assms(4) by (intro listeners_okD) (simp_all add: server_ok_def)
  with assms(5) show ?thesis by (auto simp: listener_ok_def)
qed

theorem connection_watched_for_its_state_witness:
  "e_watched (m_epoll desk_connected) 5 = Some (listen_on_direction (select_io_direction
      (fst (m_state (request_processor_init (inet_connection_init
        \<lparr>k_reads = [], k_sends = [], k_delivered = []\<rparr> 0x7F000001 40000) echo_http_request_init)))))"
proof -
  have l: "map_of (m_listeners desk_connected) 5 = Some
      \<lparr>m_object = create_http_session echo_http_request_init (inet_connection_init
        \<lparr>k_reads = [], k_sends = [], k_delivered = []\<rparr> 0x7F000001 40000), m_timer = 2\<rparr>"
    by (simp add: desk_connected_def)
  from connection_watched_for_its_state [OF desk_service desk_started desk_run l]
  show ?thesis by (simp add: create_http_session_def)
qed

section \<open>Idle descriptors\<close>

text \<open>The listener of the first node, and the other nodes.\<close>

lemma first_listener:
  assumes "timers_match ls ((n, t, fd) # ts)"
  shows "\<exists>l. map_of ls fd = Some l \<and> m_timer l = n"
    and "(m, u, f) \<in> set ts \<Longrightarrow> map_of ((n, t, fd) # ts) m = Some (u, f) \<and> f \<noteq> fd"
proof -
  note match = timers_matchD [OF assms]
  show l: "\<exists>l. map_of ls fd = Some l \<and> m_timer l = n" using match(3) [of n t fd] by simp
  assume m: "(m, u, f) \<in> set ts"
  then have "map_of ((n, t, fd) # ts) m = Some (u, f)"
    using match(2) by (intro map_of_is_SomeI) simp_all
  moreover have "m \<noteq> n" using match(2) m by force
  moreover from calculation(1) obtain l' where "map_of ls f = Some l'" "m_timer l' = m"
    using match(3) by blast
  ultimately show "map_of ((n, t, fd) # ts) m = Some (u, f) \<and> f \<noteq> fd" using l by auto
qed

text \<open>
  C22: one idle descriptor at a time. Although it is written as a loop over all deadlines that
  have passed, the idle loop, when nothing has been removed in the cycle before it begins,
  calls at most one listener: the one that has been inactive longest, the list being ordered,
  if its deadline has passed. When that returns, its function has run, and its node has
  gone to the end of the list with a new deadline; the other nodes keep theirs, also when they
  have passed as well: those wait for further cycles.
\<close>

theorem one_idle_per_cycle:
  assumes "listener_contract eops watched clock lops l_ok"
    and "monitor_inv watched clock mon" and "listeners_ok watched l_ok mon"
    and "m_fds_to_remove mon = []" and "sys_now eops (m_epoll mon) = (k, now)"
  shows "sorted (deadlines (m_fd_activity_timestamps mon))
    \<and> (case m_fd_activity_timestamps mon of
         [] \<Rightarrow> process_idle_fds eops lops mon = Some (mon\<lparr>m_epoll := k\<rparr>, None)
       | (n, t, fd) # others \<Rightarrow>
           if now < t then process_idle_fds eops lops mon = Some (mon\<lparr>m_epoll := k\<rparr>, None)
           else \<exists>l mon1 exc. map_of (m_listeners mon) fd = Some l \<and> m_timer l = n
             \<and> call_listener eops (call_fd_is_idle lops) fd l (mon\<lparr>m_epoll := k\<rparr>) = (mon1, exc)
             \<and> process_idle_fds eops lops mon = Some (mon1, exc)
             \<and> (exc = None \<longrightarrow>
                  callback_ran clock (call_fd_is_idle lops) fd l (mon\<lparr>m_epoll := k\<rparr>) mon1
                  \<and> (\<exists>ts u. m_fd_activity_timestamps mon1 = ts @ [(n, u, fd)]
                       \<and> now + inactivity_period \<le> u \<and> set others \<subseteq> set ts)))"
proof
  show "sorted (deadlines (m_fd_activity_timestamps mon))" using assms(2) by (simp add: monitor_inv_def)
  note once = listener_contract.process_idle_once(1)
    [OF assms(1-3) removed_late_Nil [OF assms(4)] order_refl assms(5)]
  let ?mon = "mon\<lparr>m_epoll := k\<rparr>"
  note now = epoll_contract.ep_now [OF listener_contract.axioms(1) [OF assms(1)] assms(5)]
  note idle = listener_contract.idle_contract [OF assms(1)]
  have inv: "monitor_inv watched clock ?mon" using assms(2) now by (intro monitor_inv_epoll) simp_all
  have ok: "listeners_ok watched l_ok ?mon" using assms(3) now by (intro listeners_ok_epoll) simp_all
  show "case m_fd_activity_timestamps mon of
         [] \<Rightarrow> process_idle_fds eops lops mon = Some (?mon, None)
       | (n, t, fd) # others \<Rightarrow>
           if now < t then process_idle_fds eops lops mon = Some (?mon, None)
           else \<exists>l mon1 exc. map_of (m_listeners mon) fd = Some l \<and> m_timer l = n
             \<and> call_listener eops (call_fd_is_idle lops) fd l ?mon = (mon1, exc)
             \<and> process_idle_fds eops lops mon = Some (mon1, exc)
             \<and> (exc = None \<longrightarrow> callback_ran clock (call_fd_is_idle lops) fd l ?mon mon1
                  \<and> (\<exists>ts u. m_fd_activity_timestamps mon1 = ts @ [(n, u, fd)]
                       \<and> now + inactivity_period \<le> u \<and> set others \<subseteq> set ts))"
  proof (cases "m_fd_activity_timestamps mon")
    case Nil
    with once assms(4) show ?thesis by simp
  next
    case (Cons e others)
    obtain n t fd where e: "e = (n, t, fd)" by (cases e)
    have match: "timers_match (m_listeners mon) ((n, t, fd) # others)"
      using assms(2) by (simp add: monitor_inv_def Cons e)
    from first_listener(1) [OF match] obtain l where l: "map_of (m_listeners mon) fd = Some l" "m_timer l = n"
      by blast
    obtain mon1 exc where call: "call_listener eops (call_fd_is_idle lops) fd l ?mon = (mon1, exc)"
      by fastforce
    have ran: "callback_ran clock (call_fd_is_idle lops) fd l ?mon mon1
        \<and> (\<exists>ts u. m_fd_activity_timestamps mon1 = ts @ [(n, u, fd)]
             \<and> now + inactivity_period \<le> u \<and> set others \<subseteq> set ts)" if "exc = None"
    proof -
      have l': "map_of (m_listeners ?mon) fd = Some l" "fd \<notin> set (m_fds_to_remove ?mon)"
        using l assms(4) by simp_all
      note effect = listener_contract.call_listener_effect [OF assms(1) idle inv ok l' call [unfolded that]]
      from effect(2) obtain ts u where ts: "m_fd_activity_timestamps mon1 = ts @ [(n, u, fd)]"
        "now + inactivity_period \<le> u" using now by (auto simp: l)
      have "(m, v, f) \<in> set ts" if "(m, v, f) \<in> set others" for m v f
        using first_listener(2) [OF match that] effect(3) [of m v f]
        by (auto simp: Cons e ts(1) dest!: map_of_SomeD split: if_splits)
      with effect(1) ts show ?thesis by (simp add: subset_iff)
    qed
    with once assms(4) l call show ?thesis by (simp add: Cons e)
  qed
qed

text \<open>
  The desk a minute later: the deadlines of the two services and of the connection have all
  passed, and only the administration service, which comes first, is called.
\<close>

theorem one_idle_per_cycle_witness:
  "process_idle_fds script_epoll_ops desk_ops
      (desk_connected\<lparr>m_epoll := (m_epoll desk_connected)\<lparr>e_clock := 6 + 3 * inactivity_period\<rparr>\<rparr>)
   = Some (desk_connected\<lparr>m_epoll := (m_epoll desk_connected)\<lparr>e_clock := 6 + 3 * inactivity_period\<rparr>,
        m_fd_activity_timestamps := [(2, 6 + inactivity_period, 5), (0, 6 + inactivity_period, 3),
          (1, 6 + 4 * inactivity_period, 4)]\<rparr>, None)"
proof -
  let ?k = "(m_epoll desk_connected)\<lparr>e_clock := 6 + 3 * inactivity_period\<rparr>"
  let ?mon = "desk_connected\<lparr>m_epoll := ?k\<rparr>"
  have "server_ok e_watched e_clock (proc_inv echo_inv echo_responding) desk_connected"
    by (rule desk_connected_ok)
  then have ok: "server_ok e_watched e_clock (proc_inv echo_inv echo_responding) ?mon"
    by (rule server_ok_kernel) (simp_all add: desk_connected_def)
  have now: "sys_now script_epoll_ops (m_epoll ?mon) = (?k, 6 + 3 * inactivity_period)"
    by (simp add: desk_connected_def script_epoll_ops_def desk_epoll_def)
  have "\<not> 6 + 3 * inactivity_period < 3 + inactivity_period" by (simp add: inactivity_period_def)
  with one_idle_per_cycle [OF desk.server.listener_contract_axioms _ _ _ now] ok show ?thesis
    by (fastforce simp: server_ok_def desk_connected_def call_listener_def server_ops_def listener_is_idle_def
        run_then_def touch_timer_def set_object_def erase_timer_def script_epoll_ops_def desk_epoll_def Let_def)
qed

section \<open>Registering and removing\<close>

text \<open>
  C24: what a failed registration leaves behind. When the kernel refuses to watch a
  descriptor, \<open>add\<close> throws and takes the listener back, but not its node at the end of the
  list of deadlines: the list names a descriptor that has no listener, and the invariant is
  broken. Whenever later the idle loop finds that node first in the list, with its deadline
  passed and the descriptor still without a listener, it fails its assertion, whatever else the
  list holds.
\<close>

theorem failed_add_leaves_timer:
  assumes "monitor_inv watched clock mon" and "watched (m_epoll mon) fd = None"
    and "sys_now eops (m_epoll mon) = (k, now)" and "sys_epoll_add eops k fd events = (k1, Failed err)"
  shows "\<exists>mon'. monitor_add eops destroy fd l events mon
        = (mon', Some (System_error ''Failed to add event listener for file descriptor'' err))
    \<and> m_listeners mon' = m_listeners mon \<and> m_epoll mon' = destroy l fd k1
    \<and> m_fd_activity_timestamps mon'
        = m_fd_activity_timestamps mon @ [(next_node mon, now + inactivity_period, fd)]
    \<and> \<not> monitor_inv watched clock mon'
    \<and> (\<forall>lops (mon2 :: ('k, 'l) fd_event_monitor) others k2 later.
         m_fd_activity_timestamps mon2 = (next_node mon, now + inactivity_period, fd) # others
         \<and> map_of (m_listeners mon2) fd = None
         \<and> sys_now eops (m_epoll mon2) = (k2, later) \<and> now + inactivity_period \<le> later
         \<longrightarrow> process_idle_fds eops lops mon2
             = Some (mon2\<lparr>m_epoll := k2\<rparr>, Some (Assertion_failed ''item != std::end(m_listeners)'')))"
proof -
  obtain mon' exc where add: "monitor_add eops destroy fd l events mon = (mon', exc)" by fastforce
  have none: "map_of (m_listeners mon) fd = None"
    using assms(1,2) by (metis monitor_inv_def domIff)
  from monitor_add_calls [OF add none] assms(3,4)
  have left: "exc = Some (System_error ''Failed to add event listener for file descriptor'' err)"
    "m_listeners mon' = m_listeners mon" "m_epoll mon' = destroy l fd k1"
    "m_fd_activity_timestamps mon'
       = m_fd_activity_timestamps mon @ [(next_node mon, now + inactivity_period, fd)]" by auto
  have "\<not> monitor_inv watched clock mon'"
  proof
    assume "monitor_inv watched clock mon'"
    then have match: "timers_match (m_listeners mon') (m_fd_activity_timestamps mon')"
      by (simp add: monitor_inv_def)
    from timers_matchD(2) [OF match] have "map_of (m_fd_activity_timestamps mon') (next_node mon)
        = Some (now + inactivity_period, fd)"
      by (intro map_of_is_SomeI) (simp_all add: left(4))
    from timers_matchD(3) [OF match this] none show False by (simp add: left)
  qed
  with add left show ?thesis
    by (auto simp: process_idle_fds_def process_idle_from.simps [of _ _ _ "Some _"])
qed

definition full_epoll_ops :: "script_kernel script_epoll epoll_ops" where
  "full_epoll_ops = script_epoll_ops\<lparr>sys_epoll_add := \<lambda>k fd ev. (k, Failed (Other_errno 28))\<rparr>"

theorem failed_add_leaves_timer_witness:
  "\<exists>mon' k2. monitor_add full_epoll_ops (listener_destroy script_calls) 3 (Http_service desk_http) Readwrite_is_possible
       (fd_event_monitor_init desk_epoll :: (script_kernel script_epoll, script_kernel, echo_http_request) server_monitor)
       = (mon', Some (System_error ''Failed to add event listener for file descriptor'' (Other_errno 28)))
    \<and> process_idle_fds full_epoll_ops desk_ops
         (mon'\<lparr>m_epoll := desk_epoll\<lparr>e_ticks := [2 + inactivity_period]\<rparr>\<rparr>)
         = Some (mon'\<lparr>m_epoll := k2\<rparr>, Some (Assertion_failed ''item != std::end(m_listeners)''))"
proof -
  let ?mon = "fd_event_monitor_init desk_epoll :: (script_kernel script_epoll, script_kernel, echo_http_request) server_monitor"
  have inv: "monitor_inv e_watched e_clock ?mon"
    by (simp add: monitor_inv_def fd_event_monitor_init_def timers_match_def desk_epoll_def)
  have fresh: "e_watched (m_epoll ?mon) 3 = None"
    by (simp add: fd_event_monitor_init_def desk_epoll_def)
  obtain k now where now: "sys_now full_epoll_ops (m_epoll ?mon) = (k, now)" and early: "now = 1"
    by (simp add: fd_event_monitor_init_def full_epoll_ops_def desk_defs)
  have full: "sys_epoll_add full_epoll_ops k 3 Readwrite_is_possible = (k, Failed (Other_errno 28))"
    by (simp add: full_epoll_ops_def)
  have later: "sys_now full_epoll_ops (desk_epoll\<lparr>e_ticks := [2 + inactivity_period]\<rparr>)
      = (desk_epoll\<lparr>e_clock := 2 + inactivity_period, e_ticks := []\<rparr>, 2 + inactivity_period)"
    by (simp add: full_epoll_ops_def desk_defs)
  from failed_add_leaves_timer [OF inv fresh now full, of "listener_destroy script_calls" "Http_service desk_http"]
  obtain mon' where left: "monitor_add full_epoll_ops (listener_destroy script_calls) 3 (Http_service desk_http)
      Readwrite_is_possible ?mon
      = (mon', Some (System_error ''Failed to add event listener for file descriptor'' (Other_errno 28)))"
    "m_listeners mon' = m_listeners ?mon"
    "m_fd_activity_timestamps mon' = m_fd_activity_timestamps ?mon @ [(next_node ?mon, now + inactivity_period, 3)]"
    and fails: "\<And>lops (mon2 :: (script_kernel script_epoll, script_kernel, echo_http_request) server_monitor)
         others k2 later.
       m_fd_activity_timestamps mon2 = (next_node ?mon, now + inactivity_period, 3) # others \<Longrightarrow>
       map_of (m_listeners mon2) 3 = None \<Longrightarrow> sys_now full_epoll_ops (m_epoll mon2) = (k2, later) \<Longrightarrow>
       now + inactivity_period \<le> later \<Longrightarrow> process_idle_fds full_epoll_ops lops mon2
         = Some (mon2\<lparr>m_epoll := k2\<rparr>, Some (Assertion_failed ''item != std::end(m_listeners)''))"
    by blast
  let ?late = "mon'\<lparr>m_epoll := desk_epoll\<lparr>e_ticks := [2 + inactivity_period]\<rparr>\<rparr>"
  have "m_fd_activity_timestamps ?late = [(next_node ?mon, now + inactivity_period, 3)]"
    "map_of (m_listeners ?late) 3 = None"
    by (simp_all add: left) (simp_all add: fd_event_monitor_init_def)
  from fails [OF this, of _ _ desk_ops] later early left(1) show ?thesis by fastforce
qed

text \<open>
  C23: dropping listeners. At the end of a cycle exactly the listeners whose descriptors were
  removed during it are gone, or all of them when everything was to be cleared; nothing
  waits to be removed any more, the kernel watches just what is left, and the invariants
  hold. An exception means that a new epoll instance could not be made.
\<close>

theorem flush_drops_removed:
  assumes "epoll_contract eops watched clock" and "destroy_contract watched clock destroy"
    and "monitor_inv watched clock mon" and "listeners_ok watched l_ok mon"
    and "flush_fds_to_remove eops destroy mon = (mon', exc)"
  shows "case exc of
      Some e \<Rightarrow> thrown e
    | None \<Rightarrow> monitor_inv watched clock mon' \<and> listeners_ok watched l_ok mon'
        \<and> m_fds_to_remove mon' = []
        \<and> dom (watched (m_epoll mon')) = dom (map_of (m_listeners mon'))
        \<and> map_of (m_listeners mon') =
            (if m_reg_should_be_cleared mon then Map.empty
             else map_of (m_listeners mon) |` (- set (m_fds_to_remove mon)))"
  using epoll_contract.flush_fds_to_remove_ok [OF assms]
  by (auto simp: monitor_inv_def split: option.splits)

theorem flush_drops_removed_witness:
  "flush_fds_to_remove script_epoll_ops (listener_destroy script_calls) (deferred_remove 5 desk_connected)
     = (desk_services\<lparr>m_epoll := (m_epoll desk_connected)
            \<lparr>e_open := [4, 3, 2, 1, 0], e_watched := e_watched (m_epoll desk_services)\<rparr>,
          m_event_buffer_capacity := 2,
          m_fd_activity_timestamps := [(1, 3 + inactivity_period, 4), (0, 6 + inactivity_period, 3)],
          next_node := 3\<rparr>, None)
   \<and> map_of (m_listeners desk_services) = map_of (m_listeners desk_connected) |` (- {5})"
  (is "?flush = (?mon', None) \<and> _")
proof -
  have run: "server_ok e_watched e_clock (proc_inv echo_inv echo_responding) desk_connected"
    by (rule desk_connected_ok)
  then have inv: "monitor_inv e_watched e_clock (deferred_remove 5 desk_connected)"
    by (intro desk.deferred_remove_ok) (simp_all add: server_ok_def, simp add: desk_connected_def)
  have ok: "listeners_ok e_watched (listener_ok (proc_inv echo_inv echo_responding)) (deferred_remove 5 desk_connected)"
    using run by (auto simp: server_ok_def listeners_ok_def deferred_remove_def)
  have flush: "?flush = (?mon', None)"
    by (simp add: flush_fds_to_remove_def deferred_remove_def desk_connected_def desk_services_eq
        script_epoll_ops_def script_calls_def listener_destroy_def desk_epoll_def erase_timer_def
        erase_listener_def run_then_def fun_upd_def cong: if_cong) (auto simp: fun_eq_iff)
  from flush_drops_removed [OF desk.epoll_contract_axioms desk.listener_destroy_ok inv ok flush]
  have "map_of (m_listeners ?mon') = map_of (m_listeners desk_connected) |` (- {5})"
    by (simp add: deferred_remove_def) (simp add: desk_connected_def)
  with flush show ?thesis by simp
qed

text \<open>A descriptor that is to be removed twice, or has no listener, fails the assertion.\<close>

lemma remove_fds_twice:
  assumes "timers_match (m_listeners mon) (m_fd_activity_timestamps mon)"
    and "\<not> distinct fds \<or> \<not> set fds \<subseteq> dom (map_of (m_listeners mon))"
  shows "\<exists>mon'. remove_fds eops destroy fds mon = (mon', Some (Assertion_failed ''i != std::end(m_listeners)''))"
  using assms
proof (induction fds arbitrary: mon)
  case (Cons fd fds)
  show ?case
  proof (cases "map_of (m_listeners mon) fd")
    case None
    then show ?thesis by (simp add: Let_def)
  next
    case (Some l)
    let ?mon = "mon\<lparr>m_epoll := destroy (m_object l) fd (fst (sys_epoll_del eops (m_epoll mon) fd)),
      m_fd_activity_timestamps := erase_timer (m_timer l) (m_fd_activity_timestamps mon),
      m_listeners := erase_listener fd (m_listeners mon)\<rparr>"
    obtain t where "map_of (m_fd_activity_timestamps mon) (m_timer l) = Some (t, fd)"
      using timers_matchD(4) [OF Cons.prems(1) Some] by blast
    then have node: "m_timer l \<in> set (map fst (m_fd_activity_timestamps mon))"
      by (force dest: map_of_SomeD)
    have "timers_match (m_listeners ?mon) (m_fd_activity_timestamps ?mon)"
      using timers_match_erase [OF Cons.prems(1) Some] by simp
    moreover have "\<not> distinct fds \<or> \<not> set fds \<subseteq> dom (map_of (m_listeners ?mon))"
      using Cons.prems(2) Some by (auto simp: map_of_erase_listener)
    ultimately show ?thesis using Cons.IH [of ?mon] Some node by (simp add: Let_def del: set_map)
  qed
qed simp

lemma idle_removes_again:
  assumes match: "timers_match (m_listeners mon) (m_fd_activity_timestamps mon)"
    and l: "map_of (m_listeners mon) fd = Some l" and c: "m_object l = Http_connection c"
    and out: "select_io_direction (fst (m_state (ceh_session c))) = Io_output"
    and ts: "m_fd_activity_timestamps mon = (n, t, fd) # ts"
    and now: "sys_now eops (m_epoll mon) = (k, now)" "t \<le> now"
  shows "\<exists>mon1. process_idle_fds eops (server_ops eops calls kops hops req_handler) mon = Some (mon1, None)
    \<and> m_fds_to_remove mon1 = m_fds_to_remove mon @ [fd]
    \<and> m_reg_should_be_cleared mon1 = m_reg_should_be_cleared mon
    \<and> timers_match (m_listeners mon1) (m_fd_activity_timestamps mon1)"
proof -
  obtain k1 now1 where n1: "sys_now eops k = (k1, now1)" by fastforce
  from first_listener(1) [OF match [unfolded ts]] l have timer: "m_timer l = n" by simp
  let ?k = "\<lambda>mon. mon\<lparr>m_epoll := k\<rparr>"
  let ?ts1 = "erase_timer n (m_fd_activity_timestamps mon) @ [(n, now1 + inactivity_period, fd)]"
  let ?mon1 = "(deferred_remove fd (?k mon))\<lparr>
      m_listeners := set_object fd (Http_connection c) (m_listeners mon),
      m_epoll := k1, m_fd_activity_timestamps := ?ts1\<rparr>"
  have call: "call_listener eops (listener_is_idle eops kops hops) fd l (?k mon) = (?mon1, None)"
    by (simp add: call_listener_def listener_is_idle_def c http_connection_event_def socket_is_idle_def out
        finish_event_def finalize_event_def is_session_terminated_def run_then_def touch_timer_def
        deferred_remove_def ts timer n1 Let_def erase_timer_def)
  have last: "node_after n ?ts1 = None"
    by (rule node_after_last) (simp add: map_fst_erase_timer del: set_map)
  have "process_idle_fds eops (server_ops eops calls kops hops req_handler) mon = Some (?mon1, None)"
    using now(2) call last l
    by (simp add: process_idle_fds_def now(1) ts process_idle_from.simps [of _ _ _ "Some n"]
        process_idle_from_end server_ops_def)
  moreover have "map_of (m_fd_activity_timestamps mon) n = Some (t, fd)" by (simp add: ts)
  from timers_match_touch [OF match this]
  have "timers_match (m_listeners ?mon1) (m_fd_activity_timestamps ?mon1)" by simp
  ultimately show ?thesis by (auto simp: deferred_remove_def)
qed

text \<open>
  C27: why a cycle must not be slow. Suppose the listeners that were ready have taken so long
  that a connection which ended among them while it was sending, and so is to be removed, is
  the first in the list when the idle loop begins, with its deadline passed: the idle loop
  calls it although it has ended, it is put on the list of removals a second time, and
  the cycle ends with a failed assertion, because the second time there is nothing to
  drop. Others may have been removed in the same cycle.
\<close>

theorem slow_cycle_removes_twice:
  assumes "m_listeners mon0 \<noteq> []"
    and "sys_epoll_wait eops (m_epoll mon0) (length (m_listeners mon0)) = (k0, Returned events)"
    and "dispatch_events eops (server_ops eops calls kops hops req_handler) events
        ((grow_event_buffer mon0)\<lparr>m_epoll := k0\<rparr>) = (mon, None)"
    and "monitor_inv watched clock mon" and "\<not> m_reg_should_be_cleared mon"
    and "map_of (m_listeners mon) fd = Some l" and "m_object l = Http_connection c"
    and "select_io_direction (fst (m_state (ceh_session c))) = Io_output"
    and "fd \<in> set (m_fds_to_remove mon)"
    and "m_fd_activity_timestamps mon = (n, t, fd) # ts"
    and "sys_now eops (m_epoll mon) = (k, now)" and "t \<le> now"
  shows "\<exists>mon1 mon2.
      process_idle_fds eops (server_ops eops calls kops hops req_handler) mon = Some (mon1, None)
    \<and> m_fds_to_remove mon1 = m_fds_to_remove mon @ [fd]
    \<and> wait_for_and_dispatch_events eops (server_ops eops calls kops hops req_handler) mon0
        = Some (mon2, Inl (Assertion_failed ''i != std::end(m_listeners)''))"
proof -
  have match: "timers_match (m_listeners mon) (m_fd_activity_timestamps mon)"
    using assms(4) by (simp add: monitor_inv_def)
  from idle_removes_again [OF match assms(6-8,10-12)] obtain mon1 where
    i: "process_idle_fds eops (server_ops eops calls kops hops req_handler) mon = Some (mon1, None)"
      "m_fds_to_remove mon1 = m_fds_to_remove mon @ [fd]" "\<not> m_reg_should_be_cleared mon1"
      "timers_match (m_listeners mon1) (m_fd_activity_timestamps mon1)"
    using assms(5) by metis
  have "\<not> distinct (m_fds_to_remove mon1)" using i(2) assms(9) by simp
  from remove_fds_twice [OF i(4) disjI1 [OF this]] obtain mon2 where
    "remove_fds eops (call_destroy (server_ops eops calls kops hops req_handler)) (m_fds_to_remove mon1) mon1
       = (mon2, Some (Assertion_failed ''i != std::end(m_listeners)''))" by blast
  then have "flush_fds_to_remove eops (call_destroy (server_ops eops calls kops hops req_handler)) mon1
      = (mon2, Some (Assertion_failed ''i != std::end(m_listeners)''))"
    using i(3) by (simp add: flush_fds_to_remove_def run_then_def)
  with i(1,2) assms(1-3) show ?thesis by (simp add: wait_for_and_dispatch_events_def Let_def)
qed

text \<open>
  Such a cycle on the desk: a connection that is sending fails, and the clock stands forty
  seconds later when the idle loop looks at it.
\<close>

definition desk_sending :: "(script_kernel inet_connection, echo_http_request) request_processor" where
  "desk_sending = (request_processor_init (inet_connection_init
       \<lparr>k_reads = [], k_sends = [Failed (Other_errno 32)], k_delivered = []\<rparr> 0x7F000001 40000)
       echo_http_request_init)
     \<lparr>m_state := (Write_response_body 1, Io_output),
      m_send_span := \<lparr>bs_array = ''x'' @ replicate (processor_buffer_size - 1) NUL, bs_begin = 0, bs_end = 1\<rparr>\<rparr>"

definition desk_stalled ::
  "(script_kernel inet_connection, echo_http_request) request_processor \<Rightarrow> nat list \<Rightarrow> fd list list \<Rightarrow>
   fd list \<Rightarrow> (script_kernel script_epoll, script_kernel, echo_http_request) server_monitor" where
  "desk_stalled session ticks ready removed =
     \<lparr>m_epoll = desk_epoll\<lparr>e_watched := (\<lambda>_. None)(5 := Some Write_is_possible),
        e_clock := 30, e_ticks := ticks, e_ready := ready\<rparr>,
      m_event_buffer_capacity = 1,
      m_listeners = [(5, \<lparr>m_object = Http_connection \<lparr>ceh_session = session, ceh_events = Write_is_possible\<rparr>,
          m_timer = 0\<rparr>)],
      m_fds_to_remove = removed,
      m_fd_activity_timestamps = [(0, 30 + inactivity_period, 5)],
      m_reg_should_be_cleared = False, next_node = 1\<rparr>"

lemma desk_sending_fails:
  "\<exists>proc' res. socket_is_ready (inet_ops script_ops) echo_ops desk_sending = Some (Inr (proc', res))
    \<and> pr_status res = Proc_io_error \<and> fst (m_state proc') = Write_response_body 1"
proof -
  have span: "span_to_read (m_send_span desk_sending) = ''x''"
    by (simp add: desk_sending_def span_to_read_def)
  have state: "m_state desk_sending = (Write_response_body 1, Io_output)" by (simp add: desk_sending_def)
  have send: "sock_write (inet_ops script_ops) (connection (m_session desk_sending)) bytes
      = ((connection (m_session desk_sending))\<lparr>m_fd := \<lparr>k_reads = [], k_sends = [], k_delivered = []\<rparr>\<rparr>, 0, Op_error)"
    for bytes
    by (simp add: desk_sending_def request_processor_init_def inet_connection_init_def inet_ops_def
        inet_write_def script_ops_def script_send_def errno_result_def)
  have "transfer_data (read_content echo_ops) (write_connection (inet_ops script_ops))
      (ec_is_error_indicator echo_ops) is_error_indicator (m_session desk_sending, ()) (m_send_span desk_sending) 1
    = Some (Inr (((m_session desk_sending)\<lparr>connection := (connection (m_session desk_sending))
        \<lparr>m_fd := \<lparr>k_reads = [], k_sends = [], k_delivered = []\<rparr>\<rparr>\<rparr>, ()), m_send_span desk_sending, 1, Write_exit Op_error))"
    by (simp add: transfer_data.simps span write_connection_def send is_error_indicator_def
        consume_elements_def size_minus_def)
  then show ?thesis
    by (simp add: socket_is_ready.simps processor_turn_def visit_defs write_response_body_ready_def state
        map_response_body_exit_def make_write_response_def after_visit_def)
qed

theorem slow_cycle_removes_twice_witness:
  "\<exists>mon2. wait_for_and_dispatch_events script_epoll_ops desk_ops
      (desk_stalled desk_sending [0, 2 * inactivity_period] [[5]] [])
    = Some (mon2, Inl (Assertion_failed ''i != std::end(m_listeners)''))"
proof -
  let ?start = "desk_stalled desk_sending [0, 2 * inactivity_period] [[5]] []"
  let ?waited = "(m_epoll ?start)\<lparr>e_ready := []\<rparr>"
  from desk_sending_fails obtain session res where
    s: "socket_is_ready (inet_ops script_ops) echo_ops desk_sending = Some (Inr (session, res))"
      "pr_status res = Proc_io_error" "fst (m_state session) = Write_response_body 1" by blast
  let ?mon = "desk_stalled session [2 * inactivity_period] [] [5]"
  have wait: "sys_epoll_wait script_epoll_ops (m_epoll ?start) (length (m_listeners ?start)) = (?waited, Returned [5])"
    by (simp add: script_epoll_ops_def desk_stalled_def)
  have ready: "listener_is_ready script_epoll_ops script_calls script_ops echo_ops echo_http_request_init
      (Http_connection \<lparr>ceh_session = desk_sending, ceh_events = Write_is_possible\<rparr>) 5 mon
    = (Http_connection \<lparr>ceh_session = session, ceh_events = Write_is_possible\<rparr>, deferred_remove 5 mon, None)" for mon
    by (simp add: listener_is_ready_def http_connection_event_def s finish_event_def finalize_event_def
        is_session_terminated_def)
  have dispatch: "dispatch_events script_epoll_ops desk_ops [5] ((grow_event_buffer ?start)\<lparr>m_epoll := ?waited\<rparr>)
      = (?mon, None)"
    by (simp add: desk_stalled_def grow_event_buffer_def Let_def call_listener_def server_ops_def ready
        run_then_def touch_timer_def deferred_remove_def set_object_def erase_timer_def)
       (simp add: script_epoll_ops_def)
  have inv: "monitor_inv e_watched e_clock ?mon"
    by (auto simp: monitor_inv_def desk_stalled_def timers_match_def deadlines_def split: if_splits)
  have now: "sys_now script_epoll_ops (m_epoll ?mon)
      = ((m_epoll ?mon)\<lparr>e_clock := 30 + 2 * inactivity_period, e_ticks := []\<rparr>, 30 + 2 * inactivity_period)"
    by (simp add: script_epoll_ops_def desk_stalled_def)
  let ?c = "\<lparr>ceh_session = session, ceh_events = Write_is_possible\<rparr>"
  have l: "map_of (m_listeners ?mon) 5 = Some \<lparr>m_object = Http_connection ?c, m_timer = 0\<rparr>"
    and ts: "m_fd_activity_timestamps ?mon = [(0, 30 + inactivity_period, 5)]"
    and some: "m_listeners ?start \<noteq> []" and kept: "\<not> m_reg_should_be_cleared ?mon"
    and removed: "5 \<in> set (m_fds_to_remove ?mon)"
    by (simp_all add: desk_stalled_def)
  have c: "m_object \<lparr>m_object = Http_connection ?c, m_timer = 0\<rparr> = Http_connection ?c"
    and out: "select_io_direction (fst (m_state (ceh_session ?c))) = Io_output"
    and late: "30 + inactivity_period \<le> 30 + 2 * inactivity_period" using s(3) by simp_all
  from slow_cycle_removes_twice [OF some wait dispatch inv kept l c out removed ts now late]
  show ?thesis by blast
qed

section \<open>Failing to accept\<close>

text \<open>
  C26: one connection that cannot be accepted ends the server. When a service is the first
  to be reported ready and \<open>accept\<close> fails, because the peer is already gone, say, or the
  process has no descriptor left, the exception leaves the loop that processes events,
  although the listeners, and with them all connections, are still there.
\<close>

theorem failed_accept_ends_server:
  assumes "sys_epoll_wait eops (m_epoll mon) (length (m_listeners mon)) = (k, Returned (fd # events))"
    and "map_of (m_listeners mon) fd = Some l"
    and "m_object l = Http_service srv \<or> m_object l = Adm_service srv"
    and "sys_accept calls k (srv_fd srv) = (k', Failed e)"
  shows "\<exists>mon'. process_events eops (server_ops eops calls kops hops req_handler) mon
      = Some (mon', Some (System_error ''Failed to establish a connection'' e))
    \<and> map fst (m_listeners mon') = map fst (m_listeners mon)"
proof -
  let ?lops = "server_ops eops calls kops hops req_handler"
  let ?mon0 = "(grow_event_buffer mon)\<lparr>m_epoll := k\<rparr>"
  have "inet_accept calls srv k = (k', Inl (System_error ''Failed to establish a connection'' e))"
    by (simp add: inet_accept_def checked_def assms(4))
  then have accept: "accept_connection eops calls srv create ?mon0
      = (?mon0\<lparr>m_epoll := k'\<rparr>, Some (System_error ''Failed to establish a connection'' e))" for create
    by (simp add: accept_connection_def)
  let ?mon' = "?mon0\<lparr>m_epoll := k', m_listeners := set_object fd (m_object l) (m_listeners mon)\<rparr>"
  have "dispatch_events eops ?lops (fd # events) ?mon0
      = (?mon', Some (System_error ''Failed to establish a connection'' e))"
    using assms(2,3) accept
    by (auto simp: run_then_def call_listener_def server_ops_def listener_is_ready_def)
  moreover have "m_listeners mon \<noteq> []" using assms(2) by auto
  ultimately have "process_events eops ?lops mon
      = Some (?mon', Some (System_error ''Failed to establish a connection'' e))"
    using assms(1) by (simp add: process_events.simps [of _ _ mon] wait_for_and_dispatch_events_def Let_def
        del: dispatch_events.simps)
  moreover have "map fst (m_listeners ?mon') = map fst (m_listeners mon)" by simp
  ultimately show ?thesis by blast
qed

theorem failed_accept_ends_server_witness:
  "\<exists>mon'. process_events script_epoll_ops desk_ops (desk_services_with [])
      = Some (mon', Some (System_error ''Failed to establish a connection'' EAGAIN))
    \<and> map fst (m_listeners mon') = [3, 4]"
proof -
  let ?mon = "desk_services_with [] :: (script_kernel script_epoll, script_kernel, echo_http_request) server_monitor"
  have wait: "sys_epoll_wait script_epoll_ops (m_epoll ?mon) (length (m_listeners ?mon))
      = ((m_epoll ?mon)\<lparr>e_ready := []\<rparr>, Returned [3])"
    by (simp add: desk_services_with_def desk_epoll_with_def script_epoll_ops_def)
  have l: "map_of (m_listeners ?mon) 3 = Some \<lparr>m_object = Http_service desk_http, m_timer = 0\<rparr>"
    by (simp add: desk_services_with_def)
  have accept: "sys_accept script_calls ((m_epoll ?mon)\<lparr>e_ready := []\<rparr>) (srv_fd desk_http)
      = ((m_epoll ?mon)\<lparr>e_ready := []\<rparr>, Failed EAGAIN)"
    by (simp add: desk_services_with_def desk_epoll_with_def script_calls_def)
  have "map fst (m_listeners ?mon) = [3, 4]" by (simp add: desk_services_with_def)
  with failed_accept_ends_server [OF wait l _ accept] show ?thesis by simp
qed

section \<open>Shutting down\<close>

context http_sessions
begin

text \<open>The administration session that reads the word, called for its connection.\<close>

lemma shutdown_event:
  assumes ok: "listeners_ok watched (listener_ok p_ok) mon"
    and l: "map_of (m_listeners mon) fd = Some l" and here: "fd \<notin> set (m_fds_to_remove mon)"
    and c: "m_object l = Adm_connection c"
    and read: "inet_read kops (ceh_session c) 65536 = (conn, ''shutdown'', ec)"
    and call: "call_listener eops (listener_is_ready eops calls kops hops req_handler) fd l mon = (mon', exc)"
  shows "m_reg_should_be_cleared mon'"
proof -
  have "ceh_events c = Read_is_possible"
    using listeners_okD [OF ok l here] by (auto simp: c listener_ok_def)
  with call have "touch_timer eops (m_timer l) ((deferred_clear mon)\<lparr>m_listeners :=
      set_object fd (Adm_connection (c\<lparr>ceh_session := conn, ceh_events := Read_is_possible\<rparr>))
        (m_listeners mon)\<rparr>) = (mon', exc)"
    by (simp add: call_listener_def listener_is_ready_def c adm_socket_is_ready_def read
        adm_connection_event_def finish_event_def finalize_event_def run_then_def deferred_clear_def)
  then show ?thesis
    by (auto simp: touch_timer_def deferred_clear_def Let_def split: prod.splits option.splits)
qed

lemma dispatch_shutdown:
  assumes "dispatch_events eops (server_ops eops calls kops hops req_handler) events mon = (mon', None)"
    and "monitor_inv watched clock mon" and "listeners_ok watched (listener_ok p_ok) mon"
    and "removed_late c0 mon" and "c0 \<le> clock (m_epoll mon)"
    and "distinct events" and "set events \<subseteq> dom (map_of (m_listeners mon))"
    and "set events \<inter> set (m_fds_to_remove mon) = {}"
    and "fd \<in> set events" and "map_of (m_listeners mon) fd = Some l"
    and "m_object l = Adm_connection c"
    and "inet_read kops (ceh_session c) 65536 = (conn, ''shutdown'', ec)"
  shows "m_reg_should_be_cleared mon'"
  using assms
proof (induction events arbitrary: mon)
  case (Cons f events)
  let ?ready = "listener_is_ready eops calls kops hops req_handler"
  obtain l1 where l1: "map_of (m_listeners mon) f = Some l1" using Cons.prems(7) by auto
  obtain mon1 exc1 where call: "call_listener eops ?ready f l1 mon = (mon1, exc1)" by fastforce
  have fresh: "f \<notin> set (m_fds_to_remove mon)" using Cons.prems(8) by auto
  have rest: "exc1 = None"
    "dispatch_events eops (server_ops eops calls kops hops req_handler) events mon1 = (mon', None)"
    using Cons.prems(1) l1 call
    by (simp_all add: run_then_def server_ops_def split: option.splits)
  note one = server.call_listener_ok [OF listener_is_ready_ok Cons.prems(2,3) l1 fresh Cons.prems(4,5) call]
  then have inv1: "monitor_inv watched clock mon1"
    and ok1: "listeners_ok watched (listener_ok p_ok) mon1"
    and late1: "removed_late c0 mon1" and c1: "c0 \<le> clock (m_epoll mon1)"
    and d1: "set events \<subseteq> dom (map_of (m_listeners mon1))"
    and r1: "set events \<inter> set (m_fds_to_remove mon1) = {}"
    using rest(1) Cons.prems(5-8) by (simp_all, blast+)
  show ?case
  proof (cases "f = fd")
    case True
    with l1 Cons.prems(10) have "l1 = l" by simp
    from shutdown_event [OF Cons.prems(3,10) _ Cons.prems(11,12)] call fresh True this
    have "m_reg_should_be_cleared mon1" by blast
    moreover have "m_reg_should_be_cleared mon1 \<le> m_reg_should_be_cleared mon'"
      using server.dispatch_events_ok [OF rest(2) inv1 ok1 late1 c1 _ d1 r1] Cons.prems(6) by simp
    ultimately show ?thesis by simp
  next
    case False
    then have "map_of (m_listeners mon1) fd = Some l"
      using one rest(1) Cons.prems(10) by simp
    moreover have "fd \<in> set events" "distinct events" using False Cons.prems(6,9) by auto
    ultimately show ?thesis
      using Cons.IH [OF rest(2) inv1 ok1 late1 c1 _ d1 r1] Cons.prems(11,12) by blast
  qed
qed simp

lemma shutdown_cleared:
  assumes ok: "server_ok watched clock p_ok mon"
    and wait: "sys_epoll_wait eops (m_epoll mon) (length (m_listeners mon)) = (k, Returned events)"
    and fd: "fd \<in> set events" "map_of (m_listeners mon) fd = Some l"
    and c: "m_object l = Adm_connection c"
      "inet_read kops (ceh_session c) 65536 = (conn, ''shutdown'', ec)"
    and d: "snd (dispatch_events eops (server_ops eops calls kops hops req_handler) events
      ((grow_event_buffer mon)\<lparr>m_epoll := k\<rparr>)) = None"
  shows "cleared_by_events eops (server_ops eops calls kops hops req_handler) mon"
proof -
  let ?mon0 = "(grow_event_buffer mon)\<lparr>m_epoll := k\<rparr>"
  note wt = ep_wait [OF wait]
  obtain mon1 where d': "dispatch_events eops (server_ops eops calls kops hops req_handler) events ?mon0 = (mon1, None)"
    using d by (metis prod.collapse)
  have inv0: "monitor_inv watched clock ?mon0"
    using ok wt by (auto simp: server_ok_def monitor_inv_def intro: order_trans)
  have ok0: "listeners_ok watched (listener_ok p_ok) ?mon0"
    using ok wt by (simp add: server_ok_def listeners_ok_def)
  have ev: "set events \<subseteq> dom (map_of (m_listeners ?mon0))"
  proof
    fix f assume "f \<in> set events"
    then have "f \<in> dom (watched (m_epoll mon))" using wt by auto
    with ok show "f \<in> dom (map_of (m_listeners ?mon0))" by (simp add: server_ok_def monitor_inv_def)
  qed
  have late: "removed_late (clock (m_epoll mon)) ?mon0"
    using ok by (simp add: server_ok_def)
  have "m_reg_should_be_cleared mon1"
    by (rule dispatch_shutdown [OF d' inv0 ok0 late _ _ ev _ fd(1) _ c])
       (use wt ok fd(2) in \<open>simp_all add: server_ok_def\<close>)
  with d' show ?thesis by (simp add: cleared_by_events_def wait)
qed

end

text \<open>
  C19: shutting down. When, in a cycle, a client of the administration service has sent
  exactly the word shutdown, and none of the calls of that cycle throws, processing events
  ends: all listeners, and with them all sessions and the server sockets, are dropped, and
  the loop returns. Otherwise the exception ends it.
\<close>

theorem shutdown_ends_server:
  assumes "http_service eops watched clock calls kops incoming sent hops h_inv h_responding req_handler"
    and "server_ok watched clock (proc_inv h_inv h_responding) mon"
    and "quick_cycle eops (server_ops eops calls kops hops req_handler) clock mon"
    and "sys_epoll_wait eops (m_epoll mon) (length (m_listeners mon)) = (k, Returned events)"
    and "fd \<in> set events" and "map_of (m_listeners mon) fd = Some l"
    and "m_object l = Adm_connection c"
    and "inet_read kops (ceh_session c) 65536 = (conn, ''shutdown'', ec)"
  shows "\<exists>mon' exc. process_events eops (server_ops eops calls kops hops req_handler) mon = Some (mon', exc)
    \<and> (case exc of None \<Rightarrow> m_listeners mon' = [] | Some e \<Rightarrow> thrown e)"
proof -
  let ?lops = "server_ops eops calls kops hops req_handler"
  from http_sessions.server_cycle_ok [OF http_service.service_sessions [OF assms(1)] assms(2,3)] obtain mon' r where
    w: "wait_for_and_dispatch_events eops ?lops mon = Some (mon', r)"
    and post: "case r of Inl e \<Rightarrow> thrown e
      | Inr again \<Rightarrow> (again \<longleftrightarrow> m_listeners mon \<noteq> []) \<and> server_ok watched clock (proc_inv h_inv h_responding) mon'
          \<and> (cleared_by_events eops ?lops mon \<longrightarrow> m_listeners mon' = [])" by blast
  have some: "m_listeners mon \<noteq> []" using assms(6) by auto
  show ?thesis
  proof (cases r)
    case (Inl e)
    with w post show ?thesis by (simp add: process_events.simps [of _ _ mon])
  next
    case (Inr again)
    have "snd (dispatch_events eops ?lops events ((grow_event_buffer mon)\<lparr>m_epoll := k\<rparr>)) = None"
      using w some Inr
      by (auto simp: wait_for_and_dispatch_events_def assms(4) Let_def split: prod.splits option.splits)
    from http_sessions.shutdown_cleared [OF http_service.service_sessions [OF assms(1)] assms(2,4-8) this] post Inr some
    have "again" "m_listeners mon' = []" by simp_all
    moreover from this have "wait_for_and_dispatch_events eops ?lops mon' = Some (mon', Inr False)"
      by (simp add: wait_for_and_dispatch_events_def)
    ultimately show ?thesis
      using w Inr by (simp add: process_events.simps [of _ _ mon] process_events.simps [of _ _ mon'])
  qed
qed

text \<open>A client of the administration service on the desk, whose message has arrived.\<close>

definition desk_client :: "script_kernel inet_connection" where
  "desk_client = inet_connection_init
     \<lparr>k_reads = [Returned ''shutdown''], k_sends = [], k_delivered = []\<rparr> 0x7F000001 40001"

definition desk_admin :: "(script_kernel script_epoll, script_kernel, echo_http_request) server_monitor" where
  "desk_admin = fst (monitor_add script_epoll_ops (listener_destroy script_calls) 5 (create_adm_session desk_client) Read_is_possible
     (desk_services\<lparr>m_epoll := (m_epoll desk_services)\<lparr>e_ready := [[5]]\<rparr>\<rparr>))"

lemma desk_admin_added:
  "monitor_add script_epoll_ops (listener_destroy script_calls) 5 (create_adm_session desk_client) Read_is_possible
     (desk_services\<lparr>m_epoll := (m_epoll desk_services)\<lparr>e_ready := [[5]]\<rparr>\<rparr>) = (desk_admin, None)"
  by (simp add: desk_admin_def monitor_add_def desk_services_eq desk_defs Let_def)

lemma desk_admin_ok: "server_ok e_watched e_clock (proc_inv echo_inv echo_responding) desk_admin"
proof -
  let ?mon = "desk_services\<lparr>m_epoll := (m_epoll desk_services)\<lparr>e_ready := [[5]]\<rparr>\<rparr>"
  have ok: "server_ok e_watched e_clock (proc_inv echo_inv echo_responding) ?mon"
    by (rule server_ok_kernel [OF desk_services_ok]) simp_all
  then have inv: "monitor_inv e_watched e_clock ?mon" by (simp add: server_ok_def)
  have fresh: "e_watched (m_epoll ?mon) 5 = None" by (simp add: desk_services_eq)
  from desk.monitor_add_ok [OF inv fresh desk.listener_destroy_ok desk_admin_added] obtain n where
    m: "monitor_inv e_watched e_clock desk_admin" "m_fds_to_remove desk_admin = m_fds_to_remove ?mon"
    "m_listeners desk_admin
       = m_listeners ?mon @ [(5, \<lparr>m_object = create_adm_session desk_client, m_timer = n\<rparr>)]"
    "e_watched (m_epoll desk_admin) = (e_watched (m_epoll ?mon))(5 := Some Read_is_possible)" by auto
  have "map_of (m_listeners ?mon) 5 = None" by (simp add: desk_services_eq)
  with m ok show ?thesis
    by (auto simp: server_ok_def listeners_ok_def map_add_def create_adm_session_def
        listener_ok_def [of _ _ "Adm_connection _"] split: option.splits if_splits)
qed

lemma desk_admin_eq:
  "m_listeners desk_admin = [(3, \<lparr>m_object = Http_service desk_http, m_timer = 0\<rparr>),
     (4, \<lparr>m_object = Adm_service desk_adm, m_timer = 1\<rparr>),
     (5, \<lparr>m_object = Adm_connection \<lparr>ceh_session = desk_client, ceh_events = Read_is_possible\<rparr>,
          m_timer = 2\<rparr>)]"
  "e_ready (m_epoll desk_admin) = [[5]]"
  "e_watched (m_epoll desk_admin) 5 = Some Read_is_possible"
  "e_clock (m_epoll desk_admin) = 6" "e_ticks (m_epoll desk_admin) = []"
  "map_of (m_fd_activity_timestamps desk_admin) 2 = Some (6 + inactivity_period, 5)"
  by (simp_all add: desk_admin_def monitor_add_def desk_services_eq desk_defs Let_def create_adm_session_def)

lemma desk_admin_wait:
  "sys_epoll_wait script_epoll_ops (m_epoll desk_admin) (length (m_listeners desk_admin))
     = ((m_epoll desk_admin)\<lparr>e_ready := []\<rparr>, Returned [5])"
  by (simp add: script_epoll_ops_def desk_admin_eq)

lemma desk_client_read:
  "inet_read script_ops desk_client 65536 = (desk_client\<lparr>m_fd := (m_fd desk_client)\<lparr>k_reads := []\<rparr>\<rparr>,
     ''shutdown'', Op_completed)"
  by (simp add: inet_read_def desk_client_def inet_connection_init_def script_ops_def script_read_def)

lemma desk_admin_quick: "quick_cycle script_epoll_ops desk_ops e_clock desk_admin"
proof -
  have now: "sys_now script_epoll_ops k = (k, e_clock k)" if "e_ticks k = []" for k
    using that by (simp add: script_epoll_ops_def)
  show ?thesis
    by (simp add: quick_cycle_def desk_admin_wait [unfolded desk_admin_eq(1), simplified] desk_admin_eq
        call_listener_def server_ops_def
        listener_is_ready_def adm_socket_is_ready_def desk_client_read adm_connection_event_def
        finish_event_def finalize_event_def run_then_def touch_timer_def now deferred_clear_def Let_def
        inactivity_period_def)
qed

theorem shutdown_ends_server_witness:
  "\<exists>mon' exc. process_events script_epoll_ops desk_ops desk_admin = Some (mon', exc)
    \<and> (case exc of None \<Rightarrow> m_listeners mon' = [] | Some e \<Rightarrow> thrown e)"
proof -
  let ?l = "\<lparr>m_object = Adm_connection \<lparr>ceh_session = desk_client, ceh_events = Read_is_possible\<rparr>,
     m_timer = 2\<rparr>"
  have l: "map_of (m_listeners desk_admin) 5 = Some ?l" by (simp add: desk_admin_eq)
  have read: "inet_read script_ops (ceh_session \<lparr>ceh_session = desk_client, ceh_events = Read_is_possible\<rparr>) 65536
      = (desk_client\<lparr>m_fd := (m_fd desk_client)\<lparr>k_reads := []\<rparr>\<rparr>, ''shutdown'', Op_completed)"
    by (simp add: desk_client_read)
  show ?thesis
    by (rule shutdown_ends_server [OF desk_service desk_admin_ok desk_admin_quick desk_admin_wait _ l _ read])
       simp_all
qed

end
