(* ===== verification/Server_End.thy ===== *)
theory Server_End
  imports Server_Runs
begin

text \<open>
  What ends the server. The sockets of the services are never taken off the registry one by
  one, for only connections ask to be removed; all of it is cleared only for a client of the
  administration service who has sent the word for it. So without that word the services
  stay, and the loop over cycles goes on unless an exception ends it.
\<close>

definition is_service :: "('c, 'h) listener_object \<Rightarrow> bool" where
  "is_service l = (case l of
     Http_service _ \<Rightarrow> True | Adm_service _ \<Rightarrow> True | Http_connection _ \<Rightarrow> False | Adm_connection _ \<Rightarrow> False)"

text \<open>The session of this listener would read the word shutdown now.\<close>

definition told_to_shut_down :: "'c kernel_ops \<Rightarrow> ('c, 'h) listener_object \<Rightarrow> bool" where
  "told_to_shut_down kops l \<longleftrightarrow> (\<exists>c conn ec. l = Adm_connection c
     \<and> inet_read kops (ceh_session c) 65536 = (conn, ''shutdown'', ec))"

text \<open>This object is registered under the descriptor, and to stay.\<close>

definition serves :: "fd \<Rightarrow> 'l \<Rightarrow> ('k, 'l) fd_event_monitor \<Rightarrow> bool" where
  "serves fd obj mon \<longleftrightarrow>
     map_option m_object (map_of (m_listeners mon) fd) = Some obj \<and> fd \<notin> set (m_fds_to_remove mon)"

section \<open>What a call changes\<close>

text \<open>
  A call only adds listeners, and removes no listener but the one that is called, which
  must be a connection.
\<close>

definition call_adds :: "fd \<Rightarrow> ('k, 'l) fd_event_monitor \<Rightarrow> ('k, 'l) fd_event_monitor \<Rightarrow> bool" where
  "call_adds fd mon mon' \<longleftrightarrow> (\<exists>new. m_listeners mon' = m_listeners mon @ new)
     \<and> set (m_fds_to_remove mon') \<subseteq> insert fd (set (m_fds_to_remove mon))"

lemma call_adds_refl [simp]: "call_adds fd mon mon"
  by (auto simp: call_adds_def)

lemma monitor_add_frame:
  assumes "monitor_add eops destroy fd l events mon = (mon', None)"
  shows "\<exists>n. m_listeners mon' = m_listeners mon @ [(fd, \<lparr>m_object = l, m_timer = n\<rparr>)]"
    "m_fds_to_remove mon' = m_fds_to_remove mon"
    "m_reg_should_be_cleared mon' = m_reg_should_be_cleared mon"
  using assms by (auto simp: monitor_add_def Let_def split: prod.splits sys_result.splits if_splits)

lemma accept_connection_frame:
  assumes "accept_connection eops calls srv create mon = (mon', None)"
  shows "\<exists>new. m_listeners mon' = m_listeners mon @ new" "m_fds_to_remove mon' = m_fds_to_remove mon"
    "m_reg_should_be_cleared mon' = m_reg_should_be_cleared mon"
  using assms
  by (fastforce simp: accept_connection_def dest: monitor_add_frame split: prod.splits sum.splits)+

lemma finish_event_frame:
  assumes "finish_event inject eops terminated new_events fd c mon = (obj, mon', exc)"
  shows "m_reg_should_be_cleared mon' = m_reg_should_be_cleared mon \<and> call_adds fd mon mon'"
  using assms
  by (auto simp: finish_event_def finalize_event_def monitor_modify_def deferred_remove_def call_adds_def
      split: prod.splits if_splits sys_result.splits option.splits)

lemma http_connection_event_frame:
  "http_connection_event eops r c fd mon = (obj, mon', exc) \<Longrightarrow>
   m_reg_should_be_cleared mon' = m_reg_should_be_cleared mon \<and> call_adds fd mon mon'"
  by (auto simp: http_connection_event_def dest: finish_event_frame split: option.splits sum.splits)

lemma ready_frame:
  assumes call: "listener_is_ready eops calls kops hops req_handler l fd mon = (obj, mon', None)"
  shows "call_adds fd mon mon'"
    and "is_service l \<Longrightarrow> obj = l \<and> m_fds_to_remove mon' = m_fds_to_remove mon"
    and "m_reg_should_be_cleared mon' \<Longrightarrow> m_reg_should_be_cleared mon \<or> told_to_shut_down kops l"
proof -
  have "call_adds fd mon mon'
    \<and> (is_service l \<longrightarrow> obj = l \<and> m_fds_to_remove mon' = m_fds_to_remove mon)
    \<and> (m_reg_should_be_cleared mon' \<longrightarrow> m_reg_should_be_cleared mon \<or> told_to_shut_down kops l)"
  proof (cases l)
    case (Adm_connection c)
    obtain conn st mon1 where a: "adm_socket_is_ready kops (ceh_session c) mon = (conn, st, mon1)"
      by (metis prod_cases3)
    then have "m_listeners mon1 = m_listeners mon" "m_fds_to_remove mon1 = m_fds_to_remove mon"
      "mon1 = mon \<or> told_to_shut_down kops l"
      by (auto simp: Adm_connection told_to_shut_down_def adm_socket_is_ready_def deferred_clear_def
          split: prod.splits if_splits)
    moreover have "m_reg_should_be_cleared mon' = m_reg_should_be_cleared mon1 \<and> call_adds fd mon1 mon'"
      using call a finish_event_frame
      by (fastforce simp: listener_is_ready_def Adm_connection adm_connection_event_def)
    ultimately show ?thesis by (auto simp: call_adds_def is_service_def Adm_connection)
  next
    case (Http_connection c)
    with call http_connection_event_frame show ?thesis
      by (fastforce simp: listener_is_ready_def is_service_def)
  qed (use call accept_connection_frame in
      \<open>fastforce simp: listener_is_ready_def is_service_def call_adds_def\<close>)+
  then show "call_adds fd mon mon'"
    and "is_service l \<Longrightarrow> obj = l \<and> m_fds_to_remove mon' = m_fds_to_remove mon"
    and "m_reg_should_be_cleared mon' \<Longrightarrow> m_reg_should_be_cleared mon \<or> told_to_shut_down kops l"
    by blast+
qed

lemma idle_frame:
  assumes "listener_is_idle eops kops hops l fd mon = (obj, mon', None)"
  shows "call_adds fd mon mon'"
    and "is_service l \<Longrightarrow> obj = l \<and> m_fds_to_remove mon' = m_fds_to_remove mon"
    and "m_reg_should_be_cleared mon' = m_reg_should_be_cleared mon"
  using assms
  by (auto simp: listener_is_idle_def adm_connection_event_def is_service_def
      dest!: finish_event_frame http_connection_event_frame split: listener_object.splits)

lemma touch_timer_frame:
  assumes "touch_timer eops n mon = (mon', exc)"
  shows "m_listeners mon' = m_listeners mon" "m_fds_to_remove mon' = m_fds_to_remove mon"
    "m_reg_should_be_cleared mon' = m_reg_should_be_cleared mon"
  using assms by (auto simp: touch_timer_def Let_def split: prod.splits option.splits)

lemma call_listener_frame:
  assumes "call_listener eops callback fd l mon = (mon', None)"
  shows "\<exists>obj mon1. callback (m_object l) fd mon = (obj, mon1, None)
    \<and> m_listeners mon' = set_object fd obj (m_listeners mon1)
    \<and> m_fds_to_remove mon' = m_fds_to_remove mon1
    \<and> m_reg_should_be_cleared mon' = m_reg_should_be_cleared mon1"
proof -
  obtain obj mon1 exc where c: "callback (m_object l) fd mon = (obj, mon1, exc)"
    by (cases "callback (m_object l) fd mon")
  with assms have "exc = None" by (cases exc) (simp_all add: call_listener_def run_then_def)
  with assms c have "touch_timer eops (m_timer l) (mon1\<lparr>m_listeners := set_object fd obj (m_listeners mon1)\<rparr>)
      = (mon', None)" by (simp add: call_listener_def run_then_def)
  from touch_timer_frame [OF this] c \<open>exc = None\<close> show ?thesis by simp
qed

text \<open>A listener function that, called, takes nothing off the registry but a connection.\<close>

definition keeps_services ::
  "(('c, 'h) listener_object \<Rightarrow> fd \<Rightarrow> ('k, 'c, 'h) server_monitor \<Rightarrow>
    ('c, 'h) listener_object \<times> ('k, ('c, 'h) listener_object) monitor_run) \<Rightarrow> bool" where
  "keeps_services callback \<longleftrightarrow>
     (\<forall>l fd mon obj mon'. callback l fd mon = (obj, mon', None) \<longrightarrow>
        call_adds fd mon mon'
        \<and> (is_service l \<longrightarrow> obj = l \<and> m_fds_to_remove mon' = m_fds_to_remove mon))"

lemma ready_keeps_services: "keeps_services (listener_is_ready eops calls kops hops req_handler)"
  unfolding keeps_services_def by (meson ready_frame(1) ready_frame(2))

lemma idle_keeps_services: "keeps_services (listener_is_idle eops kops hops)"
  unfolding keeps_services_def by (meson idle_frame(1) idle_frame(2))

lemma call_keeps:
  assumes "keeps_services callback" and l: "map_of (m_listeners mon) fd = Some l"
    and call: "call_listener eops callback fd l mon = (mon', None)"
  shows "serves sfd obj mon \<Longrightarrow> is_service obj \<Longrightarrow> serves sfd obj mon'"
    and "f \<noteq> fd \<Longrightarrow> map_of (m_listeners mon) f = Some l' \<Longrightarrow> map_of (m_listeners mon') f = Some l'"
    and "dom (map_of (m_listeners mon)) \<subseteq> dom (map_of (m_listeners mon'))"
proof -
  obtain o1 mon1 where run: "callback (m_object l) fd mon = (o1, mon1, None)"
    and mon': "m_listeners mon' = set_object fd o1 (m_listeners mon1)" "m_fds_to_remove mon' = m_fds_to_remove mon1"
    using call_listener_frame [OF call] by blast
  have adds: "call_adds fd mon mon1"
    and same: "is_service (m_object l) \<Longrightarrow> o1 = m_object l \<and> m_fds_to_remove mon1 = m_fds_to_remove mon"
    using assms(1) run unfolding keeps_services_def by blast+
  from adds obtain new where new: "m_listeners mon1 = m_listeners mon @ new"
    and gone: "set (m_fds_to_remove mon1) \<subseteq> insert fd (set (m_fds_to_remove mon))"
    by (auto simp: call_adds_def)
  show "f \<noteq> fd \<Longrightarrow> map_of (m_listeners mon) f = Some l' \<Longrightarrow> map_of (m_listeners mon') f = Some l'"
    by (simp add: mon' new map_of_set_object map_add_def split: option.split)
  show "dom (map_of (m_listeners mon)) \<subseteq> dom (map_of (m_listeners mon'))"
    by (auto simp: mon' new map_of_set_object map_add_def split: option.splits)
  show "serves sfd obj mon'" if web: "serves sfd obj mon" "is_service obj"
  proof -
    from web obtain ls where ls: "map_of (m_listeners mon) sfd = Some ls" "m_object ls = obj"
      "sfd \<notin> set (m_fds_to_remove mon)" by (auto simp: serves_def)
    then have ls1: "map_of (m_listeners mon1) sfd = Some ls"
      by (simp add: new map_add_def split: option.split)
    show ?thesis
    proof (cases "sfd = fd")
      case True
      with l ls web same have "o1 = obj" "m_fds_to_remove mon1 = m_fds_to_remove mon" by simp_all
      with ls1 ls(3) show ?thesis by (simp add: serves_def mon' map_of_set_object True)
    next
      case False
      then have "map_of (m_listeners mon') sfd = Some ls" by (simp add: mon' map_of_set_object ls1)
      moreover have "sfd \<notin> set (m_fds_to_remove mon')" using False gone ls(3) by (auto simp: mon')
      ultimately show ?thesis by (simp add: serves_def ls)
    qed
  qed
qed

section \<open>What a cycle changes\<close>

lemma dispatch_frame:
  assumes "dispatch_events eops (server_ops eops calls kops hops req_handler) events mon = (mon', None)"
    and "distinct events" and "set events \<subseteq> dom (map_of (m_listeners mon))"
  shows "(\<forall>sfd obj. serves sfd obj mon \<and> is_service obj \<longrightarrow> serves sfd obj mon')
    \<and> (m_reg_should_be_cleared mon' \<longrightarrow> m_reg_should_be_cleared mon
        \<or> (\<exists>fd \<in> set events. \<exists>l. map_of (m_listeners mon) fd = Some l \<and> told_to_shut_down kops (m_object l)))"
  using assms
proof (induction events arbitrary: mon)
  case (Cons f events)
  let ?ready = "listener_is_ready eops calls kops hops req_handler"
  obtain l1 where l1: "map_of (m_listeners mon) f = Some l1" using Cons.prems(3) by auto
  obtain mon1 exc1 where run: "call_listener eops ?ready f l1 mon = (mon1, exc1)" by fastforce
  have exc1: "exc1 = None" and rest:
    "dispatch_events eops (server_ops eops calls kops hops req_handler) events mon1 = (mon', None)"
    using Cons.prems(1) l1 run
    by (simp_all add: run_then_def server_ops_def split: option.splits)
  note call = run [unfolded exc1]
  note one = call_keeps [OF ready_keeps_services l1 call]
  have here: "set events \<subseteq> dom (map_of (m_listeners mon1))"
    using one(3) Cons.prems(3) by (meson order_trans set_subset_Cons)
  have more: "(\<forall>sfd obj. serves sfd obj mon1 \<and> is_service obj \<longrightarrow> serves sfd obj mon')
    \<and> (m_reg_should_be_cleared mon' \<longrightarrow> m_reg_should_be_cleared mon1
        \<or> (\<exists>fd \<in> set events. \<exists>l. map_of (m_listeners mon1) fd = Some l \<and> told_to_shut_down kops (m_object l)))"
    using Cons.IH [OF rest _ here] Cons.prems(2) by simp
  have first: "m_reg_should_be_cleared mon1 \<Longrightarrow> m_reg_should_be_cleared mon \<or> told_to_shut_down kops (m_object l1)"
    using call_listener_frame [OF call] ready_frame(3) by metis
  have told: "map_of (m_listeners mon) fd = Some l"
    if "fd \<in> set events" "map_of (m_listeners mon1) fd = Some l" for fd l
  proof -
    have "fd \<in> dom (map_of (m_listeners mon))" using Cons.prems(3) that(1) by auto
    then obtain l' where "map_of (m_listeners mon) fd = Some l'" by blast
    moreover have "fd \<noteq> f" using Cons.prems(2) that(1) by auto
    ultimately show ?thesis using one(2) that(2) by force
  qed
  show ?case
  proof (intro conjI impI allI)
    show "serves sfd obj mon'" if "serves sfd obj mon \<and> is_service obj" for sfd obj
      using that one(1) more by blast
    assume "m_reg_should_be_cleared mon'"
    with more first told l1 show "m_reg_should_be_cleared mon \<or> (\<exists>fd \<in> set (f # events). \<exists>l.
        map_of (m_listeners mon) fd = Some l \<and> told_to_shut_down kops (m_object l))"
      by (metis list.set_intros)
  qed
qed simp

lemma process_idle_keeps:
  assumes call: "\<And>fd l mon mon'. map_of (m_listeners mon) fd = Some l \<Longrightarrow>
      call_listener eops (call_fd_is_idle lops) fd l mon = (mon', None) \<Longrightarrow> P mon \<Longrightarrow> P mon'"
    and run: "process_idle_from eops lops now i mon = Some (mon', None)" and "P mon"
  shows "P mon'"
proof -
  let ?r = "(mon', None :: fault option)"
  have "eops = eops \<and> lops = lops \<longrightarrow> P mon \<longrightarrow> snd ?r = None \<longrightarrow> P (fst ?r)"
  proof (rule process_idle_from.raw_induct [OF _ run, where
        P = "\<lambda>e ops now i m r. e = eops \<and> ops = lops \<longrightarrow> P m \<longrightarrow> snd r = None \<longrightarrow> P (fst r)"])
  qed (auto dest: call split: option.splits prod.splits if_splits)
  with assms(3) show ?thesis by simp
qed

lemma idle_service_frame:
  assumes "process_idle_fds eops (server_ops eops calls kops hops req_handler) mon = Some (mon', None)"
  shows "serves sfd obj mon \<Longrightarrow> is_service obj \<Longrightarrow> serves sfd obj mon'"
    and "m_reg_should_be_cleared mon' = m_reg_should_be_cleared mon"
proof -
  let ?lops = "server_ops eops calls kops hops req_handler"
  obtain k now where now: "sys_now eops (m_epoll mon) = (k, now)" by fastforce
  then obtain i where run: "process_idle_from eops ?lops now i (mon\<lparr>m_epoll := k\<rparr>) = Some (mon', None)"
    using assms by (auto simp: process_idle_fds_def)
  have idle: "call_fd_is_idle ?lops = listener_is_idle eops kops hops" by (simp add: server_ops_def)
  show "serves sfd obj mon'" if "serves sfd obj mon" "is_service obj"
    by (rule process_idle_keeps [OF call_keeps(1) run])
       (use that in \<open>auto simp: idle idle_keeps_services serves_def\<close>)
  show "m_reg_should_be_cleared mon' = m_reg_should_be_cleared mon"
    by (rule process_idle_keeps [OF _ run, where P = "\<lambda>m. m_reg_should_be_cleared m = m_reg_should_be_cleared mon"])
       (auto simp: idle dest!: call_listener_frame idle_frame(3))
qed

lemma remove_fds_frame:
  "remove_fds eops destroy fds mon = (mon', None) \<Longrightarrow>
   m_listeners mon' = filter (\<lambda>e. fst e \<notin> set fds) (m_listeners mon)
   \<and> m_reg_should_be_cleared mon' = m_reg_should_be_cleared mon"
proof (induction fds arbitrary: mon)
  case (Cons fd fds)
  then show ?case
    by (auto simp: Let_def erase_listener_def filter_filter intro!: filter_cong split: option.splits if_splits
        dest!: Cons.IH)
qed simp

lemma flush_frame:
  assumes "flush_fds_to_remove eops destroy mon = (mon', None)" and "\<not> m_reg_should_be_cleared mon"
  shows "serves sfd obj mon \<Longrightarrow> serves sfd obj mon'" and "\<not> m_reg_should_be_cleared mon'"
proof -
  obtain mon1 where r: "remove_fds eops destroy (m_fds_to_remove mon) mon = (mon1, None)"
    "mon' = mon1\<lparr>m_fds_to_remove := []\<rparr>"
    using assms by (auto simp: flush_fds_to_remove_def run_then_def split: prod.splits option.splits)
  note f = remove_fds_frame [OF r(1)]
  show "\<not> m_reg_should_be_cleared mon'" using f assms(2) r(2) by simp
  have same: "sfd \<notin> R \<Longrightarrow> map_of (filter (\<lambda>e. fst e \<notin> R) ls) sfd = map_of ls sfd" for R ls
    by (induction ls) auto
  show "serves sfd obj mon \<Longrightarrow> serves sfd obj mon'"
    using f same [of "set (m_fds_to_remove mon)" "m_listeners mon"] by (simp add: serves_def r(2))
qed

text \<open>Between cycles: nothing is to be cleared, and the services stay.\<close>

definition in_service :: "(fd \<times> ('c, 'h) listener_object listener) list \<Rightarrow> ('k, 'c, 'h) server_monitor \<Rightarrow> bool" where
  "in_service services mon \<longleftrightarrow> \<not> m_reg_should_be_cleared mon
     \<and> (\<forall>(fd, l) \<in> set services. is_service (m_object l) \<and> serves fd (m_object l) mon)"

context http_sessions
begin

lemma cycle_service:
  assumes ok: "server_ok watched clock p_ok mon" and web: "in_service services mon"
    and some: "m_listeners mon \<noteq> []"
    and cycle: "wait_for_and_dispatch_events eops (server_ops eops calls kops hops req_handler) mon
        = Some (mon', Inr again)"
  shows "in_service services mon' \<or> m_listeners mon' = []
    \<and> (\<exists>fd l. map_of (m_listeners mon) fd = Some l \<and> told_to_shut_down kops (m_object l))"
proof -
  let ?lops = "server_ops eops calls kops hops req_handler"
  obtain k w where k: "sys_epoll_wait eops (m_epoll mon) (length (m_listeners mon)) = (k, w)" by fastforce
  with cycle some obtain events where w: "w = Returned events"
    by (cases w) (simp_all add: wait_for_and_dispatch_events_def)
  let ?mon0 = "(grow_event_buffer mon)\<lparr>m_epoll := k\<rparr>"
  obtain mon1 mon2 where d: "dispatch_events eops ?lops events ?mon0 = (mon1, None)"
    and i: "process_idle_fds eops ?lops mon1 = Some (mon2, None)"
    and f: "flush_fds_to_remove eops (call_destroy ?lops) mon2 = (mon', None)"
    using cycle some
    by (auto simp: wait_for_and_dispatch_events_def k w Let_def split: prod.splits option.splits)
  have ev: "distinct events" "set events \<subseteq> dom (map_of (m_listeners ?mon0))"
    using ep_wait [OF k] ok by (auto simp: w server_ok_def monitor_inv_def)
  note one = dispatch_frame [OF d ev]
  have same: "m_reg_should_be_cleared ?mon0 = m_reg_should_be_cleared mon"
    by (simp add: grow_event_buffer_def Let_def)
  show ?thesis
  proof (cases "m_reg_should_be_cleared mon1")
    case True
    with idle_service_frame(2) [OF i] f have "m_listeners mon' = []"
      by (auto simp: flush_fds_to_remove_def fd_event_monitor_init_def split: prod.splits sys_result.splits)
    with True one web show ?thesis by (auto simp: same in_service_def)
  next
    case False
    with idle_service_frame(2) [OF i] have no: "\<not> m_reg_should_be_cleared mon2" by simp
    have "serves fd obj mon'" if "serves fd obj mon" "is_service obj" for fd obj
    proof -
      have "serves fd obj ?mon0" using that(1) by (simp add: serves_def)
      with one that(2) have "serves fd obj mon1" by blast
      from flush_frame(1) [OF f no idle_service_frame(1) [OF i this that(2)]] show ?thesis .
    qed
    with web flush_frame(2) [OF f no] show ?thesis by (fastforce simp: in_service_def)
  qed
qed

lemma run_service:
  assumes "server_run eops (server_ops eops calls kops hops req_handler) watched opened clock stream_step mon0 mon"
    and "stream_stable stream_step p_ok" and "server_ok watched clock p_ok mon0"
    and "in_service services mon0"
  shows "m_listeners mon = [] \<or> in_service services mon"
  using assms
proof (induction rule: server_run.induct)
  case (run_cycle mon mon1 mon2 again)
  then have "server_ok watched clock p_ok mon1" "m_listeners mon1 = [] \<or> in_service services mon1"
    using server_run_ok by blast+
  with cycle_service [OF _ _ _ run_cycle.hyps(3)] run_cycle.hyps(3) show ?case
    by (cases "m_listeners mon1 = []") (auto simp: wait_for_and_dispatch_events_def)
next
  case (run_kernel mon mon1 k)
  then show ?case by (auto simp: in_service_def serves_def)
next
  case (run_peer mon mon1 fd l c c')
  then have web: "in_service services mon1" by auto
  have other: "\<not> is_service (m_object l)"
    using run_peer.hyps(3) by (auto simp: listener_stream_def is_service_def split: listener_object.splits)
  have "serves sfd obj (mon1\<lparr>m_listeners := set_object fd (with_stream c' (m_object l)) (m_listeners mon1)\<rparr>)"
    if "serves sfd obj mon1" "is_service obj" for sfd obj
    using that other run_peer.hyps(2) by (auto simp: serves_def map_of_set_object)
  with web show ?case by (auto simp: in_service_def)
qed simp

lemma start_in_service:
  assumes start: "start_server eops calls address k = Inr (mon :: ('k, 'c, 'h) server_monitor)"
  shows "in_service (m_listeners mon) mon" and "m_listeners mon \<noteq> []"
proof -
  obtain k3 http adm where s: "start_services eops calls http adm (fd_event_monitor_init k3) = (mon, None)"
    using start_serverD [OF start] by blast
  then obtain mon1 where e: "enroll eops calls (srv_fd http) (Http_service http) (fd_event_monitor_init k3) = (mon1, None)"
    "enroll eops calls (srv_fd adm) (Adm_service adm) mon1 = (mon, None)"
    by (auto simp: start_services_def run_then_def split: prod.splits option.splits)
  have enrolled: "\<exists>n. m_listeners mon' = m_listeners mon @ [(fd, \<lparr>m_object = l, m_timer = n\<rparr>)]"
    "m_fds_to_remove mon' = m_fds_to_remove mon" "m_reg_should_be_cleared mon' = m_reg_should_be_cleared mon"
    if "enroll eops calls fd l mon = (mon', None)" for fd l mon mon'
    using that
    by (auto simp: enroll_def dest: monitor_add_frame(1) monitor_add_frame(2) monitor_add_frame(3)
        split: prod.splits sum.splits)
  from enrolled [OF e(1)] enrolled [OF e(2)] obtain n n' where
    l: "m_listeners mon = [(srv_fd http, \<lparr>m_object = Http_service http, m_timer = n\<rparr>),
        (srv_fd adm, \<lparr>m_object = Adm_service adm, m_timer = n'\<rparr>)]"
    "m_fds_to_remove mon = []" "\<not> m_reg_should_be_cleared mon"
    by (auto simp: fd_event_monitor_init_def)
  have "monitor_inv watched clock mon" using start_server_ok [OF start] by (simp add: server_ok_def)
  then have "srv_fd http \<noteq> srv_fd adm" by (simp add: monitor_inv_def timers_match_def l)
  with l show "in_service (m_listeners mon) mon" by (simp add: in_service_def serves_def is_service_def)
  show "m_listeners mon \<noteq> []" by (simp add: l)
qed

end

section \<open>Only the word ends it\<close>

text \<open>
  C20: nothing but the administrator's word ends the server. Whatever the peers send and the
  kernel reports, a cycle that returns leaves every service registered as it was at the start,
  so that there will be another cycle, unless a client of the administration service has
  sent exactly the word shutdown.
\<close>

theorem only_shutdown_ends_server:
  assumes "http_service eops watched clock calls kops incoming sent hops h_inv h_responding req_handler"
    and "start_server eops calls address k = Inr mon0"
    and "server_run eops (server_ops eops calls kops hops req_handler) watched opened clock stream_step mon0 mon"
    and "wait_for_and_dispatch_events eops (server_ops eops calls kops hops req_handler) mon = Some (mon', Inr True)"
    and "\<not> (\<exists>fd l. map_of (m_listeners mon) fd = Some l \<and> told_to_shut_down kops (m_object l))"
  shows "(\<forall>(fd, l) \<in> set (m_listeners mon0).
        map_option m_object (map_of (m_listeners mon') fd) = Some (m_object l))
    \<and> m_listeners mon' \<noteq> []"
proof -
  note sessions = http_service.service_sessions [OF assms(1)]
  note web = http_sessions.start_in_service [OF sessions assms(2)]
  have some: "m_listeners mon \<noteq> []" using assms(4) by (auto simp: wait_for_and_dispatch_events_def)
  have ok: "server_ok watched clock (proc_inv h_inv h_responding) mon"
    by (rule http_sessions.server_started_ok [OF sessions assms(2,3) proc_inv_stable])
  have "in_service (m_listeners mon0) mon"
    using http_sessions.run_service [OF sessions assms(3) proc_inv_stable
        http_sessions.start_server_ok [OF sessions assms(2)] web(1)] some by simp
  from http_sessions.cycle_service [OF sessions ok this some assms(4)] assms(5)
  have "in_service (m_listeners mon0) mon'" by blast
  then have stay: "\<forall>(fd, l) \<in> set (m_listeners mon0).
      map_option m_object (map_of (m_listeners mon') fd) = Some (m_object l)"
    by (auto simp: in_service_def serves_def)
  moreover obtain e where "e \<in> set (m_listeners mon0)" using web(2) by (cases "m_listeners mon0") auto
  ultimately show ?thesis by (cases e) auto
qed

text \<open>The desk, when a client connects: both services are still there.\<close>

theorem only_shutdown_ends_server_witness:
  "wait_for_and_dispatch_events script_epoll_ops desk_ops desk_services = Some (desk_connected, Inr True)
    \<and> map_option m_object (map_of (m_listeners desk_connected) 3) = Some (Http_service desk_http)
    \<and> map_option m_object (map_of (m_listeners desk_connected) 4) = Some (Adm_service desk_adm)"
proof -
  have "\<not> (\<exists>fd l. map_of (m_listeners desk_services) fd = Some l \<and> told_to_shut_down script_ops (m_object l))"
    by (auto simp: desk_services_eq told_to_shut_down_def split: if_splits)
  from only_shutdown_ends_server [OF desk_service desk_started run_begin desk_connects this] desk_connects
  show ?thesis by (simp add: desk_services_eq)
qed

end
