(* ===== verification/Descriptors.thy ===== *)
theory Descriptors
  imports Server_Runs
begin

text \<open>
  Who owns the descriptors of the server. The sockets a server has open are those of its
  listeners, whatever happens in a cycle, exceptions included: an accepted connection
  either becomes a listener or is closed, and a listener that is dropped closes its own.
  The argument needs none of the other invariants.
\<close>

definition listened :: "('k, 'l) fd_event_monitor \<Rightarrow> fd set" where
  "listened mon = fst ` set (m_listeners mon)"

text \<open>\<open>others\<close> are the descriptors that were open before the server was started.\<close>

definition owned_descriptors ::
  "('k \<Rightarrow> fd set) \<Rightarrow> fd set \<Rightarrow> ('k, 'l) fd_event_monitor \<Rightarrow> bool" where
  "owned_descriptors opened others mon \<longleftrightarrow>
     opened (m_epoll mon) = others \<union> listened mon \<and> others \<inter> listened mon = {}"

lemma listened_simps [simp]:
  "listened (mon\<lparr>m_epoll := k\<rparr>) = listened mon"
  "listened (mon\<lparr>m_listeners := set_object fd obj (m_listeners mon1)\<rparr>) = listened mon1"
  "listened (mon\<lparr>m_fd_activity_timestamps := ts\<rparr>) = listened mon"
  "listened (mon\<lparr>m_fds_to_remove := fds\<rparr>) = listened mon"
  "listened (deferred_remove fd mon) = listened mon"
  "listened (deferred_clear mon) = listened mon"
  "listened (grow_event_buffer mon) = listened mon"
  by (simp_all add: listened_def set_object_def deferred_remove_def deferred_clear_def
      image_image split_def)

lemma owned_kernel:
  "owned_descriptors opened others mon \<Longrightarrow> opened k = opened (m_epoll mon) \<Longrightarrow>
   owned_descriptors opened others (mon\<lparr>m_epoll := k\<rparr>)"
  by (simp add: owned_descriptors_def)

lemma owned_deferred [simp]:
  "owned_descriptors opened others (deferred_remove fd mon) = owned_descriptors opened others mon"
  "owned_descriptors opened others (deferred_clear mon) = owned_descriptors opened others mon"
  "owned_descriptors opened others (grow_event_buffer mon) = owned_descriptors opened others mon"
  "owned_descriptors opened others (mon\<lparr>m_fds_to_remove := fds\<rparr>) = owned_descriptors opened others mon"
  by (simp_all add: owned_descriptors_def) (simp_all add: deferred_remove_def deferred_clear_def)

lemma owned_set_object:
  "owned_descriptors opened others mon \<Longrightarrow>
   owned_descriptors opened others (mon\<lparr>m_listeners := set_object fd obj (m_listeners mon)\<rparr>)"
  by (simp add: owned_descriptors_def)

text \<open>The calls on an epoll instance and the clock open and close no socket.\<close>

locale descriptors = descriptor_calls calls opened
  for calls :: "('k, 'c) server_calls" and opened :: "'k \<Rightarrow> fd set" +
  fixes eops :: "'k epoll_ops"
  assumes od_create: "sys_epoll_create eops k = (k', r) \<Longrightarrow> opened k' = opened k"
    and od_add: "sys_epoll_add eops k fd ev = (k', r) \<Longrightarrow> opened k' = opened k"
    and od_mod: "sys_epoll_mod eops k fd ev = (k', r) \<Longrightarrow> opened k' = opened k"
    and od_del: "opened (fst (sys_epoll_del eops k fd)) = opened k"
    and od_wait: "sys_epoll_wait eops k n = (k', w) \<Longrightarrow> opened k' = opened k"
    and od_now: "sys_now eops k = (k', now) \<Longrightarrow> opened k' = opened k"
begin

lemma monitor_add_owned:
  assumes "opened (m_epoll mon) = insert fd (others \<union> listened mon)"
    and "fd \<notin> others \<union> listened mon" and "others \<inter> listened mon = {}"
    and add: "monitor_add eops (listener_destroy calls) fd l events mon = (mon', exc)"
  shows "owned_descriptors opened others mon'"
proof -
  obtain k now where k: "sys_now eops (m_epoll mon) = (k, now)" by fastforce
  obtain k1 r where k1: "sys_epoll_add eops k fd events = (k1, r)" by fastforce
  have same: "opened k1 = insert fd (others \<union> listened mon)"
    using od_now [OF k] od_add [OF k1] assms(1) by simp
  have none: "map_of (m_listeners mon) fd = None"
    using assms(2) by (auto simp: listened_def map_of_eq_None_iff)
  have erased: "erase_listener fd (m_listeners mon @ [(fd, x)]) = m_listeners mon" for x
    using assms(2) by (force simp: listened_def erase_listener_def filter_id_conv)
  show ?thesis
  proof (cases r)
    case (Returned u)
    with add none k k1 have "m_epoll mon' = k1" "listened mon' = insert fd (listened mon)"
      by (auto simp: monitor_add_def listened_def Let_def)
    with same assms(2,3) show ?thesis by (auto simp: owned_descriptors_def)
  next
    case (Failed e)
    with add none k k1 erased have "m_epoll mon' = sys_close calls k1 fd" "listened mon' = listened mon"
      by (auto simp: monitor_add_def listened_def listener_destroy_def Let_def)
    with same assms(2,3) show ?thesis by (auto simp: owned_descriptors_def op_close)
  qed
qed

lemma accept_connection_owned:
  assumes owned: "owned_descriptors opened others mon"
    and acc: "accept_connection eops calls srv create_session mon = (mon', exc)"
  shows "owned_descriptors opened others mon'"
proof -
  obtain k r where a: "inet_accept calls srv (m_epoll mon) = (k, r)" by fastforce
  note a_ok = inet_accept_opened [OF a]
  show ?thesis
  proof (cases r)
    case (Inl e)
    with acc a a_ok owned show ?thesis by (auto simp: accept_connection_def owned_descriptors_def)
  next
    case (Inr x)
    obtain cfd conn where x: "x = (cfd, conn)" by (cases x)
    have cfd: "cfd \<notin> opened (m_epoll mon)" "opened k = insert cfd (opened (m_epoll mon))"
      using a_ok by (simp_all add: Inr x)
    obtain k1 b where b: "sys_set_non_blocking calls k cfd = (k1, b)" by fastforce
    note same = op_non_blocking [OF b]
    show ?thesis
    proof (cases b)
      case (Failed e)
      with acc a b have "mon' = mon\<lparr>m_epoll := sys_close calls k1 cfd\<rparr>"
        by (simp add: accept_connection_def Inr x set_non_blocking_def checked_def)
      with same cfd owned show ?thesis by (auto simp: owned_descriptors_def op_close)
    next
      case (Returned u)
      with acc a b have "monitor_add eops (listener_destroy calls) cfd (create_session conn) Read_is_possible
          (mon\<lparr>m_epoll := k1\<rparr>) = (mon', exc)"
        by (simp add: accept_connection_def Inr x set_non_blocking_def checked_def)
      then show ?thesis
        by (rule monitor_add_owned [rotated 3])
           (use same cfd owned in \<open>auto simp: owned_descriptors_def\<close>)
    qed
  qed
qed

lemma finish_event_owned:
  assumes "owned_descriptors opened others mon"
    and "finish_event inject eops terminated new_events fd c mon = (obj, mon', exc)"
  shows "owned_descriptors opened others mon'"
proof -
  obtain k r where "sys_epoll_mod eops (m_epoll mon) fd new_events = (k, r)" by fastforce
  with assms od_mod show ?thesis
    by (auto simp: finish_event_def finalize_event_def monitor_modify_def intro: owned_kernel
        split: if_splits sys_result.splits)
qed

text \<open>What is asked of a callback.\<close>

definition keeps_owned ::
  "fd set \<Rightarrow> ('l \<Rightarrow> fd \<Rightarrow> ('k, 'l) fd_event_monitor \<Rightarrow> 'l \<times> ('k, 'l) monitor_run) \<Rightarrow> bool" where
  "keeps_owned others callback \<longleftrightarrow>
     (\<forall>l fd mon obj mon' exc. owned_descriptors opened others mon
        \<and> callback l fd mon = (obj, mon', exc) \<longrightarrow> owned_descriptors opened others mon')"

lemma listener_is_ready_owned: "keeps_owned others (listener_is_ready eops calls kops hops req_handler)"
  unfolding keeps_owned_def
proof (intro allI impI, elim conjE)
  fix l fd mon obj mon' exc
  assume owned: "owned_descriptors opened others mon"
    and call: "listener_is_ready eops calls kops hops req_handler l fd mon = (obj, mon', exc)"
  show "owned_descriptors opened others mon'"
  proof (cases l)
    case (Adm_connection c)
    obtain conn st mon1 where a: "adm_socket_is_ready kops (ceh_session c) mon = (conn, st, mon1)"
      by (metis prod_cases3)
    then have "owned_descriptors opened others mon1"
      using owned by (auto simp: adm_socket_is_ready_def split: prod.splits if_splits)
    with call a show ?thesis
      by (auto simp: listener_is_ready_def Adm_connection adm_connection_event_def dest: finish_event_owned)
  next
    case (Http_connection c)
    with call owned show ?thesis
      by (auto simp: listener_is_ready_def http_connection_event_def dest: finish_event_owned
          split: option.splits sum.splits)
  qed (use call owned in \<open>auto simp: listener_is_ready_def dest: accept_connection_owned\<close>)
qed

lemma listener_is_idle_owned: "keeps_owned others (listener_is_idle eops kops hops)"
  unfolding keeps_owned_def
  by (auto simp: listener_is_idle_def http_connection_event_def adm_connection_event_def
      dest: finish_event_owned split: listener_object.splits sum.splits)

lemma touch_timer_owned:
  "owned_descriptors opened others mon \<Longrightarrow> touch_timer eops n mon = (mon', exc) \<Longrightarrow>
   owned_descriptors opened others mon'"
  using od_now
  by (auto simp: touch_timer_def owned_descriptors_def Let_def split: prod.splits option.splits)

lemma call_listener_owned:
  assumes "keeps_owned others callback" and "owned_descriptors opened others mon"
    and call: "call_listener eops callback fd l mon = (mon', exc)"
  shows "owned_descriptors opened others mon'"
proof -
  obtain obj mon1 exc1 where c: "callback (m_object l) fd mon = (obj, mon1, exc1)"
    by (cases "callback (m_object l) fd mon")
  with assms(1,2) have "owned_descriptors opened others mon1" unfolding keeps_owned_def by blast
  then have "owned_descriptors opened others (mon1\<lparr>m_listeners := set_object fd obj (m_listeners mon1)\<rparr>)"
    by (rule owned_set_object)
  with call c show ?thesis
    by (cases exc1) (auto simp: call_listener_def run_then_def dest: touch_timer_owned)
qed

lemma dispatch_events_owned:
  assumes "keeps_owned others (call_fd_is_ready lops)"
  shows "owned_descriptors opened others mon \<Longrightarrow> dispatch_events eops lops events mon = (mon', exc) \<Longrightarrow>
    owned_descriptors opened others mon'"
  by (rule dispatch_events_keeps) (rule call_listener_owned [OF assms])

lemma process_idle_from_owned:
  assumes "process_idle_from eops lops now i mon = Some (mon', exc)"
    and "keeps_owned others (call_fd_is_idle lops)" and "owned_descriptors opened others mon"
  shows "owned_descriptors opened others mon'"
proof -
  let ?P = "\<lambda>e lp (now :: nat) (j :: nat option) m r. e = eops \<and> lp = lops \<and> owned_descriptors opened others m
      \<longrightarrow> owned_descriptors opened others (fst r)"
  have "?P eops lops now i mon (mon', exc)"
  proof (rule process_idle_from.raw_induct [where P = ?P, OF _ assms(1)], intro impI, elim conjE)
    fix process e lp now j m r
    assume rec: "\<And>e lp now j m r. process e lp now j m = Some r \<Longrightarrow> ?P e lp now j m r"
      and body: "(case j of
        None \<Rightarrow> Some (m, None)
      | Some n \<Rightarrow>
          (case map_of (m_fd_activity_timestamps m) n of
             None \<Rightarrow> Some (m, Some (Undefined_behaviour ''dangling iterator''))
           | Some (t, fd) \<Rightarrow>
               if now < t then Some (m, None)
               else
                 (case map_of (m_listeners m) fd of
                    None \<Rightarrow> Some (m, Some (Assertion_failed ''item != std::end(m_listeners)''))
                  | Some l \<Rightarrow>
                      (case call_listener e (call_fd_is_idle lp) fd l m of
                         (mon1, None) \<Rightarrow> process e lp now (node_after n (m_fd_activity_timestamps mon1)) mon1
                       | (mon1, Some exc) \<Rightarrow> Some (mon1, Some exc))))) = Some r"
      and eq: "e = eops" "lp = lops" and owned: "owned_descriptors opened others m"
    have called: "owned_descriptors opened others (fst (call_listener eops (call_fd_is_idle lops) fd l m))"
      for fd l using call_listener_owned [OF assms(2) owned, of fd l] by (metis prod.collapse)
    show "owned_descriptors opened others (fst r)"
    proof (cases "\<exists>n t fd l mon1. j = Some n \<and> map_of (m_fd_activity_timestamps m) n = Some (t, fd)
        \<and> \<not> now < t \<and> map_of (m_listeners m) fd = Some l
        \<and> call_listener eops (call_fd_is_idle lops) fd l m = (mon1, None)")
      case False
      with body called owned show ?thesis
        unfolding eq by (auto split: option.splits if_splits prod.splits)
    next
      case True
      then obtain n t fd l mon1 where it: "j = Some n" "map_of (m_fd_activity_timestamps m) n = Some (t, fd)"
        "\<not> now < t" "map_of (m_listeners m) fd = Some l"
        "call_listener eops (call_fd_is_idle lops) fd l m = (mon1, None)" by blast
      with body have "process e lp now (node_after n (m_fd_activity_timestamps mon1)) mon1 = Some r"
        by (simp add: eq)
      from rec [OF this] eq called [of fd l] it(5) show ?thesis by simp
    qed
  qed
  with assms(3) show ?thesis by simp
qed

lemma remove_fds_owned:
  "owned_descriptors opened others mon \<Longrightarrow> remove_fds eops (listener_destroy calls) fds mon = (mon', exc) \<Longrightarrow>
   owned_descriptors opened others mon'"
proof (induction fds arbitrary: mon)
  case (Cons fd fds)
  let ?mon = "mon\<lparr>m_epoll := fst (sys_epoll_del eops (m_epoll mon) fd)\<rparr>"
  have owned: "owned_descriptors opened others ?mon"
    using Cons.prems(1) by (rule owned_kernel) (rule od_del)
  show ?case
  proof (cases "map_of (m_listeners mon) fd")
    case None
    with Cons.prems owned show ?thesis by (simp add: Let_def)
  next
    case (Some l)
    let ?mon1 = "?mon\<lparr>m_epoll := listener_destroy calls (m_object l) fd (m_epoll ?mon),
      m_fd_activity_timestamps := erase_timer (m_timer l) (m_fd_activity_timestamps mon),
      m_listeners := erase_listener fd (m_listeners mon)\<rparr>"
    have "fd \<in> listened mon" using map_of_SomeD [OF Some] by (force simp: listened_def)
    moreover have "listened ?mon1 = listened mon - {fd}" by (auto simp: listened_def erase_listener_def)
    ultimately have "owned_descriptors opened others ?mon1"
      using owned by (auto simp: owned_descriptors_def listener_destroy_def op_close)
    with Cons.IH [OF this] Cons.prems(2) owned Some show ?thesis
      by (simp add: Let_def split: if_splits)
  qed
qed simp

lemma destroy_all_opened:
  "opened (destroy_all (listener_destroy calls) ls k) = opened k - fst ` set ls"
  by (induction ls arbitrary: k) (auto simp: destroy_all_def listener_destroy_def op_close)

lemma flush_owned:
  assumes owned: "owned_descriptors opened others mon"
    and flush: "flush_fds_to_remove eops (listener_destroy calls) mon = (mon', exc)"
  shows "owned_descriptors opened others mon'"
proof (cases "m_reg_should_be_cleared mon")
  case True
  obtain k r where k: "sys_epoll_create eops (m_epoll mon) = (k, r)" by fastforce
  show ?thesis
  proof (cases r)
    case (Failed e)
    with flush True have "mon' = mon\<lparr>m_epoll := k\<rparr>" by (simp add: flush_fds_to_remove_def k)
    with owned od_create [OF k] show ?thesis by (simp add: owned_kernel)
  next
    case (Returned u)
    with flush True have mon': "m_epoll mon' = destroy_all (listener_destroy calls) (m_listeners mon) k"
      "listened mon' = {}" by (auto simp: flush_fds_to_remove_def k fd_event_monitor_init_def listened_def)
    have "opened k - listened mon = others"
      using owned od_create [OF k] by (auto simp: owned_descriptors_def)
    with mon' show ?thesis
      by (simp add: owned_descriptors_def destroy_all_opened) (simp add: listened_def)
  qed
next
  case False
  obtain mon1 exc1 where r: "remove_fds eops (listener_destroy calls) (m_fds_to_remove mon) mon = (mon1, exc1)"
    by fastforce
  from flush False r remove_fds_owned [OF owned r] show ?thesis
    by (cases exc1) (auto simp: flush_fds_to_remove_def run_then_def)
qed

lemma cycle_owned:
  assumes owned: "owned_descriptors opened others mon"
    and cycle: "wait_for_and_dispatch_events eops (server_ops eops calls kops hops req_handler) mon
      = Some (mon', r)"
  shows "owned_descriptors opened others mon'"
proof -
  let ?lops = "server_ops eops calls kops hops req_handler"
  have ready: "keeps_owned others (call_fd_is_ready ?lops)" and idle: "keeps_owned others (call_fd_is_idle ?lops)"
    by (simp_all add: server_ops_def listener_is_ready_owned listener_is_idle_owned)
  obtain k w where k: "sys_epoll_wait eops (m_epoll mon) (length (m_listeners mon)) = (k, w)" by fastforce
  have start: "owned_descriptors opened others ((grow_event_buffer mon)\<lparr>m_epoll := k\<rparr>)"
    using owned od_wait [OF k] by (intro owned_kernel) simp_all
  show ?thesis
  proof (cases "m_listeners mon = [] \<or> (\<exists>e. w = Failed e)")
    case True
    with cycle start owned show ?thesis
      by (cases "m_listeners mon = []") (auto simp: wait_for_and_dispatch_events_def k Let_def)
  next
    case False
    then obtain events where w: "w = Returned events" and ls: "m_listeners mon \<noteq> []" by (cases w) auto
    obtain mon1 exc1 where d: "dispatch_events eops ?lops events ((grow_event_buffer mon)\<lparr>m_epoll := k\<rparr>)
        = (mon1, exc1)" by fastforce
    note o1 = dispatch_events_owned [OF ready start d]
    show ?thesis
    proof (cases exc1)
      case (Some e)
      with cycle d o1 ls show ?thesis by (auto simp: wait_for_and_dispatch_events_def k w Let_def)
    next
      case None
      then obtain mon2 exc2 where i: "process_idle_fds eops ?lops mon1 = Some (mon2, exc2)"
        using cycle d ls by (auto simp: wait_for_and_dispatch_events_def k w Let_def split: option.splits)
      have o2: "owned_descriptors opened others mon2"
      proof -
        obtain k2 now where now: "sys_now eops (m_epoll mon1) = (k2, now)" by fastforce
        show ?thesis
          using i now od_now [OF now] o1
          by (auto simp: process_idle_fds_def intro: process_idle_from_owned [OF _ idle] owned_kernel)
      qed
      obtain mon3 exc3 where f: "flush_fds_to_remove eops (listener_destroy calls) mon2 = (mon3, exc3)"
        by fastforce
      note o3 = flush_owned [OF o2 f]
      have "call_destroy ?lops = listener_destroy calls" by (simp add: server_ops_def)
      with cycle d None i f o2 o3 ls show ?thesis
        by (auto simp: wait_for_and_dispatch_events_def k w Let_def split: option.splits)
    qed
  qed
qed

lemma enroll_owned:
  assumes "opened (m_epoll mon) = insert fd (others \<union> listened mon)"
    and "fd \<notin> others \<union> listened mon" and "others \<inter> listened mon = {}"
    and "enroll eops calls fd l mon = (mon', None)"
  shows "owned_descriptors opened others mon'"
proof -
  obtain k r where k: "sys_set_non_blocking calls (m_epoll mon) fd = (k, r)" by fastforce
  with assms(4) have "monitor_add eops (listener_destroy calls) fd l Readwrite_is_possible
      (mon\<lparr>m_epoll := k\<rparr>) = (mon', None)"
    by (cases r) (simp_all add: enroll_def set_non_blocking_def checked_def)
  then show ?thesis
    by (rule monitor_add_owned [rotated 3]) (use assms(1-3) op_non_blocking [OF k] in simp_all)
qed

lemma start_server_owned:
  fixes mon :: "('k, 'c, 'h) server_monitor"
  assumes "start_server eops calls address k = Inr mon"
  shows "owned_descriptors opened (opened k) mon"
proof -
  from start_serverD [OF assms] obtain k1 http k2 adm k3 where
    http: "inet_server_socket_init calls address main_ports 128 (Some 1024) k = (k1, Inr http)"
    and adm: "inet_server_socket_init calls address main_ports 128 None k1 = (k2, Inr adm)"
    and epoll: "sys_epoll_create eops k2 = (k3, Returned ())"
    and start: "start_services eops calls http adm (fd_event_monitor_init k3) = (mon, None)" by blast
  let ?mon0 = "fd_event_monitor_init k3 :: ('k, 'c, 'h) server_monitor" and ?h = "srv_fd http" and ?a = "srv_fd adm"
  have h: "?h \<notin> opened k" "opened k1 = insert ?h (opened k)"
    using inet_server_socket_init_opened [OF http] by simp_all
  have a: "?a \<notin> opened k1" "opened k2 = insert ?a (opened k1)"
    using inet_server_socket_init_opened [OF adm] by simp_all
  have none: "listened ?mon0 = {}" and k3: "m_epoll ?mon0 = k3"
    by (simp_all add: listened_def fd_event_monitor_init_def)
  obtain mon1 where e1: "enroll eops calls ?h (Http_service http) ?mon0 = (mon1, None)"
    and e2: "enroll eops calls ?a (Adm_service adm) mon1 = (mon, None)"
    using start by (auto simp: start_services_def run_then_def split: prod.splits option.splits)
  have "owned_descriptors opened (insert ?a (opened k)) mon1"
    by (rule enroll_owned [OF _ _ _ e1]) (use h a none k3 od_create [OF epoll] in auto)
  then show ?thesis
    by (intro enroll_owned [OF _ _ _ e2]) (use a h in \<open>auto simp: owned_descriptors_def\<close>)
qed

lemma server_run_owned:
  assumes "server_run eops (server_ops eops calls kops hops req_handler) watched opened clock stream_step mon0 mon"
    and "owned_descriptors opened others mon0"
  shows "owned_descriptors opened others mon"
  using assms
proof (induction rule: server_run.induct)
  case (run_cycle mon mon1 mon2 again)
  from cycle_owned [OF run_cycle.IH [OF run_cycle.prems] run_cycle.hyps(3)] show ?case .
next
  case (run_kernel mon mon1 k)
  then show ?case by (simp add: owned_kernel)
next
  case (run_peer mon mon1 fd l c c')
  then show ?case by (simp add: owned_set_object)
qed

end

text \<open>
  C6: no descriptor leaks. Whenever a cycle of a running server returns, normally or with an
  exception, whatever failed, the sockets that are open are those that were open before the
  server was started and those of its listeners, and these are different: every connection
  that was accepted either has a listener or has been closed, and a listener that was
  dropped has closed its own. So once all listeners have been dropped, all sockets of the
  server are closed.
\<close>

theorem descriptors_owned:
  assumes "descriptors calls opened eops"
    and "start_server eops calls address k = Inr mon0"
    and "server_run eops (server_ops eops calls kops hops req_handler) watched opened clock stream_step mon0 mon"
    and "wait_for_and_dispatch_events eops (server_ops eops calls kops hops req_handler) mon = Some (mon', r)"
  shows "opened (m_epoll mon') = opened k \<union> fst ` set (m_listeners mon')
    \<and> opened k \<inter> fst ` set (m_listeners mon') = {}"
proof -
  have "owned_descriptors opened (opened k) mon'"
    by (rule descriptors.cycle_owned [OF assms(1) descriptors.server_run_owned [OF assms(1,3)
          descriptors.start_server_owned [OF assms(1,2)]] assms(4)])
  then show ?thesis by (simp add: owned_descriptors_def listened_def)
qed

lemma desk_descriptors: "descriptors script_calls (\<lambda>k. set (e_open k)) script_epoll_ops"
  by (intro descriptors.intro script_descriptors descriptors_axioms.intro)
     (auto simp: script_epoll_ops_def split: list.splits if_splits)

theorem descriptors_owned_witness:
  "set (e_open (m_epoll desk_connected)) = set (e_open desk_boot) \<union> fst ` set (m_listeners desk_connected)
    \<and> set (e_open desk_boot) \<inter> fst ` set (m_listeners desk_connected) = {}"
  by (rule descriptors_owned [OF desk_descriptors desk_started run_begin desk_connects])

end
