(* ===== verification/Echo_Connection.thy ===== *)
theory Echo_Connection
  imports Connection_Properties
begin

text \<open>
  The echo server over TCP connections of any kernel that does what POSIX says: whatever
  bytes a peer sends, it gets the replies of the reference, in order and nothing else, and
  requests without an error are all answered with themselves.
\<close>

section \<open>A connection over time\<close>

text \<open>
  Calls of \<open>socket_is_ready\<close>, each when the socket is ready again, as long as the processor
  asks for more, and of \<open>socket_is_idle\<close> when it has not been for too long. What arrives and
  what was delivered does not change between calls; when the kernel hands it over may. The
  flag says whether the connection has been found idle.
\<close>

inductive connection_run ::
  "'k kernel_ops \<Rightarrow> ('k \<Rightarrow> string) \<Rightarrow> ('k \<Rightarrow> string) \<Rightarrow>
   ('k inet_connection, echo_http_request) request_processor \<Rightarrow> bool \<Rightarrow>
   ('k inet_connection, echo_http_request) request_processor \<Rightarrow> bool"
  for kops arriving delivered where
  run_start: "connection_run kops arriving delivered proc False proc"
| run_ready: "connection_run kops arriving delivered proc idle proc1 \<Longrightarrow>
    socket_is_ready (inet_ops kops) echo_ops proc1 = Some (Inr (proc2, res)) \<Longrightarrow>
    pr_status res = Proc_more_data_needed \<Longrightarrow>
    conn = connection (m_session proc2) \<Longrightarrow>
    arriving k = arriving (m_fd conn) \<Longrightarrow> delivered k = delivered (m_fd conn) \<Longrightarrow>
    connection_run kops arriving delivered proc idle
      (proc2\<lparr>m_session := (m_session proc2)\<lparr>connection := conn\<lparr>m_fd := k\<rparr>\<rparr>\<rparr>)"
| run_idle: "connection_run kops arriving delivered proc idle proc1 \<Longrightarrow>
    socket_is_idle (inet_ops kops) echo_ops proc1 = Inr (proc2, res) \<Longrightarrow>
    pr_status res = Proc_more_data_needed \<Longrightarrow>
    conn = connection (m_session proc2) \<Longrightarrow>
    arriving k = arriving (m_fd conn) \<Longrightarrow> delivered k = delivered (m_fd conn) \<Longrightarrow>
    connection_run kops arriving delivered proc True
      (proc2\<lparr>m_session := (m_session proc2)\<lparr>connection := conn\<lparr>m_fd := k\<rparr>\<rparr>\<rparr>)"

definition echo_connection ::
  "'k \<Rightarrow> 32 word \<Rightarrow> 16 word \<Rightarrow> ('k inet_connection, echo_http_request) request_processor" where
  "echo_connection k address port = request_processor_init (inet_connection_init k address port) echo_http_request_init"

lemma echo_connection_inv: "proc_inv echo_inv echo_responding (echo_connection k address port)"
  by (simp add: echo_connection_def proc_inv_init echo_inv_def echo_http_request_init_def)

lemma echo_connection_resting: "resting (echo_connection k address port)"
  by (simp add: resting_def echo_connection_def request_processor_init_def)

text \<open>The replies that the peer is to get to a stream, if it is or is not found idle.\<close>

definition replies_due :: "bool \<Rightarrow> string \<Rightarrow> reply list \<Rightarrow> bool" where
  "replies_due idle s as \<longleftrightarrow>
     (if idle then replies_to s as else with_leftovers (header_replies s) as)"

lemma replies_due_start: "replies_due False s (header_replies s)"
  by (simp add: replies_due_def no_leftovers)

lemma replies_due_leftovers: "replies_due idle s as \<Longrightarrow> with_leftovers as bs \<Longrightarrow> replies_due idle s bs"
  by (auto simp: replies_due_def with_leftovers_trans replies_leftovers split: if_splits)

lemma replies_due_timeout: "replies_due idle s as \<Longrightarrow> replies_due True s (take k as @ [timeout_reply])"
  by (auto simp: replies_due_def intro: replies_timeout replies_leftovers [OF replies_whole] split: if_splits)

lemma replies_due_servable:
  assumes "replies_due False (request_stream rs) as" and "list_all servable rs" and "rs \<noteq> []"
  shows "as = map Echoed rs"
  using assms by (simp add: replies_due_def header_replies_servable echoed_no_leftovers)

text \<open>What holds between two calls; it does not depend on when the kernel hands bytes over.\<close>

definition peer_state ::
  "('k \<Rightarrow> string) \<Rightarrow> ('k \<Rightarrow> string) \<Rightarrow> reply list \<Rightarrow>
   ('k inet_connection, echo_http_request) request_processor \<Rightarrow> bool" where
  "peer_state arriving delivered as proc \<longleftrightarrow>
     proc_inv echo_inv echo_responding proc \<and> resting proc
     \<and> on_course (kernel_contract.inet_incoming arriving) (kernel_contract.inet_sent delivered) as proc"

context kernel_contract
begin

lemma echo_connection_serving:
  assumes "delivered k = []"
  shows "serving inet_incoming inet_sent [] (header_replies (arriving k)) (echo_connection k address port)"
  using assms
  by (auto simp: serving_def serving_header_def between_replies_def echo_connection_def
      request_processor_init_def pending_input_def inet_incoming_def inet_sent_def inet_connection_init_def
      request_header_parser_init_def intro!: exI [of _ "[]"])

lemma echo_connection_start:
  assumes "delivered k = []" and "list_all reply_fits (header_replies (arriving k))"
  shows "peer_state arriving delivered (header_replies (arriving k)) (echo_connection k address port)"
  using on_courseI [OF echo_connection_serving [OF assms(1)] assms(2), of address port]
  by (simp add: peer_state_def echo_connection_inv echo_connection_resting)

lemma serving_same_streams:
  assumes "serving inet_incoming inet_sent answered todo proc"
    and "conn = connection (m_session proc)"
    and "arriving k = arriving (m_fd conn)" and "delivered k = delivered (m_fd conn)"
  shows "serving inet_incoming inet_sent answered todo
    (proc\<lparr>m_session := (m_session proc)\<lparr>connection := conn\<lparr>m_fd := k\<rparr>\<rparr>\<rparr>)"
proof -
  let ?conn = "connection (m_session proc)"
  have "inet_incoming (?conn\<lparr>m_fd := k\<rparr>) = inet_incoming ?conn"
    "inet_sent (?conn\<lparr>m_fd := k\<rparr>) = inet_sent ?conn"
    using assms(2-4) by (simp_all add: inet_incoming_def inet_sent_def)
  with assms(1) show ?thesis
    by (cases "fst (m_state proc)")
       (simp_all add: serving_def serving_header_def serving_body_def serving_response_header_def
        serving_response_body_def between_replies_def pending_input_def assms(2))
qed

lemma peer_state_same_streams:
  assumes "peer_state arriving delivered as proc" and "conn = connection (m_session proc)"
    and "arriving k = arriving (m_fd conn)" and "delivered k = delivered (m_fd conn)"
  shows "peer_state arriving delivered as
    (proc\<lparr>m_session := (m_session proc)\<lparr>connection := conn\<lparr>m_fd := k\<rparr>\<rparr>\<rparr>)"
proof -
  have "on_course inet_incoming inet_sent as
      (proc\<lparr>m_session := (m_session proc)\<lparr>connection := conn\<lparr>m_fd := k\<rparr>\<rparr>\<rparr>)"
    using assms(1) serving_same_streams [OF _ assms(2-4)] unfolding peer_state_def on_course_def by blast
  with assms(1) show ?thesis
    by (auto simp: peer_state_def resting_def proc_inv_def proc_base_def state_inv_def
        split: request_state.splits)
qed

text \<open>A call for a peer, when its socket is ready and when it has been idle.\<close>

lemma peer_ready:
  assumes "peer_state arriving delivered as proc"
  shows "\<exists>proc' res bs. socket_is_ready (inet_ops kops) echo_ops proc = Some (Inr (proc', res))
    \<and> with_leftovers as bs \<and> (bs = as \<or> m_read_disabled (connection (m_session proc')))
    \<and> (pr_status res = Proc_more_data_needed \<longrightarrow> peer_state arriving delivered bs proc')
    \<and> prefix (delivered (m_fd (connection (m_session proc')))) (reply_stream bs)
    \<and> (case pr_status res of
         Proc_more_data_needed \<Rightarrow>
           read_refused (inet_ops kops) (connection (m_session proc')) Op_would_block
           \<or> write_refused (inet_ops kops) (connection (m_session proc')) Op_would_block
       | Proc_completed \<Rightarrow>
           write_refused (inet_ops kops) (connection (m_session proc')) Op_completed
           \<or> read_refused (inet_ops kops) (connection (m_session proc')) Op_error
           \<or> delivered (m_fd (connection (m_session proc'))) = reply_stream bs
       | Proc_io_error \<Rightarrow>
           read_refused (inet_ops kops) (connection (m_session proc')) Op_error
           \<or> write_refused (inet_ops kops) (connection (m_session proc')) Op_error
       | Proc_application_error \<Rightarrow> False)"
proof -
  from assms have inv: "proc_inv echo_inv echo_responding proc"
    and course: "on_course inet_incoming inet_sent as proc" by (simp_all add: peer_state_def)
  from echo_server.serve_loop [OF inv course] obtain proc' res bs where
    r: "socket_is_ready (inet_ops kops) echo_ops proc = Some (Inr (proc', res))"
    and bs: "with_leftovers as bs" "bs = as \<or> m_read_disabled (connection (m_session proc'))"
    and result: "echo_server.loop_result bs proc' res" by blast
  from echo_server.socket_is_ready_ok [OF inv] r have
    "pr_status res = Proc_more_data_needed \<longrightarrow> proc_inv echo_inv echo_responding proc'" by auto
  with r bs result show ?thesis
    by (intro exI [of _ proc'] exI [of _ res] exI [of _ bs])
       (auto simp: echo_server.loop_result_def Let_def peer_state_def inet_sent_def
         split: request_processor_status.splits)
qed

lemma peer_idle:
  assumes "peer_state arriving delivered as proc"
    and "socket_is_idle (inet_ops kops) echo_ops proc = Inr (proc', res)"
    and "pr_status res = Proc_more_data_needed"
  shows "m_read_disabled (connection (m_session proc'))
    \<and> (\<exists>k. peer_state arriving delivered (take k as @ [timeout_reply]) proc')"
proof -
  from assms(1) have inv: "proc_inv echo_inv echo_responding proc"
    and course: "on_course inet_incoming inet_sent as proc" "resting proc" by (simp_all add: peer_state_def)
  from echo_server.serve_idle [OF course] assms(2,3) have
    "m_read_disabled (connection (m_session proc'))"
    "\<exists>k. on_course inet_incoming inet_sent (take k as @ [timeout_reply]) proc'"
    by (auto split: if_splits)
  moreover from echo_server.socket_is_idle_ok [OF inv] assms(2,3)
  have "proc_inv echo_inv echo_responding proc'" "resting proc'"
    by (auto simp: resting_def split: if_splits)
  ultimately show ?thesis by (simp add: peer_state_def)
qed

lemma connection_run_peer:
  assumes "connection_run kops arriving delivered proc0 idle proc"
    and "proc0 = echo_connection k address port" and "delivered k = []"
    and "list_all reply_fits (header_replies (arriving k))"
  shows "\<exists>as. replies_due idle (arriving k) as \<and> peer_state arriving delivered as proc"
  using assms
proof (induction rule: connection_run.induct)
  case (run_start proc)
  then show ?case using echo_connection_start [of k address port] replies_due_start by blast
next
  case (run_ready proc idle proc1 proc2 res conn k')
  then obtain as where as: "replies_due idle (arriving k) as" "peer_state arriving delivered as proc1" by blast
  from peer_ready [OF as(2)] run_ready(2,3) obtain bs where "with_leftovers as bs"
    "peer_state arriving delivered bs proc2" by auto
  with replies_due_leftovers [OF as(1)] peer_state_same_streams run_ready(4-6) show ?case by blast
next
  case (run_idle proc idle proc1 proc2 res conn k')
  then obtain as where as: "replies_due idle (arriving k) as" "peer_state arriving delivered as proc1" by blast
  from peer_idle [OF as(2) run_idle(2,3)] replies_due_timeout [OF as(1)]
    peer_state_same_streams run_idle(4-6) show ?case by blast
qed

lemma run_answers:
  assumes "connection_run kops arriving delivered (echo_connection k address port) idle proc"
    and "delivered k = []" and "list_all reply_fits (header_replies (arriving k))"
  shows "\<exists>proc' res as. socket_is_ready (inet_ops kops) echo_ops proc = Some (Inr (proc', res))
    \<and> replies_due idle (arriving k) as
    \<and> prefix (delivered (m_fd (connection (m_session proc')))) (reply_stream as)
    \<and> (case pr_status res of
         Proc_more_data_needed \<Rightarrow>
           read_refused (inet_ops kops) (connection (m_session proc')) Op_would_block
           \<or> write_refused (inet_ops kops) (connection (m_session proc')) Op_would_block
       | Proc_completed \<Rightarrow>
           write_refused (inet_ops kops) (connection (m_session proc')) Op_completed
           \<or> read_refused (inet_ops kops) (connection (m_session proc')) Op_error
           \<or> delivered (m_fd (connection (m_session proc'))) = reply_stream as
       | Proc_io_error \<Rightarrow>
           read_refused (inet_ops kops) (connection (m_session proc')) Op_error
           \<or> write_refused (inet_ops kops) (connection (m_session proc')) Op_error
       | Proc_application_error \<Rightarrow> False)"
proof -
  from connection_run_peer [OF assms(1) refl assms(2,3)] obtain as where
    as: "replies_due idle (arriving k) as" "peer_state arriving delivered as proc" by blast
  from peer_ready [OF as(2)] replies_due_leftovers [OF as(1)] show ?thesis by blast
qed

end

section \<open>Any bytes at all\<close>

text \<open>
  C1: the echo server follows its reference. A peer connects and sends any bytes at all (fewer
  than 2^61 of them): requests, one after the other, with or without errors in them, broken
  off or not, or no requests. Whatever pieces they arrive in, however often the socket would
  block or fail and however many bytes it takes at a time, and if the peer is found idle:
  whenever the server has been called, it returns without an exception, and what the peer was
  sent is at that moment a prefix of the replies that the reference has for these bytes, that
  is, to every whole request the request itself, and to the first that is not one a refusal
  with its status; only bytes that were read together with a refused request may be answered
  after it. The server stops only when the socket failed or refused to take anything, or when
  it has sent all the replies.
\<close>

theorem echo_follows_reference:
  assumes "kernel_contract kops arriving delivered"
    and "length (arriving k) < 2 ^ 61" and "delivered k = []"
    and "connection_run kops arriving delivered (echo_connection k address port) idle proc"
  shows "\<exists>proc' res as. socket_is_ready (inet_ops kops) echo_ops proc = Some (Inr (proc', res))
    \<and> replies_due idle (arriving k) as
    \<and> prefix (delivered (m_fd (connection (m_session proc')))) (reply_stream as)
    \<and> (case pr_status res of
         Proc_more_data_needed \<Rightarrow>
           read_refused (inet_ops kops) (connection (m_session proc')) Op_would_block
           \<or> write_refused (inet_ops kops) (connection (m_session proc')) Op_would_block
       | Proc_completed \<Rightarrow>
           write_refused (inet_ops kops) (connection (m_session proc')) Op_completed
           \<or> read_refused (inet_ops kops) (connection (m_session proc')) Op_error
           \<or> delivered (m_fd (connection (m_session proc'))) = reply_stream as
       | Proc_io_error \<Rightarrow>
           read_refused (inet_ops kops) (connection (m_session proc')) Op_error
           \<or> write_refused (inet_ops kops) (connection (m_session proc')) Op_error
       | Proc_application_error \<Rightarrow> False)"
  using assms(1,4,3) header_replies_fit [OF assms(2)] by (rule kernel_contract.run_answers)

text \<open>A peer that sends nothing and is found idle.\<close>

definition silent_kernel :: script_kernel where
  "silent_kernel = \<lparr>k_reads = [], k_sends = [Returned 5], k_delivered = []\<rparr>"

lemma silent_found_idle:
  "\<exists>proc. connection_run script_ops script_arriving k_delivered (echo_connection silent_kernel address port) True proc"
proof -
  have "peer_state script_arriving k_delivered (header_replies []) (echo_connection silent_kernel address port)"
    using script.echo_connection_start [of silent_kernel address port] header_replies_fit [of "[]"]
    by (simp add: silent_kernel_def script_arriving_def)
  moreover have "select_io_direction (fst (m_state (echo_connection silent_kernel address port))) = Io_input"
    by (simp add: echo_connection_def request_processor_init_def)
  ultimately obtain proc' res where
    "socket_is_idle (inet_ops script_ops) echo_ops (echo_connection silent_kernel address port) = Inr (proc', res)"
    "pr_status res = Proc_more_data_needed"
    using script.echo_server.serve_idle unfolding peer_state_def by fastforce
  from run_idle [of script_ops script_arriving k_delivered, OF run_start this refl refl refl]
  show ?thesis by blast
qed

theorem echo_follows_reference_witness:
  "\<exists>proc proc' res as. connection_run script_ops script_arriving k_delivered
       (echo_connection silent_kernel 0x7F000001 49152) True proc
    \<and> socket_is_ready (inet_ops script_ops) echo_ops proc = Some (Inr (proc', res))
    \<and> replies_due True [] as
    \<and> prefix (k_delivered (m_fd (connection (m_session proc')))) (reply_stream as)"
proof -
  from silent_found_idle [of "0x7F000001" 49152] obtain proc where
    run: "connection_run script_ops script_arriving k_delivered (echo_connection silent_kernel 0x7F000001 49152) True proc"
    by blast
  from echo_follows_reference [OF script.kernel_contract_axioms _ _ this] run show ?thesis
    by (fastforce simp: silent_kernel_def script_arriving_def)
qed

text \<open>
  C4: the echo server answers in order. A peer connects and sends well-formed requests
  (valid headers, version 1.1, the announced lengths, within the limits) in the form that
  \<open>request_text\<close> writes (one space between the parts of a line, the fields in the order of the
  map and each once), one after the other without waiting for answers. Whatever pieces they
  arrive in, however often the socket would block or fail, and however many bytes it takes
  at a time, as long as the connection has never been found idle: whenever the server has been
  called, it returns without an exception, and what the peer was sent is at that moment a
  prefix of the responses to its requests in order, each with the request itself as its body.
  The server never gives up on the peer by itself: it stops only when the socket failed or
  refused to take anything, or when everything has been answered.
\<close>

theorem echo_answers_in_order:
  assumes "kernel_contract kops arriving delivered"
    and "list_all servable rs" and "rs \<noteq> []"
    and "arriving k = request_stream rs" and "delivered k = []"
    and "connection_run kops arriving delivered (echo_connection k address port) False proc"
  shows "\<exists>proc' res. socket_is_ready (inet_ops kops) echo_ops proc = Some (Inr (proc', res))
    \<and> prefix (delivered (m_fd (connection (m_session proc')))) (response_stream rs)
    \<and> (case pr_status res of
         Proc_more_data_needed \<Rightarrow>
           read_refused (inet_ops kops) (connection (m_session proc')) Op_would_block
           \<or> write_refused (inet_ops kops) (connection (m_session proc')) Op_would_block
       | Proc_completed \<Rightarrow>
           write_refused (inet_ops kops) (connection (m_session proc')) Op_completed
           \<or> read_refused (inet_ops kops) (connection (m_session proc')) Op_error
           \<or> delivered (m_fd (connection (m_session proc'))) = response_stream rs
       | Proc_io_error \<Rightarrow>
           read_refused (inet_ops kops) (connection (m_session proc')) Op_error
           \<or> write_refused (inet_ops kops) (connection (m_session proc')) Op_error
       | Proc_application_error \<Rightarrow> False)"
proof -
  have "list_all reply_fits (header_replies (arriving k))"
    using assms(2-4) by (simp add: header_replies_servable replies_fit_servable)
  from kernel_contract.run_answers [OF assms(1,6,5) this]
    replies_due_servable [OF _ assms(2,3)] show ?thesis
    unfolding assms(4) by (metis (no_types, lifting) reply_stream_echoed)
qed

text \<open>A valid request, for the witnesses.\<close>

definition example_request :: request where
  "example_request =
     (\<lparr>req_line = \<lparr>rl_method = Request_method ''PUT'', rl_request_target = Uri ''/a'',
        rl_http_version = mk_version 1 1\<rparr>,
       req_fields = [(Field_name ''Content-Length'', ''3'')]\<rparr>, ''abc'')"

lemma example_request_length: "length (wire_request example_request) \<le> 100"
  by (simp add: example_request_def wire_request_def request_text_def field_text_def
      version_to_string_def std_to_string.simps)

lemma example_request_servable: "servable example_request"
proof -
  have "wf_request_header (fst example_request)"
    by (simp add: example_request_def wf_request_header_def wf_fields_def wf_uri_def wf_value_def
        is_token_iff is_token_char_def is_not_token_char_iff is_delimiter_def is_not_printable_iff
        is_strict_whitespace_def)
  moreover have "get_content_length_request (fst example_request) = Some (length (snd example_request))"
  proof -
    have "to_number 64 ''3'' = Some 3" by (simp add: to_number_digits is_digit_def decimal_value_def digit_value_def)
    then show ?thesis
      by (simp add: example_request_def get_content_length_request_def get_content_length_def
          field_map_find_def response_field_names)
  qed
  ultimately show ?thesis
    using example_request_length
    by (simp add: servable_def wire_request_def max_header_size_default_def string_max_size_def)
       (simp add: example_request_def)
qed

theorem echo_answers_in_order_witness:
  "\<exists>proc' res. socket_is_ready (inet_ops script_ops) echo_ops
       (echo_connection \<lparr>k_reads = [Returned (wire_request example_request), Failed EAGAIN],
          k_sends = [Returned 1], k_delivered = []\<rparr> 0x7F000001 49152) = Some (Inr (proc', res))
    \<and> prefix (k_delivered (m_fd (connection (m_session proc')))) (response_stream [example_request])
    \<and> (case pr_status res of
         Proc_more_data_needed \<Rightarrow>
           read_refused (inet_ops script_ops) (connection (m_session proc')) Op_would_block
           \<or> write_refused (inet_ops script_ops) (connection (m_session proc')) Op_would_block
       | Proc_completed \<Rightarrow>
           write_refused (inet_ops script_ops) (connection (m_session proc')) Op_completed
           \<or> read_refused (inet_ops script_ops) (connection (m_session proc')) Op_error
           \<or> k_delivered (m_fd (connection (m_session proc'))) = response_stream [example_request]
       | Proc_io_error \<Rightarrow>
           read_refused (inet_ops script_ops) (connection (m_session proc')) Op_error
           \<or> write_refused (inet_ops script_ops) (connection (m_session proc')) Op_error
       | Proc_application_error \<Rightarrow> False)"
  by (rule echo_answers_in_order [OF script.kernel_contract_axioms _ _ _ _ run_start])
     (simp_all add: example_request_servable script_arriving_def)

section \<open>A connection that never waits\<close>

text \<open>
  The peer's bytes have arrived and it has closed its end, and a send takes at least a byte.
\<close>

definition never_waits :: "'k kernel_ops \<Rightarrow> bool" where
  "never_waits kops \<longleftrightarrow>
     (\<forall>k n. \<exists>k' data. sys_read kops k n = (k', Returned data))
     \<and> (\<forall>k bytes. bytes \<noteq> [] \<longrightarrow> (\<exists>k' m. sys_send kops k bytes = (k', Returned m) \<and> 0 < m))"

lemma never_waits_read: "never_waits kops \<Longrightarrow> read_refused (inet_ops kops) s res \<Longrightarrow> res = Op_completed"
  unfolding never_waits_def read_refused_def
  by (auto simp: inet_ops_def inet_read_def split: if_splits prod.splits sys_result.splits)
     (metis prod.inject sys_result.distinct(1))

lemma never_waits_write: "never_waits kops \<Longrightarrow> \<not> write_refused (inet_ops kops) s res"
  unfolding never_waits_def write_refused_def
  by (auto simp: inet_ops_def inet_write_def is_error_indicator_def split: prod.splits sys_result.splits)
     (metis less_numeral_extra(3) prod.inject sys_result.distinct(1) sys_result.inject(1))+

lemma one_call_answers:
  assumes "kernel_contract kops arriving delivered" and "delivered k = []"
    and "list_all reply_fits (header_replies (arriving k))" and "never_waits kops"
  shows "\<exists>proc' res as. socket_is_ready (inet_ops kops) echo_ops (echo_connection k address port) = Some (Inr (proc', res))
    \<and> replies_due False (arriving k) as
    \<and> delivered (m_fd (connection (m_session proc'))) = reply_stream as
    \<and> pr_status res = Proc_completed"
proof -
  from kernel_contract.run_answers [OF assms(1) run_start assms(2,3), of address port] obtain proc' res as where
    "socket_is_ready (inet_ops kops) echo_ops (echo_connection k address port) = Some (Inr (proc', res))"
    "replies_due False (arriving k) as"
    "delivered (m_fd (connection (m_session proc'))) = reply_stream as" "pr_status res = Proc_completed"
    by (elim exE conjE)
       (auto split: request_processor_status.splits dest: never_waits_read [OF assms(4)]
         simp: never_waits_write [OF assms(4)])
  then show ?thesis by blast
qed

lemma never_waits_pipe: "never_waits pipe_ops"
  by (simp add: never_waits_def pipe_ops_def)

text \<open>
  C2: and it sends all of the reference's replies. Over a connection that never makes it wait
  one call serves a peer that sends any bytes at all: it sends exactly the replies, refusals
  included, in order and nothing else, and ends the session.
\<close>

theorem echo_sends_reference:
  assumes "kernel_contract kops arriving delivered"
    and "length (arriving k) < 2 ^ 61" and "delivered k = []" and "never_waits kops"
  shows "\<exists>proc' res as. socket_is_ready (inet_ops kops) echo_ops (echo_connection k address port) = Some (Inr (proc', res))
    \<and> replies_due False (arriving k) as
    \<and> delivered (m_fd (connection (m_session proc'))) = reply_stream as
    \<and> pr_status res = Proc_completed"
  using assms(1,3) header_replies_fit [OF assms(2)] assms(4) by (rule one_call_answers)

text \<open>A request, and behind it one of an older version of the protocol.\<close>

definition old_request :: string where
  "old_request = ''GET / HTTP/1.0'' @ CRLF @ CRLF"

abbreviation old_version_refused :: reply where
  "old_version_refused \<equiv>
     Refused Http_version_not_supported ''This web server only supports HTTP version 1.1'' []"

lemma read_old_request:
  "read_header old_request
     = Bad_header Http_version_not_supported ''This web server only supports HTTP version 1.1'' []"
proof -
  let ?h = "\<lparr>req_line = \<lparr>rl_method = Request_method ''GET'', rl_request_target = Uri ''/'',
      rl_http_version = mk_version 1 0\<rparr>, req_fields = []\<rparr>"
  have wf: "wf_request_header ?h"
    by (simp add: wf_request_header_def wf_uri_def is_token_iff is_token_char_def
        is_not_token_char_iff is_delimiter_def is_not_printable_iff)
  have shown: "request_text ?h = old_request"
    by (simp add: request_text_def old_request_def version_to_string_def std_to_string.simps digit_char_def)
       code_simp
  obtain p where "parse request_header_parser_init old_request = Inr (p, [], Completed)" "take_result p = ?h"
    using parse_text [OF wf, of "[]"] by (auto simp: shown)
  moreover have "mk_version 1 0 \<noteq> mk_version 1 1"
    by (metis (no_types) version_parts_mk(2) zero_neq_one)
  ultimately show ?thesis
    using read_header_completed [of old_request p "[]"]
    by (simp add: judge_header_def old_request_def max_header_size_default_def)
qed

lemma mixed_replies:
  "header_replies (wire_request example_request @ old_request) = [Echoed example_request, old_version_refused]"
proof -
  have "old_request \<noteq> []" by (simp add: old_request_def)
  then show ?thesis
    by (simp add: header_replies_eq [of "wire_request example_request @ old_request"]
        header_replies_eq [of old_request] read_header_servable [OF example_request_servable]
        body_replies_def later_replies_def read_old_request)
qed

theorem echo_sends_reference_witness:
  "\<exists>proc' res. socket_is_ready (inet_ops pipe_ops) echo_ops
       (echo_connection \<lparr>p_arrived = wire_request example_request @ old_request, p_delivered = []\<rparr> 0x7F000001 49152)
       = Some (Inr (proc', res))
    \<and> p_delivered (m_fd (connection (m_session proc')))
        = reply_stream [Echoed example_request, old_version_refused]
    \<and> pr_status res = Proc_completed"
proof -
  let ?k = "\<lparr>p_arrived = wire_request example_request @ old_request, p_delivered = []\<rparr>"
  have "as = [Echoed example_request, old_version_refused]" if "replies_due False (p_arrived ?k) as" for as
    using that nothing_left_no_leftovers
    by (fastforce simp: replies_due_def mixed_replies)
  moreover have "length (p_arrived ?k) < 2 ^ 61"
    using example_request_length by (simp add: old_request_def)
  ultimately show ?thesis
    using echo_sends_reference [OF pipe_contract, of ?k "0x7F000001" 49152] never_waits_pipe by fastforce
qed

text \<open>
  C40: and it answers them all. Over a connection that never makes it wait (the peer's
  requests have arrived, in the canonical form, and it has closed its end; a send takes at least a byte) one call
  serves every request of the peer, sends exactly the responses, in order and nothing
  else, and ends the session.
\<close>

theorem echo_answers_all:
  assumes "kernel_contract kops arriving delivered"
    and "list_all servable rs" and "rs \<noteq> []"
    and "arriving k = request_stream rs" and "delivered k = []" and "never_waits kops"
  shows "\<exists>proc' res. socket_is_ready (inet_ops kops) echo_ops (echo_connection k address port)
      = Some (Inr (proc', res))
    \<and> delivered (m_fd (connection (m_session proc'))) = response_stream rs
    \<and> pr_status res = Proc_completed"
proof -
  have "list_all reply_fits (header_replies (arriving k))"
    using assms(2-4) by (simp add: header_replies_servable replies_fit_servable)
  from one_call_answers [OF assms(1,5) this assms(6)]
    replies_due_servable [OF _ assms(2,3)] show ?thesis
    unfolding assms(4) by (metis reply_stream_echoed)
qed

theorem echo_answers_all_witness:
  "\<exists>proc' res. socket_is_ready (inet_ops pipe_ops) echo_ops
       (echo_connection \<lparr>p_arrived = request_stream [example_request, example_request],
          p_delivered = []\<rparr> 0x7F000001 49152) = Some (Inr (proc', res))
    \<and> p_delivered (m_fd (connection (m_session proc')))
        = response_stream [example_request, example_request]
    \<and> pr_status res = Proc_completed"
  by (rule echo_answers_all [OF pipe_contract])
     (auto simp: example_request_servable never_waits_pipe)

end
