(* ===== verification/Echo_Server.thy ===== *)
theory Echo_Server
  imports Server_Runs Echo_Connection
begin

text \<open>
  The whole echo server: event monitor, services, request processors and the echo handler
  together. A peer is given the replies of the reference to what it sends, whatever the other
  peers do and however the connections' events are interleaved.
\<close>

section \<open>Peers\<close>

text \<open>
  What a peer sends over a connection: \<open>peer\<close> is all of its bytes, or \<open>None\<close> for a peer of
  which nothing is known. It does not depend on how much has been read or sent.
\<close>

locale echo_service =
  server_contract eops watched clock calls +
  kernel_contract kops arriving delivered
  for eops :: "'k epoll_ops" and watched and clock and calls :: "('k, 'c) server_calls"
    and kops :: "'c kernel_ops" and arriving and delivered +
  fixes peer :: "'c \<Rightarrow> string option"
  assumes peer_read: "sys_read kops c n = (c', r) \<Longrightarrow> peer c' = peer c"
    and peer_send: "sys_send kops c bytes = (c', w) \<Longrightarrow> peer c' = peer c"
    and peer_shutdown: "peer (sys_shutdown_read kops c) = peer c"
    and peer_accept: "sys_accept calls k fd = (k', Returned (cfd, c, address, port)) \<Longrightarrow> peer c = Some s \<Longrightarrow>
      length s < 2 ^ 61 \<and> arriving c = s \<and> delivered c = []"

text \<open>
  The state of the server on a connection to a peer of which something is known: it is
  somewhere in the replies to what the peer sends, and these are the ones to all of that as
  long as reading from it has not been stopped.
\<close>

definition serves_peer ::
  "('c \<Rightarrow> string option) \<Rightarrow> ('c \<Rightarrow> string) \<Rightarrow> ('c \<Rightarrow> string) \<Rightarrow>
   ('c inet_connection, echo_http_request) request_processor \<Rightarrow> bool" where
  "serves_peer peer arriving delivered p \<longleftrightarrow>
     (\<forall>s. peer (m_fd (connection (m_session p))) = Some s \<longrightarrow>
        (\<exists>as. replies_to s as \<and> peer_state arriving delivered as p
           \<and> (m_read_disabled (connection (m_session p)) \<or> as = header_replies s)))"

definition same_stream ::
  "('c \<Rightarrow> string option) \<Rightarrow> ('c \<Rightarrow> string) \<Rightarrow> ('c \<Rightarrow> string) \<Rightarrow> 'c \<Rightarrow> 'c \<Rightarrow> bool" where
  "same_stream peer arriving delivered c c' \<longleftrightarrow>
     peer c' = peer c \<and> arriving c' = arriving c \<and> delivered c' = delivered c"

definition session_ok ::
  "('c \<Rightarrow> string option) \<Rightarrow> ('c \<Rightarrow> string) \<Rightarrow> ('c \<Rightarrow> string) \<Rightarrow>
   ('c inet_connection, echo_http_request) request_processor \<Rightarrow> bool" where
  "session_ok peer arriving delivered p \<longleftrightarrow>
     proc_inv echo_inv echo_responding p \<and> serves_peer peer arriving delivered p"

sublocale echo_service \<subseteq> plain: http_service eops watched clock calls kops inet_incoming inet_sent
  echo_ops echo_inv echo_responding echo_http_request_init
  by (intro http_service.intro server_contract_axioms echo_server.session_io_axioms http_service_axioms.intro)
     (simp add: echo_inv_def echo_http_request_init_def)

text \<open>A call of a processor leaves the peer as it is, and does not start reading again.\<close>

sublocale echo_service \<subseteq> frame: socket_frame "inet_ops kops"
  "\<lambda>s s'. peer (m_fd s') = peer (m_fd s) \<and> (m_read_disabled s \<longrightarrow> m_read_disabled s')"
  by unfold_locales
     (auto simp: inet_ops_def inet_read_def inet_write_def inet_stop_reading_def peer_shutdown
       dest: peer_read peer_send split: prod.splits sys_result.splits if_splits)

context echo_service
begin

lemma serves_peerD:
  assumes "serves_peer peer arriving delivered p" and "peer (m_fd (connection (m_session p))) = Some s"
  obtains as where "replies_to s as" and "peer_state arriving delivered as p"
    and "m_read_disabled (connection (m_session p)) \<or> as = header_replies s"
  using assms unfolding serves_peer_def by blast

lemma serves_peer_ready:
  assumes ok: "session_ok peer arriving delivered p"
    and ready: "socket_is_ready (inet_ops kops) echo_ops p = Some (Inr (p', res))"
    and more: "pr_status res = Proc_more_data_needed"
  shows "serves_peer peer arriving delivered p'"
  unfolding serves_peer_def
proof (intro allI impI)
  fix s
  assume s: "peer (m_fd (connection (m_session p'))) = Some s"
  have frame: "peer (m_fd (connection (m_session p))) = Some s"
    "m_read_disabled (connection (m_session p)) \<Longrightarrow> m_read_disabled (connection (m_session p'))"
    using frame.socket_is_ready_frame [OF ready] s by simp_all
  from ok frame(1) obtain as where as: "replies_to s as" "peer_state arriving delivered as p"
    "m_read_disabled (connection (m_session p)) \<or> as = header_replies s"
    by (auto simp: session_ok_def elim: serves_peerD)
  from peer_ready [OF as(2)] ready more obtain bs where "with_leftovers as bs"
    "bs = as \<or> m_read_disabled (connection (m_session p'))" "peer_state arriving delivered bs p'" by auto
  with as(1,3) frame(2) show "\<exists>as. replies_to s as \<and> peer_state arriving delivered as p'
      \<and> (m_read_disabled (connection (m_session p')) \<or> as = header_replies s)"
    using replies_leftovers by blast
qed

lemma serves_peer_idle:
  assumes ok: "session_ok peer arriving delivered p"
    and idle: "socket_is_idle (inet_ops kops) echo_ops p = Inr (p', res)"
    and more: "pr_status res = Proc_more_data_needed"
  shows "serves_peer peer arriving delivered p'"
  unfolding serves_peer_def
proof (intro allI impI)
  fix s
  assume s: "peer (m_fd (connection (m_session p'))) = Some s"
  have "peer (m_fd (connection (m_session p))) = Some s"
    using frame.socket_is_idle_frame [OF idle] s by simp
  with ok obtain as where as: "replies_to s as" "peer_state arriving delivered as p"
    by (auto simp: session_ok_def elim: serves_peerD)
  from peer_idle [OF as(2) idle more] replies_timeout [OF as(1)]
  show "\<exists>as. replies_to s as \<and> peer_state arriving delivered as p'
      \<and> (m_read_disabled (connection (m_session p')) \<or> as = header_replies s)" by blast
qed

lemma session_ok_stable: "stream_stable (same_stream peer arriving delivered) (session_ok peer arriving delivered)"
  unfolding stream_stable_def
proof (intro allI impI, elim conjE)
  fix p c
  assume ok: "session_ok peer arriving delivered p"
    and same: "same_stream peer arriving delivered (m_fd (connection (m_session p))) c"
  have "peer_state arriving delivered as (set_stream c p)" if "peer_state arriving delivered as p" for as
    using peer_state_same_streams [OF that refl] same by (simp add: set_stream_def same_stream_def)
  moreover have "peer (m_fd (connection (m_session (set_stream c p)))) = peer (m_fd (connection (m_session p)))"
    and "m_read_disabled (connection (m_session (set_stream c p))) = m_read_disabled (connection (m_session p))"
    using same by (simp_all add: set_stream_def same_stream_def)
  moreover have "serves_peer peer arriving delivered p" using ok by (simp add: session_ok_def)
  ultimately have "serves_peer peer arriving delivered (set_stream c p)"
    unfolding serves_peer_def by metis
  with ok show "session_ok peer arriving delivered (set_stream c p)" by (simp add: session_ok_def)
qed

lemma new_session_ok:
  assumes "sys_accept calls k fd = (k', Returned (cfd, c, address, port))"
  shows "session_ok peer arriving delivered
    (request_processor_init (inet_connection_init c address port) echo_http_request_init)"
proof -
  have "peer_state arriving delivered (header_replies s) (echo_connection c address port)" if "peer c = Some s" for s
    using echo_connection_start [of c address port] header_replies_fit [of s] peer_accept [OF assms that] by simp
  moreover have "m_fd (connection (m_session (echo_connection c address port))) = c"
    by (simp add: echo_connection_def request_processor_init_def inet_connection_init_def)
  ultimately have "serves_peer peer arriving delivered (echo_connection c address port)"
    using replies_whole by (auto simp: serves_peer_def)
  with echo_connection_inv show ?thesis by (simp add: session_ok_def echo_connection_def)
qed

lemma idle_session_ok:
  assumes ok: "session_ok peer arriving delivered p"
  shows "case socket_is_idle (inet_ops kops) echo_ops p of
      Inl e \<Rightarrow> thrown e
    | Inr (p', res) \<Rightarrow> pr_io_dir res = select_io_direction (fst (m_state p'))
        \<and> (is_session_terminated (pr_status res) \<or> session_ok peer arriving delivered p')"
proof -
  have "proc_inv echo_inv echo_responding p" using ok by (simp add: session_ok_def)
  from echo_server.socket_is_idle_ok [OF this] serves_peer_idle [OF ok] show ?thesis
    by (auto simp: session_ok_def is_session_terminated_def split: sum.splits if_splits)
qed

lemma ready_session_ok:
  assumes ok: "session_ok peer arriving delivered p"
  shows "\<exists>r. socket_is_ready (inet_ops kops) echo_ops p = Some r
    \<and> (case r of
         Inl e \<Rightarrow> thrown e
       | Inr (p', res) \<Rightarrow> pr_io_dir res = select_io_direction (fst (m_state p'))
           \<and> (is_session_terminated (pr_status res) \<or> session_ok peer arriving delivered p'))"
proof -
  have p: "proc_inv echo_inv echo_responding p" using ok by (simp add: session_ok_def)
  from plain.ses_ready [OF p] obtain r where r: "socket_is_ready (inet_ops kops) echo_ops p = Some r"
    and post: "case r of
         Inl e \<Rightarrow> thrown e
       | Inr (p', res) \<Rightarrow> pr_io_dir res = select_io_direction (fst (m_state p'))
           \<and> (is_session_terminated (pr_status res) \<or> proc_inv echo_inv echo_responding p')" by blast
  show ?thesis
  proof (cases r)
    case (Inr x)
    obtain p' res where x: "x = (p', res)" by (cases x)
    have "serves_peer peer arriving delivered p'" if "\<not> is_session_terminated (pr_status res)"
      by (rule serves_peer_ready [OF ok r [unfolded Inr x]])
         (use that in \<open>cases "pr_status res"; simp add: is_session_terminated_def\<close>)
    with r post Inr x show ?thesis by (auto simp: session_ok_def)
  qed (use r post in simp)
qed

end

sublocale echo_service \<subseteq> echo: http_sessions eops watched clock calls kops echo_ops echo_http_request_init
  "session_ok peer arriving delivered"
  by unfold_locales (fact new_session_ok ready_session_ok idle_session_ok)+

context echo_service
begin

lemma connection_serves:
  assumes "start_server eops calls address k = Inr mon0"
    and "server_run eops (server_ops eops calls kops echo_ops echo_http_request_init) watched opened clock
      (same_stream peer arriving delivered) mon0 mon"
    and l: "map_of (m_listeners mon) fd = Some l" "m_object l = Http_connection c"
  shows "session_ok peer arriving delivered (ceh_session c)"
proof -
  have "server_ok watched clock (session_ok peer arriving delivered) mon"
    by (rule echo.server_started_ok [OF assms(1,2) session_ok_stable])
  then have "\<exists>ev. watched (m_epoll mon) fd = Some ev
      \<and> listener_ok (session_ok peer arriving delivered) ev (m_object l)"
    using l(1) by (intro listeners_okD) (simp_all add: server_ok_def)
  with l(2) show ?thesis by (auto simp: listener_ok_def)
qed

lemma connection_answers:
  assumes "session_ok peer arriving delivered p"
    and "peer (m_fd (connection (m_session p))) = Some s"
  shows "\<exists>as p' res bs. replies_to s as
    \<and> (m_read_disabled (connection (m_session p)) \<or> as = header_replies s)
    \<and> prefix (delivered (m_fd (connection (m_session p)))) (reply_stream as)
    \<and> socket_is_ready (inet_ops kops) echo_ops p = Some (Inr (p', res))
    \<and> with_leftovers as bs
    \<and> prefix (delivered (m_fd (connection (m_session p')))) (reply_stream bs)"
proof -
  from assms obtain as where as: "replies_to s as" "peer_state arriving delivered as p"
    "m_read_disabled (connection (m_session p)) \<or> as = header_replies s"
    by (auto simp: session_ok_def elim: serves_peerD)
  from echo_server.on_course_prefix as(2) have "prefix (delivered (m_fd (connection (m_session p)))) (reply_stream as)"
    by (auto simp: peer_state_def inet_sent_def)
  with as peer_ready [OF as(2)] show ?thesis by blast
qed

end

section \<open>In order, all at once\<close>

text \<open>
  C3: the whole server follows the reference. The echo server runs over any kernel, accepting
  connections and serving them as their events come; each peer sends what it likes, and time
  passes as it likes. Between any two cycles, what a peer has been sent is a prefix of the
  replies to its own bytes, in order, and nothing of anyone else's: its requests with
  themselves, a refusal for what is not a request and when it has been idle for too long. So it
  is after the next call for its connection, which does not fail.
\<close>

theorem server_follows_reference:
  assumes "echo_service eops watched clock calls kops arriving delivered peer"
    and "start_server eops calls address k = Inr mon0"
    and "server_run eops (server_ops eops calls kops echo_ops echo_http_request_init) watched opened clock
      (same_stream peer arriving delivered) mon0 mon"
    and "map_of (m_listeners mon) fd = Some l" and "m_object l = Http_connection c"
    and "peer (m_fd (connection (m_session (ceh_session c)))) = Some s"
  shows "\<exists>as p' res bs. replies_to s as
    \<and> (m_read_disabled (connection (m_session (ceh_session c))) \<or> as = header_replies s)
    \<and> prefix (delivered (m_fd (connection (m_session (ceh_session c))))) (reply_stream as)
    \<and> socket_is_ready (inet_ops kops) echo_ops (ceh_session c) = Some (Inr (p', res))
    \<and> with_leftovers as bs
    \<and> prefix (delivered (m_fd (connection (m_session p')))) (reply_stream bs)"
  by (rule echo_service.connection_answers [OF assms(1) echo_service.connection_serves [OF assms(1-5)] assms(6)])

text \<open>
  The whole server answers in order. The echo server runs over any kernel, accepting
  connections and serving them as their events come; some peers send well-formed requests,
  of others nothing is known, and time passes as it likes. Between any two cycles, what a
  peer with well-formed requests has been sent is a prefix of the responses to its own
  requests, in order, and nothing of anyone else's, and so it is after the next call for
  its connection, which does not fail; as long as the server has not stopped reading from
  it, which it does to a peer that has been inactive for too long.
\<close>

theorem server_answers_in_order:
  assumes "echo_service eops watched clock calls kops arriving delivered peer"
    and "start_server eops calls address k = Inr mon0"
    and "server_run eops (server_ops eops calls kops echo_ops echo_http_request_init) watched opened clock
      (same_stream peer arriving delivered) mon0 mon"
    and "map_of (m_listeners mon) fd = Some l" and "m_object l = Http_connection c"
    and "peer (m_fd (connection (m_session (ceh_session c)))) = Some (request_stream rs)"
    and "rs \<noteq> []" and "list_all servable rs"
    and "\<not> m_read_disabled (connection (m_session (ceh_session c)))"
  shows "prefix (delivered (m_fd (connection (m_session (ceh_session c))))) (response_stream rs)
    \<and> (\<exists>p' res. socket_is_ready (inet_ops kops) echo_ops (ceh_session c) = Some (Inr (p', res))
          \<and> prefix (delivered (m_fd (connection (m_session p')))) (response_stream rs))"
proof -
  have whole: "header_replies (request_stream rs) = map Echoed rs"
    using assms(7,8) by (simp add: header_replies_servable)
  from echo_service.connection_answers [OF assms(1) echo_service.connection_serves [OF assms(1-5)] assms(6)]
    assms(9) show ?thesis
    by (auto simp: whole reply_stream_echoed dest!: echoed_no_leftovers)
qed

section \<open>A kernel that knows its peers\<close>

text \<open>
  The streams of any kernel with a tag each, which the operations leave alone; and the
  scripted kernel, which takes a tag off a new connection unless the script is true to it.
\<close>

definition tagged_ops :: "'c kernel_ops \<Rightarrow> ('c \<times> 'g) kernel_ops" where
  "tagged_ops kops =
     \<lparr>sys_read = (\<lambda>(c, g) n. case sys_read kops c n of (c', r) \<Rightarrow> ((c', g), r)),
      sys_send = (\<lambda>(c, g) bytes. case sys_send kops c bytes of (c', w) \<Rightarrow> ((c', g), w)),
      sys_shutdown_read = (\<lambda>(c, g). (sys_shutdown_read kops c, g))\<rparr>"

type_synonym tagged_stream = "script_kernel \<times> string option"

definition true_to_tag :: "script_kernel \<Rightarrow> string \<Rightarrow> bool" where
  "true_to_tag c s \<longleftrightarrow> length s < 2 ^ 61 \<and> script_arriving c = s \<and> k_delivered c = []"

definition check_tag :: "tagged_stream \<Rightarrow> tagged_stream" where
  "check_tag c = (fst c, case snd c of None \<Rightarrow> None | Some s \<Rightarrow> if true_to_tag (fst c) s then Some s else None)"

definition tagged_calls :: "(tagged_stream script_epoll, tagged_stream) server_calls" where
  "tagged_calls = script_calls\<lparr>sys_accept := \<lambda>k fd.
     case sys_accept script_calls k fd of
       (k', Returned (cfd, c, address, port)) \<Rightarrow> (k', Returned (cfd, check_tag c, address, port))
     | (k', Failed e) \<Rightarrow> (k', Failed e)\<rparr>"

interpretation tagged: kernel_contract "tagged_ops script_ops" "\<lambda>c. script_arriving (fst c)"
  "\<lambda>c. k_delivered (fst c)"
  by unfold_locales
     (auto simp: tagged_ops_def script.k_shutdown split: prod.splits sys_result.splits
       dest: script.k_read script.k_send script.k_eof)

lemma tagged_server: "server_contract script_epoll_ops e_watched e_clock tagged_calls"
  by unfold_locales
     (auto simp: script_epoll_ops_def script_calls_def tagged_calls_def dest!: in_set_takeD
       split: list.splits if_splits)

interpretation tagged_desk: echo_service script_epoll_ops e_watched e_clock tagged_calls "tagged_ops script_ops"
  "\<lambda>c. script_arriving (fst c)" "\<lambda>c. k_delivered (fst c)" snd
proof (intro echo_service.intro tagged_server tagged.kernel_contract_axioms echo_service_axioms.intro)
  fix k fd k' cfd c address port s
  assume "sys_accept tagged_calls k fd = (k', Returned (cfd, c, address, port))" and "snd c = Some s"
  then show "length s < 2 ^ 61 \<and> script_arriving (fst c) = s \<and> k_delivered (fst c) = []"
    by (auto simp: tagged_calls_def check_tag_def true_to_tag_def
        split: prod.splits sys_result.splits option.splits if_splits)
qed (auto simp: tagged_ops_def split: prod.splits)

text \<open>
  A desk with a client who sends one request, all of which has arrived, and expects an
  answer; the state after the cycle in which the connection is accepted.
\<close>

definition asking :: script_kernel where
  "asking = \<lparr>k_reads = [Returned (wire_request example_request)], k_sends = [Returned 100], k_delivered = []\<rparr>"

abbreviation asking_peers :: "(fd \<times> tagged_stream \<times> 32 word \<times> 16 word) list" where
  "asking_peers \<equiv> [(5, (asking, Some (wire_request example_request)), 0x7F000001, 40000)]"

abbreviation asking_services :: "(tagged_stream script_epoll, tagged_stream, echo_http_request) server_monitor" where
  "asking_services \<equiv> desk_services_with asking_peers"

abbreviation asking_ops ::
  "(tagged_stream script_epoll, (tagged_stream, echo_http_request) listener_object) listener_ops" where
  "asking_ops \<equiv> server_ops script_epoll_ops tagged_calls (tagged_ops script_ops) echo_ops echo_http_request_init"

definition asking_connected :: "(tagged_stream script_epoll, tagged_stream, echo_http_request) server_monitor" where
  "asking_connected =
     \<lparr>m_epoll = (desk_epoll_with asking_peers)\<lparr>
        e_watched := (\<lambda>_. None)(3 := Some Readwrite_is_possible, 4 := Some Readwrite_is_possible,
                                 5 := Some Read_is_possible),
        e_open := [5, 4, 3, 2, 1, 0], e_clock := 6, e_ticks := [], e_ready := [], e_peers := []\<rparr>,
      m_event_buffer_capacity = 2,
      m_listeners = [(3, \<lparr>m_object = Http_service desk_http, m_timer = 0\<rparr>),
                     (4, \<lparr>m_object = Adm_service desk_adm, m_timer = 1\<rparr>),
                     (5, \<lparr>m_object = create_http_session echo_http_request_init
                        (inet_connection_init (asking, Some (wire_request example_request)) 0x7F000001 40000), m_timer = 2\<rparr>)],
      m_fds_to_remove = [],
      m_fd_activity_timestamps = [(1, 3 + inactivity_period, 4), (2, 6 + inactivity_period, 5),
                                  (0, 6 + inactivity_period, 3)],
      m_reg_should_be_cleared = False, next_node = 3\<rparr>"

lemma asking_checked: "check_tag (asking, Some (wire_request example_request)) = (asking, Some (wire_request example_request))"
proof -
  have "wire_request example_request \<noteq> []" by (simp add: wire_request_def)
  then have "true_to_tag asking (wire_request example_request)"
    using example_request_length by (simp add: true_to_tag_def asking_def script_arriving_def)
  then show ?thesis by (simp add: check_tag_def)
qed

lemma tagged_calls_simps:
  "sys_socket tagged_calls = sys_socket script_calls" "sys_bind tagged_calls = sys_bind script_calls"
  "sys_listen tagged_calls = sys_listen script_calls"
  "sys_set_send_buffer tagged_calls = sys_set_send_buffer script_calls"
  "sys_set_non_blocking tagged_calls = sys_set_non_blocking script_calls"
  "sys_close tagged_calls = sys_close script_calls" "sys_errno tagged_calls = sys_errno script_calls"
  by (simp_all add: tagged_calls_def)

lemma asking_started:
  "start_server script_epoll_ops tagged_calls 0x7F000001 (desk_boot_with asking_peers) = Inr asking_services"
proof -
  have "start_server script_epoll_ops tagged_calls 0x7F000001 (desk_boot_with asking_peers)
      = (start_server script_epoll_ops script_calls 0x7F000001 (desk_boot_with asking_peers) ::
          (tagged_stream script_epoll, tagged_stream, echo_http_request) server_monitor faulty)"
    by (unfold start_server_def inet_server_socket_init_def [abs_def] create_socket_def try_bind_def [abs_def]
        start_services_def enroll_def [abs_def] set_non_blocking_def listener_destroy_def [abs_def]
        tagged_calls_simps, rule refl)
  then show ?thesis by (simp add: desk_started_with)
qed

lemmas asking_eval = desk_services_with_def desk_epoll_with_def desk_http_def script_epoll_ops_def
  tagged_calls_def script_calls_def asking_checked grow_event_buffer_def call_listener_def server_ops_def
  listener_is_ready_def accept_connection_def inet_accept_def set_non_blocking_def checked_def
  monitor_add_def run_then_def touch_timer_def set_object_def erase_timer_def inactivity_period_def

lemma asking_quick: "quick_cycle script_epoll_ops asking_ops e_clock asking_services"
  by (simp add: quick_cycle_def asking_eval Let_def)

lemma asking_connects:
  "wait_for_and_dispatch_events script_epoll_ops asking_ops asking_services
     = Some (asking_connected, Inr True)"
  by (simp add: wait_for_and_dispatch_events_def asking_connected_def asking_eval desk_adm_def Let_def
      process_idle_fds_def process_idle_from.simps [of _ _ _ "Some _"] flush_fds_to_remove_def fun_upd_def)

abbreviation asking_session ::
  "(tagged_stream inet_connection, echo_http_request) request_processor" where
  "asking_session \<equiv> request_processor_init
     (inet_connection_init (asking, Some (wire_request example_request)) 0x7F000001 40000) echo_http_request_init"

lemma asking_listener:
  "map_of (m_listeners asking_connected) 5 = Some
     \<lparr>m_object = Http_connection \<lparr>ceh_session = asking_session, ceh_events = Read_is_possible\<rparr>, m_timer = 2\<rparr>"
  by (simp add: asking_connected_def create_http_session_def)

lemma asking_run:
  "server_run script_epoll_ops asking_ops e_watched (\<lambda>k. set (e_open k)) e_clock
     (same_stream snd (\<lambda>c. script_arriving (fst c)) (\<lambda>c. k_delivered (fst c))) asking_services asking_connected"
  by (rule run_cycle [OF run_begin asking_quick asking_connects])

lemma asking_stream:
  "m_fd (connection (m_session asking_session)) = (asking, Some (wire_request example_request))"
  "\<not> m_read_disabled (connection (m_session asking_session))"
  by (simp_all add: request_processor_init_def inet_connection_init_def)

theorem server_follows_reference_witness:
  "\<exists>as p' res bs. replies_to (wire_request example_request) as
    \<and> as = header_replies (wire_request example_request)
    \<and> prefix (k_delivered asking) (reply_stream as)
    \<and> socket_is_ready (inet_ops (tagged_ops script_ops)) echo_ops asking_session = Some (Inr (p', res))
    \<and> with_leftovers as bs
    \<and> prefix (k_delivered (fst (m_fd (connection (m_session p'))))) (reply_stream bs)"
  using server_follows_reference [OF tagged_desk.echo_service_axioms asking_started asking_run asking_listener,
      of _ "wire_request example_request"] asking_stream
  by simp

theorem server_answers_in_order_witness:
  "prefix (k_delivered asking) (response_stream [example_request])
    \<and> (\<exists>p' res. socket_is_ready (inet_ops (tagged_ops script_ops)) echo_ops asking_session = Some (Inr (p', res))
          \<and> prefix (k_delivered (fst (m_fd (connection (m_session p'))))) (response_stream [example_request]))"
  using server_answers_in_order [OF tagged_desk.echo_service_axioms asking_started asking_run asking_listener,
      of _ "[example_request]"] asking_stream example_request_servable
  by simp

end
