(* ===== verification/Idle_Service.thy ===== *)
theory Idle_Service
  imports Server_Runs
begin

text \<open>
  How long an idle listener can be overlooked. A cycle calls one listener at most for being
  idle, the one whose deadline is first. The list of deadlines is a queue: whoever is called
  goes to its end, newcomers go to the end as well, and no one overtakes. So one whose
  deadline has passed moves up by at least one place a cycle, and is called, or dropped,
  within as many cycles as there are listeners.
\<close>

section \<open>The queue of deadlines\<close>

text \<open>The nodes in front of one.\<close>

definition ahead :: "nat \<Rightarrow> fd_activity_list \<Rightarrow> nat list" where
  "ahead n ts = takeWhile (\<lambda>m. m \<noteq> n) (map fst ts)"

text \<open>
  The deadline \<open>t\<close> of node \<open>n\<close> is old, and fewer than \<open>i\<close> nodes are ahead of it; unless it
  has been dropped, or has got a new deadline since the time \<open>c\<close>.
\<close>

definition queued :: "nat \<Rightarrow> nat \<Rightarrow> nat \<Rightarrow> nat \<Rightarrow> fd_activity_list \<Rightarrow> bool" where
  "queued n t c i ts \<longleftrightarrow> (case map_of ts n of
     None \<Rightarrow> True
   | Some (u, fd) \<Rightarrow> c + inactivity_period \<le> u \<or> u = t \<and> length (ahead n ts) < i)"

lemma map_of_fst_iff: "map_of ts n = None \<longleftrightarrow> n \<notin> set (map fst ts)"
  by (simp add: map_of_eq_None_iff)

lemma ahead_append: "n \<in> set (map fst ts) \<Longrightarrow> ahead n (ts @ new) = ahead n ts"
  by (simp add: ahead_def takeWhile_append1 del: set_map)

lemma ahead_filter: "n \<noteq> m \<Longrightarrow> ahead n (erase_timer m ts) = filter (\<lambda>k. k \<noteq> m) (ahead n ts)"
  by (induction ts) (auto simp: ahead_def erase_timer_def)

lemma ahead_erase: "n \<noteq> m \<Longrightarrow> length (ahead n (erase_timer m ts)) \<le> length (ahead n ts)"
  by (simp add: ahead_filter)

lemma ahead_erase_first:
  "n \<noteq> m \<Longrightarrow> length (ahead n (erase_timer m ((m, x) # ts))) < length (ahead n ((m, x) # ts))"
  by (simp add: ahead_filter) (simp add: ahead_def le_imp_less_Suc)

text \<open>What can happen to the list: newcomers, one moved to the end, one dropped, all dropped.\<close>

lemma queued_new:
  assumes "queued n t c i ts" and "\<And>e. e \<in> set new \<Longrightarrow> fst e \<noteq> n"
  shows "queued n t c i (ts @ new)"
proof (cases "map_of ts n")
  case None
  moreover have "map_of new n = None" using assms(2) by (auto simp: map_of_eq_None_iff)
  ultimately show ?thesis by (simp add: queued_def map_add_def)
next
  case (Some e)
  then have n: "n \<in> set (map fst ts)" using map_of_fst_iff [of ts n] by fastforce
  have "map_of new n = None" using assms(2) by (auto simp: map_of_eq_None_iff)
  with Some assms(1) ahead_append [OF n] show ?thesis by (simp add: queued_def map_add_def)
qed

lemma queued_erase: "queued n t c i ts \<Longrightarrow> queued n t c i (erase_timer m ts)"
  using ahead_erase [of n m ts]
  by (cases "n = m") (auto simp: queued_def map_of_erase_timer split: option.splits)

lemma queued_moved:
  assumes "queued n t c i ts" and "c \<le> now"
  shows "queued n t c i (erase_timer m ts @ [(m, now + inactivity_period, fd)])"
proof (cases "n = m")
  case True
  with assms(2) show ?thesis by (simp add: queued_def map_add_def map_of_erase_timer)
next
  case False
  then show ?thesis by (intro queued_new queued_erase assms(1)) simp
qed

text \<open>When the first one is moved, the others are one place nearer.\<close>

lemma queued_first_moved:
  assumes "queued n t c (Suc i) ((m, x) # ts)" and "c \<le> now"
  shows "queued n t c i (erase_timer m ((m, x) # ts) @ [(m, now + inactivity_period, fd)])"
proof (cases "n = m")
  case True
  with assms(2) show ?thesis by (simp add: queued_def map_add_def map_of_erase_timer)
next
  case False
  have "queued n t c i (erase_timer m ((m, x) # ts))"
    using assms(1) False ahead_erase_first [OF False, of x ts]
    by (auto simp: queued_def map_of_erase_timer split: option.splits)
  then show ?thesis by (rule queued_new) (use False in simp)
qed

section \<open>What a callback does to the queue\<close>

definition goes_on ::
  "('k \<Rightarrow> nat) \<Rightarrow> ('k, 'l) fd_event_monitor \<Rightarrow> ('k, 'l) fd_event_monitor \<Rightarrow> bool" where
  "goes_on clock mon mon' \<longleftrightarrow> clock (m_epoll mon) \<le> clock (m_epoll mon')
     \<and> next_node mon \<le> next_node mon'
     \<and> (\<exists>new. m_fd_activity_timestamps mon' = m_fd_activity_timestamps mon @ new
          \<and> (\<forall>e \<in> set new. next_node mon \<le> fst e))"

lemma goes_on_refl [simp]: "goes_on clock mon mon"
  by (simp add: goes_on_def)

lemma goes_on_same:
  "clock (m_epoll mon) \<le> clock (m_epoll mon') \<Longrightarrow> next_node mon' = next_node mon \<Longrightarrow>
   m_fd_activity_timestamps mon' = m_fd_activity_timestamps mon \<Longrightarrow> goes_on clock mon mon'"
  by (simp add: goes_on_def)

definition in_queue ::
  "('k \<Rightarrow> nat) \<Rightarrow> nat \<Rightarrow> nat \<Rightarrow> nat \<Rightarrow> nat \<Rightarrow> ('k, 'l) fd_event_monitor \<Rightarrow> bool" where
  "in_queue clock n t c i mon \<longleftrightarrow> n < next_node mon \<and> c \<le> clock (m_epoll mon)
     \<and> queued n t c i (m_fd_activity_timestamps mon)"

lemma in_queue_goes_on: "in_queue clock n t c i mon \<Longrightarrow> goes_on clock mon mon' \<Longrightarrow> in_queue clock n t c i mon'"
  by (force simp: in_queue_def goes_on_def intro!: queued_new)

context server_contract
begin

lemma finish_event_goes_on:
  assumes "finish_event inject eops terminated new_events fd c mon = (obj, mon', exc)"
  shows "goes_on clock mon mon'"
proof -
  obtain k r where k: "sys_epoll_mod eops (m_epoll mon) fd new_events = (k, r)" by fastforce
  with assms ep_mod [OF k] show ?thesis
    by (auto simp: finish_event_def finalize_event_def monitor_modify_def deferred_remove_def
        intro!: goes_on_same split: if_splits sys_result.splits)
qed

lemma monitor_add_goes_on:
  assumes add: "monitor_add eops (listener_destroy calls) fd l events mon = (mon', exc)"
  shows "goes_on clock mon mon'"
proof (cases "map_of (m_listeners mon) fd")
  case None
  obtain k now where k: "sys_now eops (m_epoll mon) = (k, now)" by fastforce
  obtain k1 r where k1: "sys_epoll_add eops k fd events = (k1, r)" by fastforce
  have "clock (m_epoll mon) \<le> clock k1" using ep_now [OF k] ep_add [OF k1] by simp
  moreover from this have "clock (m_epoll mon) \<le> clock (sys_close calls k1 fd)"
    using ac_close [of k1 fd] by simp
  ultimately show ?thesis
    using add None k k1
    by (cases r) (auto simp: monitor_add_def goes_on_def Let_def listener_destroy_def)
qed (use add in \<open>simp add: monitor_add_def\<close>)

lemma accept_connection_goes_on:
  assumes acc: "accept_connection eops calls srv create_session mon = (mon', exc)"
  shows "goes_on clock mon mon'"
proof -
  obtain k r where a: "inet_accept calls srv (m_epoll mon) = (k, r)" by fastforce
  note a_ok = inet_accept_ok [OF a]
  show ?thesis
  proof (cases r)
    case (Inl e)
    with acc a a_ok show ?thesis by (auto simp: accept_connection_def intro!: goes_on_same)
  next
    case (Inr x)
    obtain cfd conn where x: "x = (cfd, conn)" by (cases x)
    obtain k1 b where b: "sys_set_non_blocking calls k cfd = (k1, b)" by fastforce
    have c: "clock (m_epoll mon) \<le> clock k1" using a_ok ac_non_blocking [OF b] by simp
    show ?thesis
    proof (cases b)
      case (Failed e)
      with acc a b ac_close [of k1 cfd] c show ?thesis
        by (auto simp: accept_connection_def Inr x set_non_blocking_def checked_def intro!: goes_on_same)
    next
      case (Returned u)
      with acc a b have "monitor_add eops (listener_destroy calls) cfd (create_session conn) Read_is_possible
          (mon\<lparr>m_epoll := k1\<rparr>) = (mon', exc)"
        by (simp add: accept_connection_def Inr x set_non_blocking_def checked_def)
      from monitor_add_goes_on [OF this] c show ?thesis by (auto simp: goes_on_def)
    qed
  qed
qed

lemma listener_is_ready_goes_on:
  assumes call: "listener_is_ready eops calls kops hops req_handler l fd mon = (obj, mon', exc)"
  shows "goes_on clock mon mon'"
proof (cases l)
  case (Adm_connection c)
  obtain conn st mon1 where a: "adm_socket_is_ready kops (ceh_session c) mon = (conn, st, mon1)"
    by (metis prod_cases3)
  then have "goes_on clock mon mon'' = goes_on clock mon1 mon''" for mon'' :: "('k, 'c, _) server_monitor"
    by (auto simp: adm_socket_is_ready_def goes_on_def deferred_clear_def split: prod.splits if_splits)
  with call a show ?thesis
    by (auto simp: listener_is_ready_def Adm_connection adm_connection_event_def
        dest: finish_event_goes_on)
next
  case (Http_connection c)
  with call show ?thesis
    by (auto simp: listener_is_ready_def http_connection_event_def dest: finish_event_goes_on
        split: option.splits sum.splits)
qed (use call in \<open>auto simp: listener_is_ready_def dest: accept_connection_goes_on\<close>)

lemma listener_is_idle_goes_on:
  "listener_is_idle eops kops hops l fd mon = (obj, mon', exc) \<Longrightarrow> goes_on clock mon mon'"
  by (auto simp: listener_is_idle_def http_connection_event_def adm_connection_event_def
      dest: finish_event_goes_on split: listener_object.splits sum.splits)

end

section \<open>What a cycle does to the queue\<close>

context server_contract
begin

lemma touch_timer_queue:
  assumes "in_queue clock n t c i mon" and "touch_timer eops m mon = (mon', exc)"
  shows "in_queue clock n t c i mon'"
proof -
  obtain k now where k: "sys_now eops (m_epoll mon) = (k, now)" by fastforce
  note nw = ep_now [OF k]
  have c: "c \<le> now" "c \<le> clock k" using assms(1) nw by (simp_all add: in_queue_def)
  from assms k c queued_moved [OF _ c(1)] show ?thesis
    by (auto simp: touch_timer_def in_queue_def Let_def split: option.splits)
qed

lemma call_listener_queue:
  assumes cb: "\<And>obj mon1 exc1. callback (m_object l) fd mon = (obj, mon1, exc1) \<Longrightarrow> goes_on clock mon mon1"
    and q: "in_queue clock n t c i mon" and call: "call_listener eops callback fd l mon = (mon', exc)"
  shows "in_queue clock n t c i mon'"
proof -
  obtain obj mon1 exc1 where run: "callback (m_object l) fd mon = (obj, mon1, exc1)"
    by (cases "callback (m_object l) fd mon")
  let ?mon = "mon1\<lparr>m_listeners := set_object fd obj (m_listeners mon1)\<rparr>"
  have "in_queue clock n t c i ?mon"
    using in_queue_goes_on [OF q cb [OF run]] by (simp add: in_queue_def)
  with call run show ?thesis
    by (cases exc1) (auto simp: call_listener_def run_then_def dest: touch_timer_queue)
qed

text \<open>The first of the queue is called, and returns.\<close>

lemma call_first_queue:
  assumes cb: "\<And>obj mon1 exc1. callback (m_object l) fd mon = (obj, mon1, exc1) \<Longrightarrow> goes_on clock mon mon1"
    and q: "in_queue clock n t c (Suc i) mon" and call: "call_listener eops callback fd l mon = (mon', None)"
    and first: "m_fd_activity_timestamps mon = (m_timer l, x) # ts"
  shows "in_queue clock n t c i mon'"
proof -
  obtain obj mon1 exc1 where run: "callback (m_object l) fd mon = (obj, mon1, exc1)"
    by (cases "callback (m_object l) fd mon")
  let ?mon = "mon1\<lparr>m_listeners := set_object fd obj (m_listeners mon1)\<rparr>"
  note on = cb [OF run]
  have q1: "in_queue clock n t c (Suc i) ?mon"
    using in_queue_goes_on [OF q on] by (simp add: in_queue_def)
  obtain new where ts: "m_fd_activity_timestamps ?mon = (m_timer l, x) # (ts @ new)"
    using on first by (auto simp: goes_on_def)
  have touch: "touch_timer eops (m_timer l) ?mon = (mon', None)"
    using call run by (cases exc1) (simp_all add: call_listener_def run_then_def)
  obtain k now where k: "sys_now eops (m_epoll ?mon) = (k, now)" by fastforce
  note nw = ep_now [OF k]
  have c: "c \<le> now" "c \<le> clock k" using q1 nw by (simp_all add: in_queue_def)
  have "queued n t c i (erase_timer (m_timer l) ((m_timer l, x) # (ts @ new))
      @ [(m_timer l, now + inactivity_period, fd')])" for fd'
    using q1 ts by (intro queued_first_moved c(1)) (simp add: in_queue_def)
  with touch k ts q1 c(2) show ?thesis
    by (cases x) (auto simp: touch_timer_def in_queue_def Let_def)
qed

lemma dispatch_events_queue:
  assumes "\<And>l fd mon obj mon' exc. call_fd_is_ready lops l fd mon = (obj, mon', exc) \<Longrightarrow> goes_on clock mon mon'"
  shows "in_queue clock n t c i mon \<Longrightarrow> dispatch_events eops lops events mon = (mon', exc) \<Longrightarrow>
    in_queue clock n t c i mon'"
  by (rule dispatch_events_keeps) (rule call_listener_queue [OF assms])

lemma remove_fds_queue:
  assumes "destroy_contract watched clock destroy"
  shows "in_queue clock n t c i mon \<Longrightarrow> remove_fds eops destroy fds mon = (mon', exc) \<Longrightarrow>
    in_queue clock n t c i mon'"
proof (induction fds arbitrary: mon)
  case (Cons fd fds)
  obtain k r where k: "sys_epoll_del eops (m_epoll mon) fd = (k, r)" by fastforce
  have q: "in_queue clock n t c i (mon\<lparr>m_epoll := k\<rparr>)"
    using Cons.prems(1) ep_del [OF k] by (simp add: in_queue_def)
  show ?case
  proof (cases "map_of (m_listeners mon) fd")
    case None
    with Cons.prems(2) q k show ?thesis by (simp add: Let_def)
  next
    case (Some l)
    let ?mon = "mon\<lparr>m_epoll := destroy (m_object l) fd k,
      m_fd_activity_timestamps := erase_timer (m_timer l) (m_fd_activity_timestamps mon),
      m_listeners := erase_listener fd (m_listeners mon)\<rparr>"
    have "in_queue clock n t c i ?mon"
      using q destroy_contractD(2) [OF assms, of k "m_object l" fd]
      by (auto simp: in_queue_def queued_erase intro: order_trans)
    with Cons.IH [OF this] Cons.prems(2) q k Some show ?thesis
      by (simp add: Let_def split: if_splits)
  qed
qed simp

lemma flush_queue:
  assumes "destroy_contract watched clock destroy" and q: "in_queue clock n t c i mon"
    and flush: "flush_fds_to_remove eops destroy mon = (mon', None)"
  shows "in_queue clock n t c i mon'"
proof (cases "m_reg_should_be_cleared mon")
  case True
  obtain k r where k: "sys_epoll_create eops (m_epoll mon) = (k, r)" by fastforce
  have "c \<le> clock (destroy_all destroy (m_listeners mon) k)"
    using q ep_create [OF k] destroy_all_ok(1) [OF assms(1), of k "m_listeners mon"]
    by (simp add: in_queue_def)
  with flush True k q show ?thesis
    by (cases r) (auto simp: flush_fds_to_remove_def fd_event_monitor_init_def in_queue_def queued_def)
next
  case False
  obtain mon1 exc1 where r: "remove_fds eops destroy (m_fds_to_remove mon) mon = (mon1, exc1)" by fastforce
  from remove_fds_queue [OF assms(1) q r] flush False r show ?thesis
    by (cases exc1) (auto simp: flush_fds_to_remove_def run_then_def in_queue_def)
qed

end

context http_sessions
begin

text \<open>
  The idle loop, when the deadline of \<open>n\<close> has passed: the first of the queue is called,
  for its deadline is no later.
\<close>

lemma process_idle_queue:
  assumes inv: "monitor_inv watched clock mon" and ok: "listeners_ok watched (listener_ok p_ok) mon"
    and late: "removed_late c0 mon" "c0 \<le> clock (m_epoll mon)"
    and now: "sys_now eops (m_epoll mon) = (k, now)" "now < c0 + inactivity_period"
    and idle: "process_idle_fds eops (server_ops eops calls kops hops req_handler) mon = Some (mon', None)"
    and q: "in_queue clock n t c i mon" and passed: "t \<le> clock (m_epoll mon)"
  shows "in_queue clock n t c (i - 1) mon'"
proof -
  let ?mon = "mon\<lparr>m_epoll := k\<rparr>" and ?idle = "listener_is_idle eops kops hops"
  have clk: "clock (m_epoll mon) \<le> now" "now = clock k" using ep_now [OF now(1)] by simp_all
  have q': "in_queue clock n t c i ?mon" using q clk by (simp add: in_queue_def)
  note once = server.process_idle_once(1) [OF inv ok late now(1,2)]
  show ?thesis
  proof (cases "m_fd_activity_timestamps mon")
    case Nil
    with once idle q' show ?thesis by (auto simp: in_queue_def queued_def)
  next
    case (Cons e ts)
    obtain m u fd where e: "e = (m, u, fd)" by (cases e)
    obtain l where l: "map_of (m_listeners mon) fd = Some l" "m_timer l = m"
      using inv timers_matchD(3) [of "m_listeners mon" "m_fd_activity_timestamps mon" m u fd]
      by (auto simp: monitor_inv_def Cons e)
    show ?thesis
    proof (cases "now < u")
      case True
      have "t < v" if "map_of (m_fd_activity_timestamps mon) n = Some (v, f)" for v f
      proof -
        have "u \<le> v" using inv map_of_SomeD [OF that]
          by (force simp: monitor_inv_def Cons e deadlines_def)
        with True clk passed show ?thesis by simp
      qed
      with q' have "in_queue clock n t c (i - 1) ?mon"
        by (fastforce simp: in_queue_def queued_def split: option.splits)
      with once idle True show ?thesis by (simp add: Cons e)
    next
      case False
      with once idle l have call: "call_listener eops ?idle fd l ?mon = (mon', None)"
        by (simp add: Cons e server_ops_def)
      show ?thesis
      proof (cases i)
        case 0
        with call_listener_queue [OF listener_is_idle_goes_on q' call] show ?thesis by simp
      next
        case (Suc j)
        have "m_fd_activity_timestamps ?mon = (m_timer l, u, fd) # ts" by (simp add: Cons e l)
        from call_first_queue [OF listener_is_idle_goes_on q' [unfolded Suc] call this] Suc
        show ?thesis by simp
      qed
    qed
  qed
qed

lemma cycle_queue:
  assumes ok: "server_ok watched clock p_ok mon"
    and quick: "quick_cycle eops (server_ops eops calls kops hops req_handler) clock mon"
    and cycle: "wait_for_and_dispatch_events eops (server_ops eops calls kops hops req_handler) mon
      = Some (mon', Inr again)"
    and q: "in_queue clock n t c i mon" and passed: "t \<le> clock (m_epoll mon)"
  shows "in_queue clock n t c (i - 1) mon'"
proof (cases "m_listeners mon")
  case Nil
  have "map_of (m_fd_activity_timestamps mon) n = None"
  proof (cases "map_of (m_fd_activity_timestamps mon) n")
    case (Some e)
    obtain u fd where "e = (u, fd)" by (cases e)
    with Some ok timers_matchD(3) [of "m_listeners mon" "m_fd_activity_timestamps mon" n u fd] Nil
    show ?thesis by (auto simp: server_ok_def monitor_inv_def)
  qed
  with q cycle Nil show ?thesis by (auto simp: wait_for_and_dispatch_events_def in_queue_def queued_def)
next
  case Cons
  then have ls: "m_listeners mon \<noteq> []" by simp
  let ?lops = "server_ops eops calls kops hops req_handler" and ?c0 = "clock (m_epoll mon)"
  obtain k w where k: "sys_epoll_wait eops (m_epoll mon) (length (m_listeners mon)) = (k, w)" by fastforce
  note wt = ep_wait [OF k]
  obtain events where w: "w = Returned events"
    using cycle ls by (cases w) (auto simp: wait_for_and_dispatch_events_def k Let_def)
  let ?mon0 = "(grow_event_buffer mon)\<lparr>m_epoll := k\<rparr>"
  obtain mon1 exc1 where d: "dispatch_events eops ?lops events ?mon0 = (mon1, exc1)" by fastforce
  have exc1: "exc1 = None"
    using cycle ls by (cases exc1) (simp_all add: wait_for_and_dispatch_events_def k w d Let_def)
  obtain mon2 where i: "process_idle_fds eops ?lops mon1 = Some (mon2, None)"
    and f: "flush_fds_to_remove eops (call_destroy ?lops) mon2 = (mon', None)"
    using cycle ls
    by (auto simp: wait_for_and_dispatch_events_def k w d exc1 Let_def split: option.splits prod.splits)
  have inv0: "monitor_inv watched clock ?mon0" and ok0: "listeners_ok watched (listener_ok p_ok) ?mon0"
    using ok wt by (auto simp: server_ok_def monitor_inv_def listeners_ok_def intro: order_trans)
  have ev: "set events \<subseteq> dom (map_of (m_listeners ?mon0))"
  proof
    fix fd assume "fd \<in> set events"
    then have "fd \<in> dom (watched (m_epoll mon))" using wt w by auto
    with ok show "fd \<in> dom (map_of (m_listeners ?mon0))" by (simp add: server_ok_def monitor_inv_def)
  qed
  have d_ok: "?c0 \<le> clock (m_epoll mon1) \<and> monitor_inv watched clock mon1
      \<and> listeners_ok watched (listener_ok p_ok) mon1 \<and> removed_late ?c0 mon1"
    using server.dispatch_events_ok [OF d inv0 ok0 _ _ _ ev, of ?c0] wt ok w
    by (simp add: exc1 server_ok_def)
  have "in_queue clock n t c i ?mon0" using q wt by (auto simp: in_queue_def)
  from dispatch_events_queue [OF _ this d] have q1: "in_queue clock n t c i mon1"
    by (simp add: server_ops_def listener_is_ready_goes_on)
  obtain k1 now where now: "sys_now eops (m_epoll mon1) = (k1, now)" by fastforce
  have soon: "now < ?c0 + inactivity_period" using quick by (simp add: quick_cycle_def k w d exc1 now)
  have "in_queue clock n t c (i - 1) mon2"
    by (rule process_idle_queue [OF _ _ _ _ now soon i q1]) (use d_ok passed in simp_all)
  from flush_queue [OF _ this f] show ?thesis by (simp add: server_ops_def listener_destroy_ok)
qed

end

section \<open>Being called\<close>

text \<open>
  In a cycle, the listener of descriptor \<open>fd\<close> whose node is \<open>n\<close> is called: \<open>fd_is_ready\<close> for an
  event of its descriptor, in its turn, or \<open>fd_is_idle\<close> by the idle loop; and that has run,
  which is what \<open>callback_ran\<close> says of the states before and after.
\<close>

definition called_in_cycle ::
  "'k epoll_ops \<Rightarrow> ('k, 'l) listener_ops \<Rightarrow> ('k \<Rightarrow> nat) \<Rightarrow> fd \<Rightarrow> nat \<Rightarrow> ('k, 'l) fd_event_monitor \<Rightarrow> bool" where
  "called_in_cycle eops lops clock fd n mon \<longleftrightarrow>
     (\<exists>k events l mon1 mon2. m_timer l = n
        \<and> sys_epoll_wait eops (m_epoll mon) (length (m_listeners mon)) = (k, Returned events)
        \<and> ((\<exists>before after. events = before @ fd # after
              \<and> dispatch_events eops lops before ((grow_event_buffer mon)\<lparr>m_epoll := k\<rparr>) = (mon1, None)
              \<and> dispatch_events eops lops (before @ [fd]) ((grow_event_buffer mon)\<lparr>m_epoll := k\<rparr>) = (mon2, None)
              \<and> callback_ran clock (call_fd_is_ready lops) fd l mon1 mon2)
           \<or> (dispatch_events eops lops events ((grow_event_buffer mon)\<lparr>m_epoll := k\<rparr>) = (mon1, None)
              \<and> process_idle_fds eops lops mon1 = Some (mon2, None)
              \<and> callback_ran clock (call_fd_is_idle lops) fd l
                  (mon1\<lparr>m_epoll := fst (sys_now eops (m_epoll mon1))\<rparr>) mon2)))"

lemma dispatch_events_append:
  "dispatch_events eops lops (xs @ ys) mon =
     run_then (dispatch_events eops lops xs mon) (dispatch_events eops lops ys)"
proof (induction xs arbitrary: mon)
  case Nil
  show ?case by (simp add: run_then_def)
next
  case (Cons x xs)
  show ?case
    by (simp add: run_then_def Cons.IH split: prod.splits option.splits)
qed

context listener_contract
begin

text \<open>What holds between the calls of a cycle, with the node of \<open>fd\<close> untouched so far.\<close>

definition waits_on :: "nat \<Rightarrow> fd \<Rightarrow> nat \<Rightarrow> nat \<Rightarrow> ('k, 'l) fd_event_monitor \<Rightarrow> bool" where
  "waits_on c0 fd n t mon \<longleftrightarrow> monitor_inv watched clock mon \<and> listeners_ok watched l_ok mon
     \<and> removed_late c0 mon \<and> c0 \<le> clock (m_epoll mon)
     \<and> fd \<notin> set (m_fds_to_remove mon) \<and> map_of (m_fd_activity_timestamps mon) n = Some (t, fd)"

lemma waits_on_listener:
  assumes "waits_on c0 fd n t mon"
  shows "\<exists>l. map_of (m_listeners mon) fd = Some l \<and> m_timer l = n"
  using assms timers_matchD(3) [of "m_listeners mon" "m_fd_activity_timestamps mon" n t fd]
  by (simp add: waits_on_def monitor_inv_def)

lemma other_called_waits_on:
  assumes w: "waits_on c0 fd n t mon" and cb: "callback_contract watched clock l_ok callback"
    and l: "map_of (m_listeners mon) fd' = Some l" and other: "fd' \<noteq> fd"
    and here: "fd' \<notin> set (m_fds_to_remove mon)"
    and call: "call_listener eops callback fd' l mon = (mon', None)"
  shows "waits_on c0 fd n t mon'"
proof -
  have pre: "monitor_inv watched clock mon" "listeners_ok watched l_ok mon" "removed_late c0 mon"
      "c0 \<le> clock (m_epoll mon)" "fd \<notin> set (m_fds_to_remove mon)"
      "map_of (m_fd_activity_timestamps mon) n = Some (t, fd)"
    using w by (simp_all add: waits_on_def)
  from call_listener_ok [OF cb pre(1,2) l here pre(3,4) call]
    call_listener_effect(3) [OF cb pre(1,2) l here call pre(6)] other pre(4,5)
  show ?thesis by (auto simp: waits_on_def)
qed

lemma dispatch_waits_on:
  assumes "dispatch_events eops lops events mon = (mon', None)" and "waits_on c0 fd n t mon"
    and "fd \<notin> set events" and "distinct events" and "set events \<subseteq> dom (map_of (m_listeners mon))"
    and "set events \<inter> set (m_fds_to_remove mon) = {}"
  shows "waits_on c0 fd n t mon'"
  using assms
proof (induction events arbitrary: mon)
  case (Cons x events)
  obtain l where l: "map_of (m_listeners mon) x = Some l" using Cons.prems(5) by auto
  obtain mon1 exc1 where call: "call_listener eops (call_fd_is_ready lops) x l mon = (mon1, exc1)"
    by fastforce
  have exc1: "exc1 = None" and rest: "dispatch_events eops lops events mon1 = (mon', None)"
    using Cons.prems(1) l call by (cases exc1; simp add: run_then_def)+
  have here: "x \<notin> set (m_fds_to_remove mon)" and other: "x \<noteq> fd" using Cons.prems(3,6) by auto
  have "monitor_inv watched clock mon" "listeners_ok watched l_ok mon" "removed_late c0 mon"
    "c0 \<le> clock (m_epoll mon)" using Cons.prems(2) by (simp_all add: waits_on_def)
  note one = call_listener_ok [OF ready_contract this(1,2) l here this(3,4) call]
  have "set events \<subseteq> dom (map_of (m_listeners mon1))"
  proof -
    have "dom (map_of (m_listeners mon)) \<subseteq> dom (map_of (m_listeners mon1))" using one exc1 by simp
    with Cons.prems(5) show ?thesis by (meson order_trans set_subset_Cons)
  qed
  moreover have "set events \<inter> set (m_fds_to_remove mon1) = {}"
    using one exc1 Cons.prems(4,6) by auto
  ultimately show ?case
    using Cons.IH [OF rest other_called_waits_on [OF Cons.prems(2) ready_contract l other here call [unfolded exc1]]]
      Cons.prems(3,4) by simp
qed simp

text \<open>A listener among the ready ones is called.\<close>

lemma ready_is_called:
  assumes d: "dispatch_events eops lops events mon = (mon', None)" and w: "waits_on c0 fd n t mon"
    and fd: "fd \<in> set events" and ev: "distinct events" "set events \<subseteq> dom (map_of (m_listeners mon))"
    and none: "m_fds_to_remove mon = []"
  shows "\<exists>before after mon1 mon2 l. events = before @ fd # after \<and> m_timer l = n
    \<and> dispatch_events eops lops before mon = (mon1, None)
    \<and> dispatch_events eops lops (before @ [fd]) mon = (mon2, None)
    \<and> callback_ran clock (call_fd_is_ready lops) fd l mon1 mon2"
proof -
  obtain before after where e: "events = before @ fd # after" "fd \<notin> set before"
    using split_list_first [OF fd] by blast
  have d': "run_then (dispatch_events eops lops before mon) (dispatch_events eops lops (fd # after)) = (mon', None)"
    using d by (simp only: e(1) dispatch_events_append)
  then obtain mon1 where d1: "dispatch_events eops lops before mon = (mon1, None)"
    by (auto simp: run_then_def split: prod.splits option.splits)
  have w1: "waits_on c0 fd n t mon1"
    by (rule dispatch_waits_on [OF d1 w]) (use e ev none in auto)
  from waits_on_listener [OF this] obtain l where l: "map_of (m_listeners mon1) fd = Some l" "m_timer l = n"
    by blast
  obtain mon2 exc where call: "call_listener eops (call_fd_is_ready lops) fd l mon1 = (mon2, exc)"
    by fastforce
  have exc: "exc = None" using d' d1 l(1) call by (cases exc) (simp_all add: run_then_def)
  have "dispatch_events eops lops (before @ [fd]) mon = (mon2, None)"
    using d1 l(1) call exc by (simp add: dispatch_events_append run_then_def)
  moreover have "callback_ran clock (call_fd_is_ready lops) fd l mon1 mon2"
    using w1 call exc
    by (intro call_listener_effect(1) [OF ready_contract _ _ l(1)]) (simp_all add: waits_on_def)
  ultimately show ?thesis using e(1) d1 l(2) by blast
qed

text \<open>The idle loop calls the listener, or leaves its node alone.\<close>

lemma idle_is_called:
  assumes w: "waits_on c0 fd n t mon" and now: "sys_now eops (m_epoll mon) = (k, now)"
    and soon: "now < c0 + inactivity_period"
    and idle: "process_idle_fds eops lops mon = Some (mon', None)"
  shows "waits_on c0 fd n t mon'
    \<or> (\<exists>l. m_timer l = n \<and> callback_ran clock (call_fd_is_idle lops) fd l (mon\<lparr>m_epoll := k\<rparr>) mon')"
proof -
  let ?mon = "mon\<lparr>m_epoll := k\<rparr>"
  note nw = ep_now [OF now]
  have pre: "monitor_inv watched clock mon" "listeners_ok watched l_ok mon" "removed_late c0 mon"
    "c0 \<le> clock (m_epoll mon)" using w by (simp_all add: waits_on_def)
  have "monitor_inv watched clock ?mon" using pre nw by (intro monitor_inv_epoll) simp_all
  moreover have "listeners_ok watched l_ok ?mon" using pre nw by (intro listeners_ok_epoll) simp_all
  ultimately have w': "waits_on c0 fd n t ?mon"
    using w nw by (simp add: waits_on_def removed_late_def)
  note once = process_idle_once(1) [OF pre now soon, unfolded idle]
  show ?thesis
  proof (cases "m_fd_activity_timestamps mon")
    case Nil
    with w show ?thesis by (simp add: waits_on_def)
  next
    case (Cons e ts)
    obtain m u fd' where e: "e = (m, u, fd')" by (cases e)
    have match: "timers_match (m_listeners mon) ((m, u, fd') # ts)"
      using pre(1) by (simp add: monitor_inv_def Cons e)
    from timers_matchD(3) [OF this, of m u fd'] obtain l where
      l: "map_of (m_listeners mon) fd' = Some l" "m_timer l = m" by auto
    show ?thesis
    proof (cases "now < u")
      case True
      with once w' show ?thesis by (simp add: Cons e)
    next
      case False
      with once l have call: "call_listener eops (call_fd_is_idle lops) fd' l ?mon = (mon', None)"
        by (simp add: Cons e)
      have here: "fd' \<notin> set (m_fds_to_remove ?mon)"
      proof
        assume "fd' \<in> set (m_fds_to_remove ?mon)"
        with pre(3) obtain m' v where v: "map_of (m_fd_activity_timestamps mon) m' = Some (v, fd')"
          "c0 + inactivity_period \<le> v" by (auto simp: removed_late_def)
        from timers_matchD(3) [OF match, of m' v fd'] v(1) l have "m' = m" by (simp add: Cons e)
        with v False soon show False by (simp add: Cons e)
      qed
      have l': "map_of (m_listeners ?mon) fd' = Some l" using l by simp
      show ?thesis
      proof (cases "fd' = fd")
        case True
        from waits_on_listener [OF w] l True have "m_timer l = n" by auto
        moreover have "callback_ran clock (call_fd_is_idle lops) fd l ?mon mon'"
          using w' call_listener_effect(1) [OF idle_contract _ _ l' here call] True
          by (simp add: waits_on_def)
        ultimately show ?thesis by blast
      next
        case False
        from other_called_waits_on [OF w' idle_contract l' False here call] show ?thesis ..
      qed
    qed
  qed
qed

text \<open>Dropping listeners moves no deadline.\<close>

lemma remove_fds_nodes:
  "remove_fds eops destroy fds mon = (mon', exc) \<Longrightarrow>
   set (m_fd_activity_timestamps mon') \<subseteq> set (m_fd_activity_timestamps mon)"
proof (induction fds arbitrary: mon)
  case (Cons fd fds)
  have "set (erase_timer n ts) \<subseteq> set ts" for n and ts :: fd_activity_list by (auto simp: erase_timer_def)
  with Cons.prems Cons.IH show ?case
    by (fastforce simp: Let_def split: option.splits if_splits)
qed simp

lemma flush_waits_on:
  assumes w: "waits_on c0 fd n t mon" and flush: "flush_fds_to_remove eops (call_destroy lops) mon = (mon', None)"
  shows "m_listeners mon' = [] \<or> map_of (m_fd_activity_timestamps mon') n = Some (t, fd)"
proof (cases "m_reg_should_be_cleared mon")
  case True
  with flush show ?thesis
    by (auto simp: flush_fds_to_remove_def fd_event_monitor_init_def split: prod.splits sys_result.splits)
next
  case False
  have inv: "monitor_inv watched clock mon" and ok: "listeners_ok watched l_ok mon"
    and n: "map_of (m_fd_activity_timestamps mon) n = Some (t, fd)"
    using w by (simp_all add: waits_on_def)
  from flush_fds_to_remove_ok [OF lops_destroy inv ok flush] False
  have inv': "monitor_inv watched clock mon'"
    and ls: "map_of (m_listeners mon') = map_of (m_listeners mon) |` (- set (m_fds_to_remove mon))" by simp_all
  from waits_on_listener [OF w] w ls obtain l where "map_of (m_listeners mon') fd = Some l" "m_timer l = n"
    by (auto simp: waits_on_def)
  with timers_matchD(4) inv' obtain u where u: "map_of (m_fd_activity_timestamps mon') n = Some (u, fd)"
    unfolding monitor_inv_def by blast
  obtain mon1 where "remove_fds eops (call_destroy lops) (m_fds_to_remove mon) mon = (mon1, None)"
    "mon' = mon1\<lparr>m_fds_to_remove := []\<rparr>"
    using flush False by (auto simp: flush_fds_to_remove_def run_then_def split: prod.splits option.splits)
  from remove_fds_nodes [OF this(1)] this(2) map_of_SomeD [OF u]
  have "(n, u, fd) \<in> set (m_fd_activity_timestamps mon)" by auto
  then have "map_of (m_fd_activity_timestamps mon) n = Some (u, fd)"
    using inv timers_matchD(2) by (intro map_of_is_SomeI) (auto simp: monitor_inv_def)
  with n u show ?thesis by simp
qed

text \<open>In a cycle the listener is called, or its deadline is as before, or nothing is left.\<close>

lemma cycle_calls:
  assumes inv: "monitor_inv watched clock mon" and ok: "listeners_ok watched l_ok mon"
    and none: "m_fds_to_remove mon = []" and quick: "quick_cycle eops lops clock mon"
    and cycle: "wait_for_and_dispatch_events eops lops mon = Some (mon', Inr again)"
    and n: "map_of (m_fd_activity_timestamps mon) n = Some (t, fd)"
  shows "called_in_cycle eops lops clock fd n mon \<or> m_listeners mon' = []
    \<or> map_of (m_fd_activity_timestamps mon') n = Some (t, fd)"
proof -
  let ?c0 = "clock (m_epoll mon)"
  from timers_matchD(3) [of "m_listeners mon" "m_fd_activity_timestamps mon" n t fd] inv n
  have ls: "m_listeners mon \<noteq> []" by (auto simp: monitor_inv_def)
  obtain k w where k: "sys_epoll_wait eops (m_epoll mon) (length (m_listeners mon)) = (k, w)" by fastforce
  note wt = ep_wait [OF k]
  let ?waited = "(grow_event_buffer mon)\<lparr>m_epoll := k\<rparr>"
  obtain events where e: "w = Returned events"
    using cycle ls by (cases w) (auto simp: wait_for_and_dispatch_events_def k Let_def)
  obtain mon1 exc1 where d1: "dispatch_events eops lops events ?waited = (mon1, exc1)" by fastforce
  with cycle ls have exc1: "exc1 = None"
    by (cases exc1) (simp_all add: wait_for_and_dispatch_events_def k e Let_def)
  note d = d1 [unfolded exc1]
  obtain mon2 where i: "process_idle_fds eops lops mon1 = Some (mon2, None)"
    and f: "flush_fds_to_remove eops (call_destroy lops) mon2 = (mon', None)"
    using cycle ls
    by (auto simp: wait_for_and_dispatch_events_def k e d Let_def split: option.splits prod.splits)
  have "monitor_inv watched clock ?waited" "listeners_ok watched l_ok ?waited"
    using inv ok wt by (auto simp: monitor_inv_def listeners_ok_def intro: order_trans)
  then have w: "waits_on ?c0 fd n t ?waited"
    using n none wt by (simp add: waits_on_def)
  have ev: "distinct events" "set events \<subseteq> dom (map_of (m_listeners ?waited))"
    using wt e inv by (auto simp: monitor_inv_def)
  have empty: "m_fds_to_remove ?waited = []" using none by simp
  show ?thesis
  proof (cases "fd \<in> set events")
    case True
    from ready_is_called [OF d w this ev empty] k e show ?thesis unfolding called_in_cycle_def by blast
  next
    case False
    have w1: "waits_on ?c0 fd n t mon1"
      by (rule dispatch_waits_on [OF d w False ev]) (simp add: none)
    obtain k1 now where now: "sys_now eops (m_epoll mon1) = (k1, now)" by fastforce
    have soon: "now < ?c0 + inactivity_period" using quick by (simp add: quick_cycle_def k e d now)
    from idle_is_called [OF w1 now soon i] show ?thesis
    proof
      assume "waits_on ?c0 fd n t mon2"
      from flush_waits_on [OF this f] show ?thesis by blast
    next
      assume "\<exists>l. m_timer l = n \<and> callback_ran clock (call_fd_is_idle lops) fd l (mon1\<lparr>m_epoll := k1\<rparr>) mon2"
      with k e d i now show ?thesis unfolding called_in_cycle_def by (metis fst_conv)
    qed
  qed
qed

end

section \<open>Bounded waiting\<close>

text \<open>A part of a run, with the number of cycles in it.\<close>

inductive server_cycles ::
  "'k epoll_ops \<Rightarrow> ('k, ('c, 'h) listener_object) listener_ops \<Rightarrow> ('k \<Rightarrow> fd \<Rightarrow> listen_on option) \<Rightarrow>
   ('k \<Rightarrow> fd set) \<Rightarrow> ('k \<Rightarrow> nat) \<Rightarrow> ('c \<Rightarrow> 'c \<Rightarrow> bool) \<Rightarrow> nat \<Rightarrow>
   ('k, 'c, 'h) server_monitor \<Rightarrow> ('k, 'c, 'h) server_monitor \<Rightarrow> bool"
  for eops lops watched opened clock stream_step where
  cycles_begin: "server_cycles eops lops watched opened clock stream_step 0 mon mon"
| cycles_cycle: "server_cycles eops lops watched opened clock stream_step j mon mon1 \<Longrightarrow>
    quick_cycle eops lops clock mon1 \<Longrightarrow>
    wait_for_and_dispatch_events eops lops mon1 = Some (mon2, Inr again) \<Longrightarrow>
    server_cycles eops lops watched opened clock stream_step (Suc j) mon mon2"
| cycles_kernel: "server_cycles eops lops watched opened clock stream_step j mon mon1 \<Longrightarrow>
    watched k = watched (m_epoll mon1) \<Longrightarrow> opened k = opened (m_epoll mon1) \<Longrightarrow>
    clock (m_epoll mon1) \<le> clock k \<Longrightarrow>
    server_cycles eops lops watched opened clock stream_step j mon (mon1\<lparr>m_epoll := k\<rparr>)"
| cycles_peer: "server_cycles eops lops watched opened clock stream_step j mon mon1 \<Longrightarrow>
    map_of (m_listeners mon1) fd = Some l \<Longrightarrow>
    listener_stream (m_object l) = Some c \<Longrightarrow> stream_step c c' \<Longrightarrow>
    server_cycles eops lops watched opened clock stream_step j mon
      (mon1\<lparr>m_listeners := set_object fd (with_stream c' (m_object l)) (m_listeners mon1)\<rparr>)"

lemma server_cycles_run:
  assumes "server_cycles eops lops watched opened clock stream_step j mon mon'"
    and "server_run eops lops watched opened clock stream_step mon0 mon"
  shows "server_run eops lops watched opened clock stream_step mon0 mon'"
  using assms
proof (induction rule: server_cycles.induct)
  case (cycles_cycle j mon mon1 mon2 again)
  then show ?case by (blast intro: run_cycle)
next
  case (cycles_kernel j mon mon1 k)
  then show ?case by (blast intro: run_kernel)
next
  case (cycles_peer j mon mon1 fd l c c')
  then show ?case by (blast intro: run_peer)
qed

text \<open>In one of the cycles of a part of a run the listener is called.\<close>

definition called_during ::
  "'k epoll_ops \<Rightarrow> ('k, ('c, 'h) listener_object) listener_ops \<Rightarrow> ('k \<Rightarrow> fd \<Rightarrow> listen_on option) \<Rightarrow>
   ('k \<Rightarrow> fd set) \<Rightarrow> ('k \<Rightarrow> nat) \<Rightarrow> ('c \<Rightarrow> 'c \<Rightarrow> bool) \<Rightarrow> fd \<Rightarrow> nat \<Rightarrow> nat \<Rightarrow>
   ('k, 'c, 'h) server_monitor \<Rightarrow> ('k, 'c, 'h) server_monitor \<Rightarrow> bool" where
  "called_during eops lops watched opened clock stream_step fd n j mon mon' \<longleftrightarrow>
     (\<exists>i mon1 mon2 again. i < j
        \<and> server_cycles eops lops watched opened clock stream_step i mon mon1
        \<and> called_in_cycle eops lops clock fd n mon1
        \<and> wait_for_and_dispatch_events eops lops mon1 = Some (mon2, Inr again)
        \<and> server_cycles eops lops watched opened clock stream_step (j - Suc i) mon2 mon')"

lemma called_during_now:
  assumes "server_cycles eops lops watched opened clock stream_step j mon mon1"
    and "wait_for_and_dispatch_events eops lops mon1 = Some (mon2, Inr again)"
    and "called_in_cycle eops lops clock fd n mon1"
  shows "called_during eops lops watched opened clock stream_step fd n (Suc j) mon mon2"
  unfolding called_during_def
  by (rule exI [of _ j], rule exI [of _ mon1], rule exI [of _ mon2], rule exI [of _ again])
     (use assms cycles_begin in auto)

lemma called_during_more:
  assumes "called_during eops lops watched opened clock stream_step fd n j mon mon1"
    and "quick_cycle eops lops clock mon1"
    and "wait_for_and_dispatch_events eops lops mon1 = Some (mon2, Inr again)"
  shows "called_during eops lops watched opened clock stream_step fd n (Suc j) mon mon2"
proof -
  from assms(1) obtain i m1 m2 again1 where i: "i < j"
    "server_cycles eops lops watched opened clock stream_step i mon m1"
    "called_in_cycle eops lops clock fd n m1"
    "wait_for_and_dispatch_events eops lops m1 = Some (m2, Inr again1)"
    "server_cycles eops lops watched opened clock stream_step (j - Suc i) m2 mon1"
    unfolding called_during_def by blast
  have "server_cycles eops lops watched opened clock stream_step (Suc (j - Suc i)) m2 mon2"
    by (rule cycles_cycle [OF i(5) assms(2,3)])
  moreover have "Suc (j - Suc i) = Suc j - Suc i" "i < Suc j" using i(1) by simp_all
  ultimately show ?thesis unfolding called_during_def using i(2-4) by metis
qed

lemma called_during_same:
  assumes "called_during eops lops watched opened clock stream_step fd n j mon mon1"
    and "\<And>i m. server_cycles eops lops watched opened clock stream_step i m mon1 \<Longrightarrow>
      server_cycles eops lops watched opened clock stream_step i m mon2"
  shows "called_during eops lops watched opened clock stream_step fd n j mon mon2"
  using assms unfolding called_during_def by blast

text \<open>There are no more deadlines than listeners.\<close>

lemma timers_match_length:
  assumes "timers_match ls ts"
  shows "length ts \<le> length ls"
proof -
  have nodes: "distinct (map fst ts)" and fds: "distinct (map fst ls)"
    and owner: "\<And>n t fd. map_of ts n = Some (t, fd) \<Longrightarrow> \<exists>l. map_of ls fd = Some l \<and> m_timer l = n"
    using assms by (auto simp: timers_match_def)
  have "set (map fst ts) \<subseteq> (\<lambda>fd. m_timer (the (map_of ls fd))) ` set (map fst ls)"
  proof
    fix n assume "n \<in> set (map fst ts)"
    then obtain t fd where "map_of ts n = Some (t, fd)"
      by (cases "map_of ts n") (auto simp: map_of_eq_None_iff)
    with owner obtain l where l: "map_of ls fd = Some l" "m_timer l = n" by blast
    then show "n \<in> (\<lambda>fd. m_timer (the (map_of ls fd))) ` set (map fst ls)"
      by (intro image_eqI [of _ _ fd]) (force dest: map_of_SomeD)+
  qed
  then have "card (set (map fst ts)) \<le> card (set (map fst ls))"
    by (rule surj_card_le [rotated]) simp
  with nodes fds show ?thesis by (simp add: distinct_card del: set_map)
qed

lemma ahead_length: "n \<in> set (map fst ts) \<Longrightarrow> length (ahead n ts) < length ts"
  by (induction ts) (auto simp: ahead_def)

context http_sessions
begin

lemma cycles_queue:
  assumes "server_cycles eops (server_ops eops calls kops hops req_handler) watched opened clock stream_step
      j mon mon'"
    and "stream_stable stream_step p_ok" and "server_ok watched clock p_ok mon"
    and "in_queue clock n t c i mon" and "t \<le> c"
  shows "server_ok watched clock p_ok mon' \<and> in_queue clock n t c (i - j) mon'"
  using assms
proof (induction rule: server_cycles.induct)
  case (cycles_cycle j mon mon1 mon2 again)
  then have ok1: "server_ok watched clock p_ok mon1" and q1: "in_queue clock n t c (i - j) mon1" by simp_all
  have "server_ok watched clock p_ok mon2"
    using server.cycle_ok [of mon1] ok1 cycles_cycle.hyps(2,3) by (auto simp: server_ok_def)
  moreover have "t \<le> clock (m_epoll mon1)" using q1 cycles_cycle.prems(4) by (simp add: in_queue_def)
  ultimately show ?case using cycle_queue [OF ok1 cycles_cycle.hyps(2,3) q1] by simp
next
  case (cycles_kernel j mon mon1 k)
  then show ?case by (auto simp: in_queue_def server_ok_kernel intro: order_trans)
next
  case (cycles_peer j mon mon1 fd l c1 c')
  then show ?case by (simp add: in_queue_def server_ok_peer)
qed simp

lemma cycles_called:
  assumes "server_cycles eops (server_ops eops calls kops hops req_handler) watched opened clock stream_step
      j mon mon'"
    and "stream_stable stream_step p_ok" and "server_ok watched clock p_ok mon"
    and "map_of (m_fd_activity_timestamps mon) n = Some (t, fd)"
  shows "server_ok watched clock p_ok mon'
    \<and> (called_during eops (server_ops eops calls kops hops req_handler) watched opened clock stream_step fd n
         j mon mon'
       \<or> m_listeners mon' = [] \<or> map_of (m_fd_activity_timestamps mon') n = Some (t, fd))"
  using assms
proof (induction rule: server_cycles.induct)
  case (cycles_cycle j mon mon1 mon2 again)
  let ?lops = "server_ops eops calls kops hops req_handler"
  from cycles_cycle have ok1: "server_ok watched clock p_ok mon1" by blast
  then have ok2: "server_ok watched clock p_ok mon2"
    using server.cycle_ok [of mon1] cycles_cycle.hyps(2,3) by (auto simp: server_ok_def)
  from cycles_cycle consider
      "called_during eops ?lops watched opened clock stream_step fd n j mon mon1"
    | "m_listeners mon1 = []"
    | "map_of (m_fd_activity_timestamps mon1) n = Some (t, fd)" by blast
  then show ?case
  proof cases
    case 1
    from called_during_more [OF this cycles_cycle.hyps(2,3)] ok2 show ?thesis by blast
  next
    case 2
    then have "mon2 = mon1" using cycles_cycle.hyps(3) by (simp add: wait_for_and_dispatch_events_def)
    with 2 ok2 show ?thesis by simp
  next
    case 3
    have "called_in_cycle eops ?lops clock fd n mon1 \<or> m_listeners mon2 = []
        \<or> map_of (m_fd_activity_timestamps mon2) n = Some (t, fd)"
      using ok1 cycles_cycle.hyps(2,3) 3 by (intro server.cycle_calls) (simp_all add: server_ok_def)
    with called_during_now [OF cycles_cycle.hyps(1,3)] ok2 show ?thesis by blast
  qed
next
  case (cycles_kernel j mon mon1 k)
  then show ?case
    by (auto simp: server_ok_kernel intro: called_during_same server_cycles.cycles_kernel)
next
  case (cycles_peer j mon mon1 fd' l c c')
  from cycles_peer.hyps(2) have "m_listeners mon1 \<noteq> []" by auto
  with cycles_peer show ?case
    by (auto simp: server_ok_peer intro: called_during_same server_cycles.cycles_peer)
qed simp

lemma overdue_is_called:
  assumes run: "server_cycles eops (server_ops eops calls kops hops req_handler) watched opened clock stream_step
      j mon mon'"
    and stable: "stream_stable stream_step p_ok" and ok: "server_ok watched clock p_ok mon"
    and l: "map_of (m_listeners mon) fd = Some l"
    and t: "map_of (m_fd_activity_timestamps mon) (m_timer l) = Some (t, fd)"
    and overdue: "t \<le> clock (m_epoll mon)" and enough: "length (m_listeners mon) \<le> j"
  shows "(called_during eops (server_ops eops calls kops hops req_handler) watched opened clock stream_step
        fd (m_timer l) j mon mon'
      \<or> m_listeners mon' = [])
    \<and> (case map_of (m_fd_activity_timestamps mon') (m_timer l) of
         None \<Rightarrow> \<forall>l'. map_of (m_listeners mon') fd = Some l' \<longrightarrow> m_timer l' \<noteq> m_timer l
       | Some (t', fd') \<Rightarrow> clock (m_epoll mon) + inactivity_period \<le> t')"
proof -
  let ?n = "m_timer l" and ?ts = "m_fd_activity_timestamps mon"
  have n: "?n \<in> set (map fst ?ts)" using map_of_fst_iff [of ?ts ?n] t by fastforce
  have match: "timers_match (m_listeners mon) ?ts" and "?n < next_node mon"
    using ok n by (auto simp: server_ok_def monitor_inv_def)
  moreover have "length (ahead ?n ?ts) < length (m_listeners mon)"
    using ahead_length [OF n] timers_match_length [OF match] by simp
  ultimately have "in_queue clock ?n t (clock (m_epoll mon)) (length (m_listeners mon)) mon"
    using t by (simp add: in_queue_def queued_def)
  from cycles_queue [OF run stable ok this overdue]
  have ok': "server_ok watched clock p_ok mon'"
    and q: "queued ?n t (clock (m_epoll mon)) 0 (m_fd_activity_timestamps mon')"
    using enough by (simp_all add: in_queue_def)
  have late: "map_of (m_fd_activity_timestamps mon') ?n \<noteq> Some (t, fd)"
    using q overdue by (auto simp: queued_def inactivity_period_def)
  with cycles_called [OF run stable ok t] have
    "called_during eops (server_ops eops calls kops hops req_handler) watched opened clock stream_step
       fd ?n j mon mon' \<or> m_listeners mon' = []" by blast
  moreover have "case map_of (m_fd_activity_timestamps mon') ?n of
      None \<Rightarrow> \<forall>l'. map_of (m_listeners mon') fd = Some l' \<longrightarrow> m_timer l' \<noteq> ?n
    | Some (t', fd') \<Rightarrow> clock (m_epoll mon) + inactivity_period \<le> t'"
  proof (cases "map_of (m_fd_activity_timestamps mon') ?n")
    case None
    have "m_timer l' \<noteq> ?n" if "map_of (m_listeners mon') fd = Some l'" for l'
      using timers_matchD(4) [OF _ that] ok' None by (fastforce simp: server_ok_def monitor_inv_def)
    with None show ?thesis by simp
  qed (use q in \<open>auto simp: queued_def\<close>)
  ultimately show ?thesis ..
qed

end

text \<open>
  C21: no idle listener is overlooked for long. At any time in the life of the server, take a
  listener whose deadline has passed. In one of as many cycles as there were listeners then, its
  \<open>fd_is_ready\<close> or \<open>fd_is_idle\<close> is called, and runs, with its effect on its object, on the list of
  removals and on its deadline, unless all listeners have been dropped; whatever else happens in
  these cycles, new connections included. After them it has a new deadline, at least the
  inactivity period from now, or is gone. (It is the queue that guarantees this, though
  a cycle calls one idle listener only; all of the cycles are quick.)
\<close>

theorem overdue_listener_is_called:
  assumes "http_service eops watched clock calls kops incoming sent hops h_inv h_responding req_handler"
    and "start_server eops calls address k = Inr mon0"
    and "server_run eops (server_ops eops calls kops hops req_handler) watched opened clock stream_step mon0 mon"
    and "map_of (m_listeners mon) fd = Some l"
    and "map_of (m_fd_activity_timestamps mon) (m_timer l) = Some (t, fd)" and "t \<le> clock (m_epoll mon)"
    and "server_cycles eops (server_ops eops calls kops hops req_handler) watched opened clock stream_step
      j mon mon'"
    and "length (m_listeners mon) \<le> j"
  shows "(called_during eops (server_ops eops calls kops hops req_handler) watched opened clock stream_step
        fd (m_timer l) j mon mon'
      \<or> m_listeners mon' = [])
    \<and> (case map_of (m_fd_activity_timestamps mon') (m_timer l) of
         None \<Rightarrow> \<forall>l'. map_of (m_listeners mon') fd = Some l' \<longrightarrow> m_timer l' \<noteq> m_timer l
       | Some (t', fd') \<Rightarrow> clock (m_epoll mon) + inactivity_period \<le> t')"
proof -
  note sessions = http_service.service_sessions [OF assms(1)]
  have "server_ok watched clock (proc_inv h_inv h_responding) mon"
    by (rule http_sessions.server_started_ok [OF sessions assms(2,3) proc_inv_stable])
  from http_sessions.overdue_is_called [OF sessions assms(7) proc_inv_stable this assms(4-6,8)]
  show ?thesis .
qed

text \<open>The two services of the desk, left alone for two periods, and two cycles after that.\<close>

definition desk_alone ::
  "nat \<Rightarrow> fd_activity_list \<Rightarrow> (script_kernel script_epoll, script_kernel, echo_http_request) server_monitor" where
  "desk_alone capacity ts = desk_services\<lparr>m_epoll := (m_epoll desk_services)\<lparr>e_clock := 3 + 2 * inactivity_period,
     e_ticks := [], e_ready := []\<rparr>, m_event_buffer_capacity := capacity, m_fd_activity_timestamps := ts\<rparr>"

lemmas desk_alone_eval = desk_alone_def desk_services_with_def desk_epoll_with_def script_epoll_ops_def
  grow_event_buffer_def call_listener_def server_ops_def listener_is_idle_def run_then_def touch_timer_def
  set_object_def erase_timer_def inactivity_period_def

lemma desk_alone_quick: "quick_cycle script_epoll_ops desk_ops e_clock (desk_alone capacity ts)"
  by (simp add: quick_cycle_def desk_alone_eval Let_def)

lemma desk_alone_calls:
  assumes "\<exists>u. ts = [(n, u, fd), (n', u', fd')] \<and> u \<le> 3 + 2 * inactivity_period"
    and "n \<noteq> n'" and "(n, fd) \<in> {(0, 3), (1, 4)}"
  shows "wait_for_and_dispatch_events script_epoll_ops desk_ops (desk_alone capacity ts)
    = Some (desk_alone (max 2 capacity) [(n', u', fd'), (n, 3 + 3 * inactivity_period, fd)], Inr True)"
  using assms
  by (auto simp: wait_for_and_dispatch_events_def desk_alone_eval Let_def process_idle_fds_def
      process_idle_from.simps [of _ _ _ "Some _"] process_idle_from_end flush_fds_to_remove_def max_def)

theorem overdue_listener_is_called_witness:
  "called_during script_epoll_ops desk_ops e_watched (\<lambda>k. set (e_open k)) e_clock (=) 4 1 2
     (desk_alone 0 [(0, 1 + inactivity_period, 3), (1, 3 + inactivity_period, 4)])
     (desk_alone 2 [(0, 3 + 3 * inactivity_period, 3), (1, 3 + 3 * inactivity_period, 4)])
   \<and> (case map_of (m_fd_activity_timestamps (desk_alone 2
          [(0, 3 + 3 * inactivity_period, 3), (1, 3 + 3 * inactivity_period, 4)])) 1 of
        None \<Rightarrow> False
      | Some (t', fd') \<Rightarrow> (3 + 2 * inactivity_period) + inactivity_period \<le> t')"
proof -
  let ?start = "[(0, 1 + inactivity_period, 3), (1, 3 + inactivity_period, 4)] :: fd_activity_list"
    and ?between = "[(1, 3 + inactivity_period, 4), (0, 3 + 3 * inactivity_period, 3)] :: fd_activity_list"
    and ?after = "[(0, 3 + 3 * inactivity_period, 3), (1, 3 + 3 * inactivity_period, 4)] :: fd_activity_list"
    and ?l = "\<lparr>m_object = Adm_service desk_adm, m_timer = 1\<rparr> ::
      (script_kernel, echo_http_request) listener_object listener"
  have run: "server_run script_epoll_ops desk_ops e_watched (\<lambda>k. set (e_open k)) e_clock (=)
      desk_services (desk_alone 0 ?start)"
  proof -
    have "server_run script_epoll_ops desk_ops e_watched (\<lambda>k. set (e_open k)) e_clock (=)
        desk_services (desk_services\<lparr>m_epoll := m_epoll (desk_alone 0 ?start)\<rparr>)"
      by (rule run_kernel [OF run_begin])
         (simp_all add: desk_alone_def desk_services_with_def desk_epoll_with_def)
    moreover have "desk_services\<lparr>m_epoll := m_epoll (desk_alone 0 ?start)\<rparr> = desk_alone 0 ?start"
      by (simp add: desk_alone_def) (simp add: desk_services_with_def)
    ultimately show ?thesis by simp
  qed
  have "wait_for_and_dispatch_events script_epoll_ops desk_ops (desk_alone 0 ?start)
      = Some (desk_alone 2 ?between, Inr True)"
    using desk_alone_calls [of ?start 0 3 1 "3 + inactivity_period" 4 0] by simp
  moreover have "wait_for_and_dispatch_events script_epoll_ops desk_ops (desk_alone 2 ?between)
      = Some (desk_alone 2 ?after, Inr True)"
    using desk_alone_calls [of ?between 1 4 0 "3 + 3 * inactivity_period" 3 2] by simp
  ultimately have cycles: "server_cycles script_epoll_ops desk_ops e_watched (\<lambda>k. set (e_open k)) e_clock (=)
      (Suc (Suc 0)) (desk_alone 0 ?start) (desk_alone 2 ?after)"
    by (blast intro: cycles_begin cycles_cycle desk_alone_quick)
  have l: "map_of (m_listeners (desk_alone 0 ?start)) 4 = Some ?l"
    and t: "map_of (m_fd_activity_timestamps (desk_alone 0 ?start)) (m_timer ?l) = Some (3 + inactivity_period, 4)"
    and late: "3 + inactivity_period \<le> e_clock (m_epoll (desk_alone 0 ?start))"
    and len: "length (m_listeners (desk_alone 0 ?start)) \<le> Suc (Suc 0)"
    by (simp_all add: desk_alone_def desk_services_with_def)
  note called = overdue_listener_is_called [OF desk_service desk_started run l t late cycles len]
  have "m_listeners (desk_alone 2 ?after) \<noteq> []" by (simp add: desk_alone_def desk_services_with_def)
  with conjunct1 [OF called] have
    "called_during script_epoll_ops desk_ops e_watched (\<lambda>k. set (e_open k)) e_clock (=) 4 1 2
       (desk_alone 0 ?start) (desk_alone 2 ?after)" by (simp only: listener.select_convs numeral_2_eq_2 simp_thms)
  moreover from conjunct2 [OF called] have
    "case map_of (m_fd_activity_timestamps (desk_alone 2 ?after)) 1 of
        None \<Rightarrow> False
      | Some (t', fd') \<Rightarrow> (3 + 2 * inactivity_period) + inactivity_period \<le> t'"
    by (simp add: desk_alone_def)
  ultimately show ?thesis ..
qed

end
