(* ===== verification/Fd_Wrappers.thy ===== *)
theory Fd_Wrappers
  imports Server_Socket
begin

text \<open>
  The rest of \<^verbatim>\<open>src/lib/io_fd.hpp\<close>, signal descriptors (\<^verbatim>\<open>src/lib/io_signal_fd.hpp\<close>), and
  of \<^verbatim>\<open>src/lib/io_inet_server_socket.hpp\<close> the addresses and \<open>connect_to\<close>: wrappers of
  system calls that throw when the call fails, over a kernel whose calls are parameters.
\<close>

section \<open>Descriptors that are made\<close>

text \<open>
  The calls; \<open>'a\<close> stands for the arguments of \<open>open\<close>, signals are numbers and a set of them
  is what the program calls a mask. \<open>connect\<close> has the address and the port.
\<close>

record ('k, 'a) client_calls =
  sys_open :: "'k \<Rightarrow> 'a \<Rightarrow> 'k \<times> fd sys_result"
  sys_pipe2 :: "'k \<Rightarrow> int \<Rightarrow> 'k \<times> (fd \<times> fd) sys_result"
  sys_signalfd :: "'k \<Rightarrow> int set \<Rightarrow> 'k \<times> fd sys_result"
  sys_sigprocmask_block :: "'k \<Rightarrow> int set \<Rightarrow> 'k \<times> unit sys_result"
  sys_connect :: "'k \<Rightarrow> fd \<Rightarrow> 32 word \<Rightarrow> 16 word \<Rightarrow> 'k \<times> unit sys_result"
  sys_read_signal :: "'k \<Rightarrow> fd \<Rightarrow> nat \<Rightarrow> 'k \<times> string sys_result"

definition open_fd :: "('k, 'a) client_calls \<Rightarrow> 'a \<Rightarrow> 'k \<Rightarrow> 'k \<times> fd faulty" where
  "open_fd cl args k = checked (sys_open cl k args) ''Failed to open file''"

record pipe =
  read_end :: fd
  write_end :: fd

definition create_pipe :: "('k, 'a) client_calls \<Rightarrow> int \<Rightarrow> 'k \<Rightarrow> 'k \<times> pipe faulty" where
  "create_pipe cl flags k =
     (case checked (sys_pipe2 cl k flags) ''Failed to create a pipe'' of
        (k1, Inl e) \<Rightarrow> (k1, Inl e)
      | (k1, Inr (r, w)) \<Rightarrow> (k1, Inr \<lparr>read_end = r, write_end = w\<rparr>))"

text \<open>\<open>sigaddset\<close> leaves the mask alone when the number is not that of a signal.\<close>

definition make_sigmask :: "(int \<Rightarrow> bool) \<Rightarrow> int list \<Rightarrow> int set" where
  "make_sigmask is_signal sigs = foldl (\<lambda>mask sig. if is_signal sig then insert sig mask else mask) {} sigs"

definition create_signal_fd :: "('k, 'a) client_calls \<Rightarrow> int set \<Rightarrow> 'k \<Rightarrow> 'k \<times> fd faulty" where
  "create_signal_fd cl sigmask k = checked (sys_signalfd cl k sigmask) ''Failed to create signalfd''"

text \<open>The constructor of \<open>signal_fd\<close>: its member is destroyed when it throws.\<close>

definition signal_fd_init ::
  "('k, 'c) server_calls \<Rightarrow> ('k, 'a) client_calls \<Rightarrow> int set \<Rightarrow> 'k \<Rightarrow> 'k \<times> fd faulty" where
  "signal_fd_init calls cl sigmask k =
     (case create_signal_fd cl sigmask k of
        (k1, Inl e) \<Rightarrow> (k1, Inl e)
      | (k1, Inr fd) \<Rightarrow>
          (case checked (sys_sigprocmask_block cl k1 sigmask) ''Failed to capture signals'' of
             (k2, Inl e) \<Rightarrow> (sys_close calls k2 fd, Inl e)
           | (k2, Inr _) \<Rightarrow> (k2, Inr fd)))"

definition signal_fd_read ::
  "('k, 'a) client_calls \<Rightarrow> fd \<Rightarrow> nat \<Rightarrow> 'k \<Rightarrow> 'k \<times> string \<times> operation_result" where
  "signal_fd_read cl fd n k =
     (case sys_read_signal cl k fd n of
        (k1, Failed e) \<Rightarrow>
          (k1, [], errno_result e)
      | (k1, Returned bytes) \<Rightarrow> (k1, bytes, Op_completed))"

text \<open>\<open>connect_to\<close>: the socket, a local variable, is destroyed when connecting fails.\<close>

definition connect_to ::
  "('k, 'c) server_calls \<Rightarrow> ('k, 'a) client_calls \<Rightarrow> 32 word \<Rightarrow> 16 word \<Rightarrow> 'k \<Rightarrow> 'k \<times> fd faulty" where
  "connect_to calls cl address port k =
     (case create_socket calls k of
        (k1, Inl e) \<Rightarrow> (k1, Inl e)
      | (k1, Inr socket) \<Rightarrow>
          (case checked (sys_connect cl k1 socket address port) ''Failed to connect to server'' of
             (k2, Inl e) \<Rightarrow> (sys_close calls k2 socket, Inl e)
           | (k2, Inr _) \<Rightarrow> (k2, Inr socket)))"

text \<open>What has been made is owned: it is open now and was not before; or nothing is.\<close>

definition owns_new :: "('k \<Rightarrow> fd set) \<Rightarrow> 'k \<Rightarrow> 'k \<times> fd faulty \<Rightarrow> bool" where
  "owns_new opened k res \<longleftrightarrow> (case res of
     (k', Inl e) \<Rightarrow> thrown e \<and> opened k' = opened k
   | (k', Inr fd) \<Rightarrow> fd \<notin> opened k \<and> opened k' = insert fd (opened k))"

text \<open>What POSIX says of open descriptors here.\<close>

locale client_descriptors = descriptor_calls calls opened
  for calls :: "('k, 'c) server_calls" and opened :: "'k \<Rightarrow> fd set" +
  fixes cl :: "('k, 'a) client_calls"
  assumes cd_open: "sys_open cl k args = (k', r) \<Longrightarrow>
      (case r of Returned fd \<Rightarrow> fd \<notin> opened k \<and> opened k' = insert fd (opened k)
       | Failed _ \<Rightarrow> opened k' = opened k)"
    and cd_pipe2: "sys_pipe2 cl k flags = (k', p) \<Longrightarrow>
      (case p of Returned (fd, fd') \<Rightarrow> fd \<notin> opened k \<and> fd' \<notin> opened k \<and> fd \<noteq> fd'
                   \<and> opened k' = insert fd (insert fd' (opened k))
       | Failed _ \<Rightarrow> opened k' = opened k)"
    and cd_signalfd: "sys_signalfd cl k sigs = (k', r) \<Longrightarrow>
      (case r of Returned fd \<Rightarrow> fd \<notin> opened k \<and> opened k' = insert fd (opened k)
       | Failed _ \<Rightarrow> opened k' = opened k)"
    and cd_sigprocmask: "sys_sigprocmask_block cl k sigs = (k', u) \<Longrightarrow> opened k' = opened k"
    and cd_connect: "sys_connect cl k fd address port = (k', u) \<Longrightarrow> opened k' = opened k"
begin

lemma open_fd_owns: "owns_new opened k (open_fd cl args k)"
proof -
  obtain k1 r where r: "sys_open cl k args = (k1, r)" by fastforce
  from cd_open [OF r] show ?thesis
    by (cases r) (simp_all add: open_fd_def checked_def owns_new_def thrown_def r)
qed

lemma create_socket_owns: "owns_new opened k (create_socket calls k)"
proof -
  obtain k1 r where r: "sys_socket calls k = (k1, r)" by fastforce
  from op_socket [OF r] show ?thesis
    by (cases r) (simp_all add: create_socket_def checked_def owns_new_def thrown_def r)
qed

lemma create_signal_fd_owns: "owns_new opened k (create_signal_fd cl sigs k)"
proof -
  obtain k1 r where r: "sys_signalfd cl k sigs = (k1, r)" by fastforce
  from cd_signalfd [OF r] show ?thesis
    by (cases r) (simp_all add: create_signal_fd_def checked_def owns_new_def thrown_def r)
qed

text \<open>A second call on the new descriptor, which is closed when that fails.\<close>

lemma owns_new_then:
  assumes "owns_new opened k res"
    and "\<And>k1 fd k2 u. call k1 fd = (k2, u) \<Longrightarrow> opened k2 = opened k1"
  shows "owns_new opened k
    (case res of
       (k1, Inl e) \<Rightarrow> (k1, Inl e)
     | (k1, Inr fd) \<Rightarrow>
         (case checked (call k1 fd) msg of
            (k2, Inl e) \<Rightarrow> (sys_close calls k2 fd, Inl e)
          | (k2, Inr (x :: unit)) \<Rightarrow> (k2, Inr fd)))"
proof -
  obtain k1 r where res: "res = (k1, r)" by (cases res)
  show ?thesis
  proof (cases r)
    case (Inl e)
    with assms(1) show ?thesis by (simp add: res owns_new_def)
  next
    case (Inr fd)
    obtain k2 u where c: "call k1 fd = (k2, u)" by fastforce
    with assms(2) [OF c] assms(1) show ?thesis
      by (cases u) (auto simp: res Inr checked_def owns_new_def thrown_def op_close)
  qed
qed

lemma connect_to_owns: "owns_new opened k (connect_to calls cl address port k)"
  unfolding connect_to_def by (rule owns_new_then [OF create_socket_owns]) (rule cd_connect)

lemma signal_fd_init_owns: "owns_new opened k (signal_fd_init calls cl sigs k)"
  unfolding signal_fd_init_def by (rule owns_new_then [OF create_signal_fd_owns]) (rule cd_sigprocmask)

lemma create_pipe_owns:
  "case create_pipe cl flags k of
     (k', Inl e) \<Rightarrow> thrown e \<and> opened k' = opened k
   | (k', Inr p) \<Rightarrow> read_end p \<notin> opened k \<and> write_end p \<notin> opened k \<and> read_end p \<noteq> write_end p
       \<and> opened k' = insert (read_end p) (insert (write_end p) (opened k))"
proof -
  obtain k1 r where r: "sys_pipe2 cl k flags = (k1, r)" by fastforce
  from cd_pipe2 [OF r] show ?thesis
    by (cases r) (auto simp: create_pipe_def checked_def thrown_def r)
qed

end

text \<open>
  C38: nothing that is made leaks. Opening a file, connecting to a server and making a signal
  descriptor each end with exactly one new descriptor open, which is the one returned, or
  throw and leave none open that was not before, also when the second call they
  make fails; a pipe has two new ones, which differ.
\<close>

theorem new_descriptors_owned:
  assumes "client_descriptors calls opened cl"
  shows "owns_new opened k (open_fd cl args k)
    \<and> owns_new opened k (connect_to calls cl address port k)
    \<and> owns_new opened k (signal_fd_init calls cl sigs k)
    \<and> (case create_pipe cl flags k of
         (k', Inl e) \<Rightarrow> thrown e \<and> opened k' = opened k
       | (k', Inr p) \<Rightarrow> read_end p \<notin> opened k \<and> write_end p \<notin> opened k \<and> read_end p \<noteq> write_end p
           \<and> opened k' = insert (read_end p) (insert (write_end p) (opened k)))"
  by (intro conjI client_descriptors.open_fd_owns [OF assms] client_descriptors.connect_to_owns [OF assms]
      client_descriptors.signal_fd_init_owns [OF assms] client_descriptors.create_pipe_owns [OF assms])

text \<open>On the kernel with ports: connecting to port 80 works, and signal 9 cannot be blocked.\<close>

definition unused_fd :: "int list \<Rightarrow> int" where
  "unused_fd fds = Max (insert 0 (set fds)) + 1"

lemma unused_fd_fresh: "unused_fd fds \<notin> set fds"
  using Max_ge [of "insert 0 (set fds)" "unused_fd fds"] by (fastforce simp: unused_fd_def)

definition port_clients :: "(port_kernel, string) client_calls" where
  "port_clients =
     \<lparr>sys_open = (\<lambda>k path. if path = [] then (k, Failed (Other_errno 2))
        else (k\<lparr>pk_open := unused_fd (pk_open k) # pk_open k\<rparr>, Returned (unused_fd (pk_open k)))),
      sys_pipe2 = (\<lambda>k flags. let r = unused_fd (pk_open k); w = unused_fd (r # pk_open k) in
        (k\<lparr>pk_open := w # r # pk_open k\<rparr>, Returned (r, w))),
      sys_signalfd = (\<lambda>k sigs.
        (k\<lparr>pk_open := unused_fd (pk_open k) # pk_open k\<rparr>, Returned (unused_fd (pk_open k)))),
      sys_sigprocmask_block = (\<lambda>k sigs. (k, if 9 \<in> sigs then Failed (Other_errno 22) else Returned ())),
      sys_connect = (\<lambda>k fd address port. (k, if port = 80 then Returned () else Failed (Other_errno 111))),
      sys_read_signal = (\<lambda>k fd n. (k, Failed EAGAIN))\<rparr>"

interpretation port_clients: client_descriptors port_calls "\<lambda>k. set (pk_open k)" port_clients
proof unfold_locales
  fix k k' p flags
  assume "sys_pipe2 port_clients k flags = (k', p)"
  then show "case p of
      Returned (fd, fd') \<Rightarrow> fd \<notin> set (pk_open k) \<and> fd' \<notin> set (pk_open k) \<and> fd \<noteq> fd'
        \<and> set (pk_open k') = insert fd (insert fd' (set (pk_open k)))
    | Failed _ \<Rightarrow> set (pk_open k') = set (pk_open k)"
    using unused_fd_fresh [of "pk_open k"] unused_fd_fresh [of "unused_fd (pk_open k) # pk_open k"]
    by (auto simp: port_clients_def Let_def)
qed (auto simp: port_clients_def unused_fd_fresh split: if_splits)

theorem new_descriptors_owned_witness:
  "owns_new (\<lambda>k. set (pk_open k)) \<lparr>pk_open = [2, 1], pk_bound = []\<rparr>
     (connect_to port_calls port_clients 0x7F000001 81 \<lparr>pk_open = [2, 1], pk_bound = []\<rparr>)
   \<and> connect_to port_calls port_clients 0x7F000001 81 \<lparr>pk_open = [2, 1], pk_bound = []\<rparr>
     = (\<lparr>pk_open = [2, 1], pk_bound = []\<rparr>, Inl (System_error ''Failed to connect to server'' (Other_errno 111)))"
proof
  show "owns_new (\<lambda>k. set (pk_open k)) \<lparr>pk_open = [2, 1], pk_bound = []\<rparr>
      (connect_to port_calls port_clients 0x7F000001 81 \<lparr>pk_open = [2, 1], pk_bound = []\<rparr>)"
    using new_descriptors_owned [OF port_clients.client_descriptors_axioms] by blast
qed (simp add: connect_to_def create_socket_def checked_def port_calls_def port_clients_def Let_def)

section \<open>Addresses\<close>

text \<open>
  An address is its number, the first of its four bytes the most significant. The two functions
  of the C library that read and write its text are parameters: what \<open>inet_aton\<close> accepts, and
  the characters \<open>inet_ntop\<close> puts in the room it is given, the terminator among them, or nothing
  when it fails. \<open>to_string\<close> has a buffer of 17 zeros, of which it offers 16, and takes the text
  up to the first zero.
\<close>

definition inet_address_create :: "(string \<Rightarrow> (32 word) option) \<Rightarrow> string \<Rightarrow> (32 word) faulty" where
  "inet_address_create inet_aton str =
     (case inet_aton str of
        None \<Rightarrow> Inl (Exception_thrown ''Not a valid inet address'')
      | Some addr \<Rightarrow> Inr addr)"

definition inet_address_eq :: "32 word \<Rightarrow> 32 word \<Rightarrow> bool" where
  "inet_address_eq a b \<longleftrightarrow> a = b"

definition inet_to_string :: "(32 word \<Rightarrow> nat \<Rightarrow> string option) \<Rightarrow> 32 word \<Rightarrow> string" where
  "inet_to_string inet_ntop addr =
     (let buffer = replicate 17 (CHR 0x00);
          written = (case inet_ntop addr 16 of None \<Rightarrow> [] | Some chars \<Rightarrow> chars)
      in takeWhile (\<lambda>c. c \<noteq> CHR 0x00) (written @ drop (length written) buffer))"

text \<open>
  A text that fits with its terminator comes back whole, and one that does not fit, so that
  \<open>inet_ntop\<close> fails, as the empty string: the failure is not seen.
\<close>

lemma inet_to_string_text:
  assumes "inet_ntop addr 16 = Some (str @ [CHR 0x00])" and "CHR 0x00 \<notin> set str"
  shows "inet_to_string inet_ntop addr = str"
proof -
  have "takeWhile (\<lambda>c. c \<noteq> CHR 0x00) (str @ CHR 0x00 # rest) = str" for rest
    using assms(2) by (subst takeWhile_append2) auto
  then show ?thesis by (simp add: inet_to_string_def Let_def assms(1))
qed

lemma inet_to_string_failed: "inet_ntop addr 16 = None \<Longrightarrow> inet_to_string inet_ntop addr = []"
  by (simp add: inet_to_string_def Let_def)

end
