(* ===== verification/Input_Fds.thy ===== *)
theory Input_Fds
  imports Server_Runs Fd_Wrappers
begin

text \<open>
  Input descriptors in the registry, of \<^verbatim>\<open>src/lib/service_registry.hpp\<close>: a source with a
  handler of its own, as a signal descriptor is used. The handler belongs to the program that
  enrols it, so its two functions are parameters.
\<close>

section \<open>The listener of an input descriptor\<close>

record ('d, 's) data_source_event_handler =
  ds_fd :: 'd
  ds_eh :: 's

type_synonym ('s, 'k, 'l) eh_function = "'s \<Rightarrow> fd \<Rightarrow> ('k, 'l) fd_event_monitor \<Rightarrow> 's \<times> ('k, 'l) monitor_run"

definition data_source_fd_is_ready ::
  "('s, 'k, 'l) eh_function \<Rightarrow> ('d, 's) data_source_event_handler \<Rightarrow> fd \<Rightarrow> ('k, 'l) fd_event_monitor \<Rightarrow>
   ('d, 's) data_source_event_handler \<times> ('k, 'l) monitor_run" where
  "data_source_fd_is_ready eh_ready h fd mon =
     (case eh_ready (ds_eh h) fd mon of (eh, run) \<Rightarrow> (h\<lparr>ds_eh := eh\<rparr>, run))"

definition data_source_fd_is_idle ::
  "('s, 'k, 'l) eh_function \<Rightarrow> ('d, 's) data_source_event_handler \<Rightarrow> fd \<Rightarrow> ('k, 'l) fd_event_monitor \<Rightarrow>
   ('d, 's) data_source_event_handler \<times> ('k, 'l) monitor_run" where
  "data_source_fd_is_idle eh_idle h fd mon =
     (case eh_idle (ds_eh h) fd mon of (eh, run) \<Rightarrow> (h\<lparr>ds_eh := eh\<rparr>, run))"

text \<open>
  \<open>enroll\<close> for a source; \<open>inject\<close> makes a listener's object of the handler. A source that
  cannot be made non-blocking stays with the caller.
\<close>

definition enroll_data_source ::
  "'k epoll_ops \<Rightarrow> ('k, 'c) server_calls \<Rightarrow> ('l \<Rightarrow> fd \<Rightarrow> 'k \<Rightarrow> 'k) \<Rightarrow>
   (('d, 's) data_source_event_handler \<Rightarrow> 'l) \<Rightarrow> ('d \<Rightarrow> fd) \<Rightarrow> 'd \<Rightarrow> 's \<Rightarrow> ('k, 'l) fd_event_monitor \<Rightarrow>
   ('k, 'l) monitor_run" where
  "enroll_data_source eops calls destroy inject fd_of source eh mon =
     (case set_non_blocking calls (fd_of source) (m_epoll mon) of
        (k, Inl e) \<Rightarrow> (mon\<lparr>m_epoll := k\<rparr>, Some e)
      | (k, Inr _) \<Rightarrow>
          monitor_add eops destroy (fd_of source) (inject \<lparr>ds_fd = source, ds_eh = eh\<rparr>) Read_is_possible
            (mon\<lparr>m_epoll := k\<rparr>))"

context server_contract
begin

lemma data_source_enroll_ok:
  assumes destroy: "destroy_contract watched clock destroy"
    and inv: "monitor_inv watched clock mon" and ok: "listeners_ok watched l_ok mon"
    and fresh: "watched (m_epoll mon) (fd_of source) = None"
    and fit: "l_ok Read_is_possible (inject \<lparr>ds_fd = source, ds_eh = eh\<rparr>)"
    and enroll: "enroll_data_source eops calls destroy inject fd_of source eh mon = (mon', exc)"
  shows "case exc of
      Some e \<Rightarrow> thrown e
        \<and> ((\<exists>k err. sys_set_non_blocking calls (m_epoll mon) (fd_of source) = (k, Failed err)
              \<and> e = System_error ''Failed to enable nonblocking mode'' err \<and> mon' = mon\<lparr>m_epoll := k\<rparr>)
           \<or> (\<exists>k k1 now k2 err. sys_set_non_blocking calls (m_epoll mon) (fd_of source) = (k, Returned ())
              \<and> sys_now eops k = (k1, now)
              \<and> sys_epoll_add eops k1 (fd_of source) Read_is_possible = (k2, Failed err)
              \<and> e = System_error ''Failed to add event listener for file descriptor'' err
              \<and> m_listeners mon' = m_listeners mon))
    | None \<Rightarrow>
        (\<exists>k k1 now n. sys_set_non_blocking calls (m_epoll mon) (fd_of source) = (k, Returned ())
           \<and> sys_now eops k = (k1, now) \<and> clock (m_epoll mon) \<le> now
           \<and> sys_epoll_add eops k1 (fd_of source) Read_is_possible = (m_epoll mon', Returned ())
           \<and> m_listeners mon' = m_listeners mon
               @ [(fd_of source, \<lparr>m_object = inject \<lparr>ds_fd = source, ds_eh = eh\<rparr>, m_timer = n\<rparr>)]
           \<and> m_fd_activity_timestamps mon'
               = m_fd_activity_timestamps mon @ [(n, now + inactivity_period, fd_of source)])
        \<and> watched (m_epoll mon') = (watched (m_epoll mon))(fd_of source := Some Read_is_possible)
        \<and> monitor_inv watched clock mon' \<and> listeners_ok watched l_ok mon'"
proof -
  let ?fd = "fd_of source" and ?l = "inject \<lparr>ds_fd = source, ds_eh = eh\<rparr>"
  obtain k r where k: "sys_set_non_blocking calls (m_epoll mon) ?fd = (k, r)" by fastforce
  note same = ac_non_blocking [OF k]
  show ?thesis
  proof (cases r)
    case (Failed e)
    with enroll k show ?thesis
      by (auto simp: enroll_data_source_def set_non_blocking_def checked_def thrown_def)
  next
    case (Returned u)
    let ?mon = "mon\<lparr>m_epoll := k\<rparr>"
    have add: "monitor_add eops destroy ?fd ?l Read_is_possible ?mon = (mon', exc)"
      using enroll k by (simp add: enroll_data_source_def set_non_blocking_def checked_def Returned)
    have inv': "monitor_inv watched clock ?mon" using inv same by (intro monitor_inv_epoll) simp_all
    have fresh': "watched (m_epoll ?mon) ?fd = None" using fresh same by simp
    have none: "map_of (m_listeners mon) ?fd = None" using inv fresh by (metis monitor_inv_def domIff)
    note added = monitor_add_ok [OF inv' fresh' destroy add]
    from monitor_add_calls [OF add] none obtain k1 now k2 a where
      calls: "sys_now eops k = (k1, now)" "sys_epoll_add eops k1 ?fd Read_is_possible = (k2, a)"
      and node: "m_fd_activity_timestamps mon'
          = m_fd_activity_timestamps mon @ [(next_node mon, now + inactivity_period, ?fd)]"
      and left: "case a of
          Returned _ \<Rightarrow> exc = None \<and> m_epoll mon' = k2
            \<and> m_listeners mon' = m_listeners mon @ [(?fd, \<lparr>m_object = ?l, m_timer = next_node mon\<rparr>)]
        | Failed e \<Rightarrow> exc = Some (System_error ''Failed to add event listener for file descriptor'' e)
            \<and> m_epoll mon' = destroy ?l ?fd k2 \<and> m_listeners mon' = m_listeners mon"
      by (auto cong: sys_result.case_cong)
    show ?thesis
    proof (cases a)
      case (Failed e)
      with left calls k Returned show ?thesis by (simp add: thrown_def)
    next
      case (Returned v)
      have "clock (m_epoll mon) \<le> now" using ep_now [OF calls(1)] same by simp
      moreover have "listeners_ok watched l_ok mon'"
        using added left Returned ok fit same none
        by (auto simp: listeners_ok_def map_add_def split: option.splits if_splits)
      ultimately show ?thesis using added left calls node k \<open>r = Returned u\<close> Returned same by simp
    qed
  qed
qed

end

text \<open>
  C39: enrolling an input descriptor. Given one that is not watched, it is made non-blocking,
  and in the state that leaves the clock is read and the kernel is asked to watch it for
  reading, and for nothing else; its handler is a listener behind the others, with
  the whole period still to run; and the invariants hold again. Otherwise the kernel has refused
  one of the two calls: the exception says which, with its \<open>errno\<close>, and the
  listeners are those from before. With a handler that
  is fit for what it is watched for, all listeners are fit to be called.
\<close>

theorem data_source_enrolled:
  assumes "server_contract eops watched clock calls" and "destroy_contract watched clock destroy"
    and "monitor_inv watched clock mon" and "listeners_ok watched l_ok mon"
    and "watched (m_epoll mon) (fd_of source) = None"
    and "l_ok Read_is_possible (inject \<lparr>ds_fd = source, ds_eh = eh\<rparr>)"
    and "enroll_data_source eops calls destroy inject fd_of source eh mon = (mon', exc)"
  shows "case exc of
      Some e \<Rightarrow> thrown e
        \<and> ((\<exists>k err. sys_set_non_blocking calls (m_epoll mon) (fd_of source) = (k, Failed err)
              \<and> e = System_error ''Failed to enable nonblocking mode'' err \<and> mon' = mon\<lparr>m_epoll := k\<rparr>)
           \<or> (\<exists>k k1 now k2 err. sys_set_non_blocking calls (m_epoll mon) (fd_of source) = (k, Returned ())
              \<and> sys_now eops k = (k1, now)
              \<and> sys_epoll_add eops k1 (fd_of source) Read_is_possible = (k2, Failed err)
              \<and> e = System_error ''Failed to add event listener for file descriptor'' err
              \<and> m_listeners mon' = m_listeners mon))
    | None \<Rightarrow>
        (\<exists>k k1 now n. sys_set_non_blocking calls (m_epoll mon) (fd_of source) = (k, Returned ())
           \<and> sys_now eops k = (k1, now) \<and> clock (m_epoll mon) \<le> now
           \<and> sys_epoll_add eops k1 (fd_of source) Read_is_possible = (m_epoll mon', Returned ())
           \<and> m_listeners mon' = m_listeners mon
               @ [(fd_of source, \<lparr>m_object = inject \<lparr>ds_fd = source, ds_eh = eh\<rparr>, m_timer = n\<rparr>)]
           \<and> m_fd_activity_timestamps mon'
               = m_fd_activity_timestamps mon @ [(n, now + inactivity_period, fd_of source)])
        \<and> watched (m_epoll mon') = (watched (m_epoll mon))(fd_of source := Some Read_is_possible)
        \<and> monitor_inv watched clock mon' \<and> listeners_ok watched l_ok mon'"
  by (rule server_contract.data_source_enroll_ok [OF assms])

text \<open>On the desk, before its services: descriptor 7, with a handler that counts.\<close>

theorem data_source_enrolled_witness:
  "\<exists>mon'. enroll_data_source script_epoll_ops script_calls (listener_destroy script_calls) (\<lambda>h. h) (\<lambda>fd. fd)
        (7 :: fd) (0 :: nat) (fd_event_monitor_init desk_boot) = (mon', None)
    \<and> e_watched (m_epoll mon') 7 = Some Read_is_possible
    \<and> monitor_inv e_watched e_clock mon'
    \<and> listeners_ok e_watched (\<lambda>ev h. ev = Read_is_possible \<and> ds_fd h = 7) mon'"
proof -
  let ?mon = "fd_event_monitor_init desk_boot ::
    (script_kernel script_epoll, (fd, nat) data_source_event_handler) fd_event_monitor"
  let ?enroll = "enroll_data_source script_epoll_ops script_calls (listener_destroy script_calls) (\<lambda>h. h) (\<lambda>fd. fd)
        (7 :: fd) (0 :: nat) ?mon"
  let ?ok = "\<lambda>ev h. ev = Read_is_possible \<and> ds_fd h = 7"
  obtain mon' where run: "?enroll = (mon', None)"
    by (simp add: enroll_data_source_def set_non_blocking_def checked_def monitor_add_def
        fd_event_monitor_init_def script_calls_def script_epoll_ops_def desk_boot_with_def Let_def)
  have inv: "monitor_inv e_watched e_clock ?mon" and ok: "listeners_ok e_watched ?ok ?mon"
    and fresh: "e_watched (m_epoll ?mon) 7 = None"
    by (simp_all add: monitor_inv_def listeners_ok_def fd_event_monitor_init_def timers_match_def desk_boot_with_def)
  from data_source_enrolled [where l_ok = ?ok, OF script_server
      server_contract.listener_destroy_ok [OF script_server] inv ok fresh _ run] run
  show ?thesis by simp
qed

end
