(* ===== verification/Request_Grammar.thy ===== *)
theory Request_Grammar
  imports Request_Parser
begin

text \<open>
  What the parser of a request header accepts, as a grammar: a declarative description of
  the texts of request headers, folded lines and repeated fields included, with the header
  each stands for, and the proof that the state machine accepts exactly these texts.
\<close>

section \<open>The grammar\<close>

text \<open>
  The lines that continue a value, with what they add to it: a line that starts with
  white space; one with nothing else adds nothing, any other adds a space and its text.
\<close>

inductive folded :: "string \<Rightarrow> string \<Rightarrow> bool" where
  folded_none: "folded [] []"
| folded_blank: "is_strict_whitespace s \<Longrightarrow> list_all is_strict_whitespace ws \<Longrightarrow> folded t v \<Longrightarrow>
     folded (s # ws @ CRLF @ t) v"
| folded_text: "is_strict_whitespace s \<Longrightarrow> list_all is_strict_whitespace ws \<Longrightarrow>
     \<not> is_strict_whitespace c \<Longrightarrow> CR \<notin> set (c # cs) \<Longrightarrow> folded t v \<Longrightarrow>
     folded (s # ws @ c # cs @ CRLF @ t) (SP # c # cs @ v)"

text \<open>
  A field: after the name, the colon and white space, either the line ends, and the value
  is empty, or the value starts, and is what its lines have, without trailing white space.
  An empty value is not continued.
\<close>

inductive field_line :: "string \<Rightarrow> field_name \<times> string \<Rightarrow> bool" where
  field_empty: "is_token n \<Longrightarrow> list_all is_strict_whitespace ws \<Longrightarrow>
     field_line (n @ '':'' @ ws @ CRLF) (Field_name n, [])"
| field_value: "is_token n \<Longrightarrow> list_all is_strict_whitespace ws \<Longrightarrow>
     \<not> is_strict_whitespace c \<Longrightarrow> CR \<notin> set (c # cs) \<Longrightarrow> folded t w \<Longrightarrow>
     wf_value (rtrim (c # cs @ w)) \<Longrightarrow>
     field_line (n @ '':'' @ ws @ c # cs @ CRLF @ t) (Field_name n, rtrim (c # cs @ w))"

definition fields_grammar :: "string \<Rightarrow> (field_name \<times> string) list \<Rightarrow> bool" where
  "fields_grammar text kvs \<longleftrightarrow> (\<exists>lines. text = concat lines @ CRLF \<and> list_all2 field_line lines kvs)"

text \<open>The request line; the numbers of the version are decimal, of any length, and fit.\<close>

inductive request_line_text :: "string \<Rightarrow> request_line \<Rightarrow> bool" where
  "is_token m \<Longrightarrow> wf_uri u \<Longrightarrow> to_number 32 major_text = Some major_val \<Longrightarrow>
   to_number 32 minor_text = Some minor_val \<Longrightarrow>
   request_line_text
     (m @ '' '' @ u @ '' HTTP/'' @ major_text @ ''.'' @ minor_text @ CRLF)
     \<lparr>rl_method = Request_method m, rl_request_target = Uri u,
      rl_http_version = mk_version (of_nat major_val) (of_nat minor_val)\<rparr>"

definition header_grammar :: "string \<Rightarrow> request_header \<Rightarrow> bool" where
  "header_grammar text h \<longleftrightarrow>
     (\<exists>line_text fields_text kvs. text = line_text @ fields_text
        \<and> request_line_text line_text (req_line h) \<and> fields_grammar fields_text kvs
        \<and> req_fields h = fold append_pair kvs [])"

lemma fields_grammar_Nil: "fields_grammar CRLF []"
  by (simp add: fields_grammar_def)

lemma fields_grammar_Cons:
  "field_line line kv \<Longrightarrow> fields_grammar text kvs \<Longrightarrow> fields_grammar (line @ text) (kv # kvs)"
  unfolding fields_grammar_def
  by (elim exE conjE, rule_tac x = "line # lines" in exI) simp

section \<open>Runs of characters\<close>

text \<open>The parser completes, with this header, and leaves the rest.\<close>

definition accepts :: "request_header_parser \<Rightarrow> string \<Rightarrow> string \<Rightarrow> request_header \<Rightarrow> bool" where
  "accepts p s rest res \<longleftrightarrow> (\<exists>p'. parse p s = Inr (p', rest, Completed) \<and> m_req_header p' = res)"

lemma accepts_simps [simp]:
  "\<not> accepts p [] rest res"
  "accepts p (c # s) rest res \<longleftrightarrow> (\<exists>p' r. parse_step p c = Inr (p', r)
     \<and> (case r of None \<Rightarrow> accepts p' s rest res
        | Some ec \<Rightarrow> ec = Completed \<and> s = rest \<and> m_req_header p' = res))"
  by (auto simp: accepts_def split: sum.split option.split)

text \<open>In most states the parser collects characters up to the one that ends the item.\<close>

lemma accepts_item:
  assumes step: "\<And>q c. m_current_state q = m_current_state p \<Longrightarrow> c \<noteq> stop \<Longrightarrow>
      parse_step q c = Inr (q\<lparr>m_buffer := m_buffer q @ [c]\<rparr>, None)"
    and plain: "\<And>cs s'. item cs s' \<Longrightarrow> stop \<notin> set cs"
    and item: "\<And>cs s'. stop \<notin> set cs \<Longrightarrow> accepts (p\<lparr>m_buffer := m_buffer p @ cs\<rparr>) (stop # s') rest res \<longleftrightarrow> item cs s'"
  shows "accepts p s rest res \<longleftrightarrow> (\<exists>cs s'. s = cs @ stop # s' \<and> item cs s')"
proof -
  have run: "accepts p (cs @ t) rest res \<longleftrightarrow> accepts (p\<lparr>m_buffer := m_buffer p @ cs\<rparr>) t rest res"
    if "stop \<notin> set cs" for cs t
    unfolding accepts_def using that
    by (subst parse_accumulate [where st = "m_current_state p"]) (auto intro!: step)
  show ?thesis
  proof
    assume acc: "accepts p s rest res"
    let ?cs = "takeWhile (\<lambda>c. c \<noteq> stop) s" and ?t = "dropWhile (\<lambda>c. c \<noteq> stop) s"
    have cs: "stop \<notin> set ?cs" by (auto dest: set_takeWhileD)
    with acc run [of ?cs ?t] have go: "accepts (p\<lparr>m_buffer := m_buffer p @ ?cs\<rparr>) ?t rest res" by simp
    then obtain c t where t: "?t = c # t" by (cases ?t) auto
    then have "c = stop" using hd_dropWhile [of "\<lambda>c. c \<noteq> stop" s] by simp
    with t go item cs have "item ?cs t" by metis
    with t \<open>c = stop\<close> show "\<exists>cs s'. s = cs @ stop # s' \<and> item cs s'" by (metis takeWhile_dropWhile_id)
  next
    assume "\<exists>cs s'. s = cs @ stop # s' \<and> item cs s'"
    with run plain item show "accepts p s rest res" by metis
  qed
qed

text \<open>White space that is skipped.\<close>

lemma accepts_skip:
  assumes step: "\<And>c. is_strict_whitespace c \<Longrightarrow> parse_step p c = Inr (p, None)"
    and first: "\<And>c s'. \<not> is_strict_whitespace c \<Longrightarrow> accepts p (c # s') rest res \<longleftrightarrow> go_on c s'"
  shows "accepts p s rest res \<longleftrightarrow> (\<exists>ws c s'. s = ws @ c # s' \<and> list_all is_strict_whitespace ws
      \<and> \<not> is_strict_whitespace c \<and> go_on c s')"
proof -
  have run: "accepts p (ws @ t) rest res \<longleftrightarrow> accepts p t rest res" if "list_all is_strict_whitespace ws" for ws t
    using that by (induction ws) (simp_all add: step)
  show ?thesis
  proof
    assume acc: "accepts p s rest res"
    let ?ws = "takeWhile is_strict_whitespace s" and ?t = "dropWhile is_strict_whitespace s"
    have ws: "list_all is_strict_whitespace ?ws" by (auto simp: list_all_iff dest: set_takeWhileD)
    with acc run [of ?ws ?t] have go: "accepts p ?t rest res" by simp
    then obtain c t where t: "?t = c # t" by (cases ?t) auto
    then have "\<not> is_strict_whitespace c" using hd_dropWhile [of is_strict_whitespace s] by simp
    moreover from this t go first have "go_on c t" by metis
    ultimately show "\<exists>ws c s'. s = ws @ c # s' \<and> list_all is_strict_whitespace ws
      \<and> \<not> is_strict_whitespace c \<and> go_on c s'"
      using t ws by (metis takeWhile_dropWhile_id)
  next
    assume "\<exists>ws c s'. s = ws @ c # s' \<and> list_all is_strict_whitespace ws
      \<and> \<not> is_strict_whitespace c \<and> go_on c s'"
    with run first show "accepts p s rest res" by metis
  qed
qed

section \<open>The request line\<close>

abbreviation parser_at ::
  "parser_state \<Rightarrow> parser_state \<Rightarrow> string \<Rightarrow> string \<Rightarrow> request_header \<Rightarrow> request_header_parser" where
  "parser_at st an buf name h \<equiv>
     \<lparr>m_current_state = st, m_state_after_newline = an, m_buffer = buf,
      m_current_field_name = name, m_req_header = h\<rparr>"

abbreviation header_of :: "string \<Rightarrow> string \<Rightarrow> version \<Rightarrow> field_map \<Rightarrow> request_header" where
  "header_of m u v fs \<equiv> \<lparr>req_line = \<lparr>rl_method = Request_method m, rl_request_target = Uri u,
     rl_http_version = v\<rparr>, req_fields = fs\<rparr>"

text \<open>One item each: how parsing can complete from here.\<close>

lemma method_completes:
  "accepts (parser_at Req_line_read_method an [] n (header_of m0 u v fs)) s rest res \<longleftrightarrow>
   (\<exists>m s'. s = m @ SP # s' \<and> is_token m
      \<and> accepts (parser_at Req_line_read_req_target an [] n (header_of m u v fs)) s' rest res)"
  by (rule accepts_item)
     (auto simp: parse_step_def step_read_method_def is_token_iff list_all_iff split: option.splits)

lemma target_completes:
  "accepts (parser_at Req_line_read_req_target an [] n (header_of m u0 v fs)) s rest res \<longleftrightarrow>
   (\<exists>u s'. s = u @ SP # s' \<and> wf_uri u
      \<and> accepts (parser_at Req_line_read_protocol_name an [] n (header_of m u v fs)) s' rest res)"
  by (rule accepts_item)
     (auto simp: parse_step_def step_read_req_target_def wf_uri_def list_all_iff is_not_printable_iff
       split: option.splits)

lemma protocol_completes:
  "accepts (parser_at Req_line_read_protocol_name an [] n h) s rest res \<longleftrightarrow>
   (\<exists>b s'. s = b @ CHR ''/'' # s' \<and> b = ''HTTP''
      \<and> accepts (parser_at Req_line_read_protocol_version_major an [] n h) s' rest res)"
  by (rule accepts_item) (auto simp: parse_step_def step_read_protocol_name_def split: if_splits)

lemma to_number_plain:
  assumes "to_number w s = Some k"
  shows "CHR ''.'' \<notin> set s" "CR \<notin> set s"
proof -
  from assms have "list_all is_digit s" using to_number_not_digits [of s w] by (cases "list_all is_digit s") auto
  then show "CHR ''.'' \<notin> set s" "CR \<notin> set s"
    by (auto simp: list_all_iff dest: digit_plain)
qed

lemma major_completes:
  "accepts (parser_at Req_line_read_protocol_version_major an [] n (header_of m u v fs)) s rest res \<longleftrightarrow>
   (\<exists>ds s'. s = ds @ CHR ''.'' # s' \<and> (\<exists>k. to_number 32 ds = Some k
      \<and> accepts (parser_at Req_line_read_protocol_version_minor an [] n
           (header_of m u (set_major v (of_nat k)) fs)) s' rest res))"
  by (rule accepts_item)
     (auto simp: parse_step_def step_read_version_major_def dest: to_number_plain split: option.splits)

lemma linefeed_completes:
  "accepts (parser_at Expect_linefeed an b n h) s rest res \<longleftrightarrow>
   (\<exists>s'. s = LF # s' \<and> accepts (parser_at an an b n h) s' rest res)"
  by (cases s) (auto simp: parse_step_def step_expect_linefeed_def split: if_splits)

text \<open>At the start of a line, with all fields so far stored.\<close>

abbreviation line_start :: "request_line \<Rightarrow> field_map \<Rightarrow> request_header_parser" where
  "line_start l m \<equiv> parser_at Fields_terminate_at_no_field_name Fields_terminate_at_no_field_name [] []
     \<lparr>req_line = l, req_fields = m\<rparr>"

lemma minor_completes:
  "accepts (parser_at Req_line_read_protocol_version_minor an [] [] (header_of m u v fs)) s rest res \<longleftrightarrow>
   (\<exists>ds s'. s = ds @ CR # s' \<and> (\<exists>k s''. to_number 32 ds = Some k \<and> s' = LF # s''
      \<and> accepts (line_start \<lparr>rl_method = Request_method m, rl_request_target = Uri u,
            rl_http_version = set_minor v (of_nat k)\<rparr> fs) s'' rest res))"
  by (rule accepts_item)
     (auto simp: parse_step_def step_read_version_minor_def linefeed_completes dest: to_number_plain
       split: option.splits)

lemma request_line_completes:
  "accepts request_header_parser_init s rest res \<longleftrightarrow>
   (\<exists>text l s'. s = text @ s' \<and> request_line_text text l
      \<and> accepts (line_start l []) s' rest res)"
proof -
  have init: "request_header_parser_init =
      parser_at Req_line_read_method Req_line_read_method [] [] (header_of [] [] version_default [])"
    by (simp add: request_header_parser_init_def request_header_default_def)
  have v: "set_minor (set_major version_default a) b = mk_version a b" for a b
    by (rule version_eqI) simp_all
  note rules = method_completes target_completes protocol_completes major_completes minor_completes v
  show ?thesis
  proof
    assume "accepts request_header_parser_init s rest res"
    then obtain m u a b i j s' where "s = (m @ '' '' @ u @ '' HTTP/'' @ a @ ''.'' @ b @ CRLF) @ s'"
      and "is_token m" "wf_uri u" "to_number 32 a = Some i" "to_number 32 b = Some j"
      and go: "accepts (line_start \<lparr>rl_method = Request_method m, rl_request_target = Uri u,
          rl_http_version = mk_version (of_nat i) (of_nat j)\<rparr> []) s' rest res"
      unfolding init rules by (elim exE conjE) simp
    then show "\<exists>text l s'. s = text @ s' \<and> request_line_text text l
      \<and> accepts (line_start l []) s' rest res"
      by (blast intro: request_line_text.intros)
  next
    assume "\<exists>text l s'. s = text @ s' \<and> request_line_text text l
      \<and> accepts (line_start l []) s' rest res"
    then obtain t l s' where s: "s = t @ s'" and "request_line_text t l"
      and go: "accepts (line_start l []) s' rest res" by blast
    from this(2) show "accepts request_header_parser_init s rest res"
    proof cases
      case (1 m u a i b j)
      let ?s1 = "a @ CHR ''.'' # b @ CR # LF # s'"
      have "accepts (parser_at Req_line_read_protocol_version_minor Req_line_read_method [] []
          (header_of m u (set_major version_default (of_nat i)) [])) (b @ CR # LF # s') rest res"
        unfolding minor_completes v using 1 go by blast
      then have "accepts (parser_at Req_line_read_protocol_version_major Req_line_read_method [] []
          (header_of m u version_default [])) ?s1 rest res"
        unfolding major_completes using 1 by blast
      then have "accepts (parser_at Req_line_read_protocol_name Req_line_read_method [] []
          (header_of m u version_default [])) (''HTTP'' @ CHR ''/'' # ?s1) rest res"
        unfolding protocol_completes by blast
      then have "accepts (parser_at Req_line_read_req_target Req_line_read_method [] []
          (header_of m [] version_default [])) (u @ SP # ''HTTP'' @ CHR ''/'' # ?s1) rest res"
        unfolding target_completes using 1 by blast
      then have "accepts request_header_parser_init (m @ SP # u @ SP # ''HTTP'' @ CHR ''/'' # ?s1) rest res"
        unfolding init method_completes using 1 by blast
      then show ?thesis by (simp add: s 1)
    qed
  qed
qed

section \<open>The fields\<close>

abbreviation in_name :: "parser_state \<Rightarrow> string \<Rightarrow> request_line \<Rightarrow> field_map \<Rightarrow> request_header_parser" where
  "in_name an b l m \<equiv> parser_at Fields_read_name an b [] \<lparr>req_line = l, req_fields = m\<rparr>"

abbreviation value_start :: "parser_state \<Rightarrow> string \<Rightarrow> request_line \<Rightarrow> field_map \<Rightarrow> request_header_parser" where
  "value_start an n l m \<equiv> parser_at Fields_skip_ws_before_field_value an [] n \<lparr>req_line = l, req_fields = m\<rparr>"

abbreviation in_value ::
  "parser_state \<Rightarrow> string \<Rightarrow> string \<Rightarrow> request_line \<Rightarrow> field_map \<Rightarrow> request_header_parser" where
  "in_value an b n l m \<equiv> parser_at Fields_read_value an b n \<lparr>req_line = l, req_fields = m\<rparr>"

text \<open>At the start of a line, with a field whose value may be continued.\<close>

abbreviation pending :: "string \<Rightarrow> string \<Rightarrow> request_line \<Rightarrow> field_map \<Rightarrow> request_header_parser" where
  "pending b n l m \<equiv>
     parser_at Fields_check_continuation Fields_check_continuation b n \<lparr>req_line = l, req_fields = m\<rparr>"

abbreviation in_fold :: "string \<Rightarrow> string \<Rightarrow> request_line \<Rightarrow> field_map \<Rightarrow> request_header_parser" where
  "in_fold b n l m \<equiv>
     parser_at Fields_skip_ws_after_newline Fields_check_continuation b n \<lparr>req_line = l, req_fields = m\<rparr>"

lemma name_accepts:
  "accepts (in_name an b l m) s rest res \<longleftrightarrow>
   (\<exists>cs s'. s = cs @ CHR '':'' # s' \<and> CHR '':'' \<notin> set cs \<and> accepts (value_start an (b @ cs) l m) s' rest res)"
  by (rule accepts_item) (auto simp: parse_step_def step_read_name_def)

lemma in_value_accepts:
  "accepts (in_value an b n l m) s rest res \<longleftrightarrow>
   (\<exists>cs s'. s = cs @ CR # s' \<and> CR \<notin> set cs
      \<and> (\<exists>s''. s' = LF # s'' \<and> accepts (pending (b @ cs) n l m) s'' rest res))"
  by (rule accepts_item) (auto simp: parse_step_def step_read_value_def linefeed_completes)

lemma value_accepts:
  "accepts (value_start an n l m) s rest res \<longleftrightarrow>
   (\<exists>ws c s'. s = ws @ c # s' \<and> list_all is_strict_whitespace ws \<and> \<not> is_strict_whitespace c
      \<and> (if c = CR
         then is_token n
           \<and> (\<exists>s''. s' = LF # s'' \<and> accepts (line_start l (append_pair (Field_name n, []) m)) s'' rest res)
         else accepts (in_value an [c] n l m) s' rest res))"
  by (rule accepts_skip)
     (auto simp: parse_step_def step_skip_ws_before_value_def linefeed_completes append_pair_def
       is_strict_whitespace_def split: option.splits)

lemma fold_accepts:
  "accepts (in_fold b n l m) s rest res \<longleftrightarrow>
   (\<exists>ws c s'. s = ws @ c # s' \<and> list_all is_strict_whitespace ws \<and> \<not> is_strict_whitespace c
      \<and> (if c = CR then \<exists>s''. s' = LF # s'' \<and> accepts (pending b n l m) s'' rest res
         else accepts (in_value Fields_check_continuation (b @ [SP, c]) n l m) s' rest res))"
  by (rule accepts_skip)
     (auto simp: parse_step_def step_skip_ws_after_newline_def linefeed_completes is_strict_whitespace_def)

text \<open>The end, when all fields are stored.\<close>

lemma end_accepts:
  "accepts (parser_at Expect_linefeed_and_return an b n h) s rest res \<longleftrightarrow> s = LF # rest \<and> res = h"
  by (cases s) (auto simp: parse_step_def step_expect_linefeed_and_return_def)

lemma line_start_accepts:
  "accepts (line_start l m) s rest res \<longleftrightarrow>
     s = CRLF @ rest \<and> res = \<lparr>req_line = l, req_fields = m\<rparr>
   \<or> (\<exists>c s'. s = c # s' \<and> c \<noteq> CR
        \<and> accepts (in_name Fields_terminate_at_no_field_name [c] l m) s' rest res)"
  by (cases s) (auto simp: parse_step_def step_terminate_at_no_field_name_def end_accepts)

lemma pending_accepts:
  "accepts (pending b n l m) s rest res \<longleftrightarrow>
   (\<exists>c s'. s = c # s' \<and> is_strict_whitespace c \<and> accepts (in_fold b n l m) s' rest res)
   \<or> is_token n \<and> wf_value (rtrim b)
      \<and> (s = CRLF @ rest \<and> res = \<lparr>req_line = l, req_fields = append_pair (Field_name n, rtrim b) m\<rparr>
         \<or> (\<exists>c s'. s = c # s' \<and> \<not> is_strict_whitespace c \<and> c \<noteq> CR
              \<and> accepts (in_name Fields_check_continuation [c] l (append_pair (Field_name n, rtrim b) m))
                  s' rest res))"
  by (cases s)
     (auto simp: parse_step_def step_check_continuation_def end_accepts append_pair_def Let_def
       is_strict_whitespace_def split: option.splits if_splits)

section \<open>What is accepted is in the grammar\<close>

definition reads_fields ::
  "request_line \<Rightarrow> field_map \<Rightarrow> string \<Rightarrow> string \<Rightarrow> request_header \<Rightarrow> bool" where
  "reads_fields l m s rest res \<longleftrightarrow> (\<exists>body kvs. s = body @ rest \<and> fields_grammar body kvs
     \<and> res = \<lparr>req_line = l, req_fields = fold append_pair kvs m\<rparr>)"

lemma reads_fields_end: "reads_fields l m (CRLF @ rest) rest \<lparr>req_line = l, req_fields = m\<rparr>"
  unfolding reads_fields_def
  by (rule exI [of _ CRLF], rule exI [of _ "[]"]) (simp add: fields_grammar_Nil)

lemma reads_fields_field:
  assumes "field_line line kv" and "reads_fields l (append_pair kv m) s rest res"
  shows "reads_fields l m (line @ s) rest res"
proof -
  from assms(2) obtain body kvs where s: "s = body @ rest" and f: "fields_grammar body kvs"
    and res: "res = \<lparr>req_line = l, req_fields = fold append_pair kvs (append_pair kv m)\<rparr>"
    unfolding reads_fields_def by blast
  show ?thesis
    unfolding reads_fields_def
    by (rule exI [of _ "line @ body"], rule exI [of _ "kv # kvs"])
       (simp add: s res fields_grammar_Cons [OF assms(1) f])
qed

lemma name_sound:
  assumes acc: "accepts (in_name an [c] l m) s rest res"
    and start: "\<And>s' m'. length s' < length s \<Longrightarrow> accepts (line_start l m') s' rest res \<Longrightarrow>
      reads_fields l m' s' rest res"
    and pend: "\<And>s' b n. length s' < length s \<Longrightarrow> accepts (pending b n l m) s' rest res \<Longrightarrow>
      \<exists>t w s''. s' = t @ s'' \<and> folded t w \<and> is_token n \<and> wf_value (rtrim (b @ w))
        \<and> reads_fields l (append_pair (Field_name n, rtrim (b @ w)) m) s'' rest res"
  shows "reads_fields l m (c # s) rest res"
proof -
  from acc obtain cs s1 where s: "s = cs @ CHR '':'' # s1"
    and v: "accepts (value_start an (c # cs) l m) s1 rest res"
    by (auto simp: name_accepts)
  from v obtain ws d s2 where s1: "s1 = ws @ d # s2" and ws: "list_all is_strict_whitespace ws"
    and d: "\<not> is_strict_whitespace d"
    and more: "if d = CR
         then is_token (c # cs)
           \<and> (\<exists>s''. s2 = LF # s'' \<and> accepts (line_start l (append_pair (Field_name (c # cs), []) m)) s'' rest res)
         else accepts (in_value an [d] (c # cs) l m) s2 rest res"
    unfolding value_accepts by blast
  show ?thesis
  proof (cases "d = CR")
    case True
    with more obtain s3 where tok: "is_token (c # cs)" and s2: "s2 = LF # s3"
      and go: "accepts (line_start l (append_pair (Field_name (c # cs), []) m)) s3 rest res" by auto
    have "reads_fields l (append_pair (Field_name (c # cs), []) m) s3 rest res"
      by (rule start [OF _ go]) (simp add: s s1 s2)
    from reads_fields_field [OF field_empty [OF tok ws] this] show ?thesis by (simp add: s s1 s2 True)
  next
    case False
    with more obtain es s3 where s2: "s2 = es @ CR # LF # s3" and es: "CR \<notin> set es"
      and go: "accepts (pending (d # es) (c # cs) l m) s3 rest res"
      by (auto simp: in_value_accepts)
    have "length s3 < length s" by (simp add: s s1 s2)
    from pend [OF this go] obtain t w s4 where s3: "s3 = t @ s4" and t: "folded t w"
      and tok: "is_token (c # cs)" and val: "wf_value (rtrim (d # es @ w))"
      and rest: "reads_fields l (append_pair (Field_name (c # cs), rtrim (d # es @ w)) m) s4 rest res"
      by auto
    have "CR \<notin> set (d # es)" using False es by simp
    from reads_fields_field [OF field_value [OF tok ws d this t val] rest]
    show ?thesis by (simp add: s s1 s2 s3)
  qed
qed

lemma fields_sound:
  "(accepts (line_start l m) s rest res \<longrightarrow> reads_fields l m s rest res)
   \<and> (accepts (pending b n l m) s rest res \<longrightarrow>
        (\<exists>t w s'. s = t @ s' \<and> folded t w \<and> is_token n \<and> wf_value (rtrim (b @ w))
          \<and> reads_fields l (append_pair (Field_name n, rtrim (b @ w)) m) s' rest res))"
proof (induction s arbitrary: m b n rule: length_induct)
  case (1 s)
  have start: "accepts (line_start l m') s' rest res \<Longrightarrow> reads_fields l m' s' rest res"
    and pend: "accepts (pending b' n' l m') s' rest res \<Longrightarrow>
      \<exists>t w s''. s' = t @ s'' \<and> folded t w \<and> is_token n' \<and> wf_value (rtrim (b' @ w))
        \<and> reads_fields l (append_pair (Field_name n', rtrim (b' @ w)) m') s'' rest res"
    if "length s' < length s" for s' m' b' n' using 1 that by blast+
  have name: "reads_fields l m' (c # s') rest res"
    if "s = c # s'" "accepts (in_name an [c] l m') s' rest res" for an c s' m'
    by (rule name_sound [OF that(2)]) (use start pend that(1) in auto)
  show ?case
  proof (intro conjI impI)
    assume "accepts (line_start l m) s rest res"
    then show "reads_fields l m s rest res"
      unfolding line_start_accepts using name by (auto simp: reads_fields_end [simplified])
  next
    assume "accepts (pending b n l m) s rest res"
    then consider
        (continued) c s1 where "s = c # s1" "is_strict_whitespace c" "accepts (in_fold b n l m) s1 rest res"
      | (stored) "is_token n" "wf_value (rtrim b)"
          "reads_fields l (append_pair (Field_name n, rtrim b) m) s rest res"
      unfolding pending_accepts using name reads_fields_end by metis
    then show "\<exists>t w s'. s = t @ s' \<and> folded t w \<and> is_token n \<and> wf_value (rtrim (b @ w))
          \<and> reads_fields l (append_pair (Field_name n, rtrim (b @ w)) m) s' rest res"
    proof cases
      case stored
      then show ?thesis using folded_none by (metis append_Nil append_Nil2)
    next
      case continued
      from continued(3) obtain ws d s2 where s1: "s1 = ws @ d # s2"
        and ws: "list_all is_strict_whitespace ws" and d: "\<not> is_strict_whitespace d"
        and more: "if d = CR then \<exists>s''. s2 = LF # s'' \<and> accepts (pending b n l m) s'' rest res
           else accepts (in_value Fields_check_continuation (b @ [SP, d]) n l m) s2 rest res"
        unfolding fold_accepts by blast
      show ?thesis
      proof (cases "d = CR")
        case True
        with more obtain s3 where s2: "s2 = LF # s3" and go: "accepts (pending b n l m) s3 rest res" by auto
        have "length s3 < length s" by (simp add: continued(1) s1 s2)
        from pend [OF this go] obtain t w s4 where t: "s3 = t @ s4" "folded t w"
          "is_token n \<and> wf_value (rtrim (b @ w))
            \<and> reads_fields l (append_pair (Field_name n, rtrim (b @ w)) m) s4 rest res" by blast
        have "s = (c # ws @ CRLF @ t) @ s4" by (simp add: continued(1) s1 s2 t(1) True)
        with folded_blank [OF continued(2) ws t(2)] t(3) show ?thesis by blast
      next
        case False
        with more obtain es s3 where s2: "s2 = es @ CR # LF # s3" and es: "CR \<notin> set es"
          and go: "accepts (pending ((b @ [SP, d]) @ es) n l m) s3 rest res"
          by (auto simp: in_value_accepts)
        have "length s3 < length s" by (simp add: continued(1) s1 s2)
        from pend [OF this go] obtain t w s4 where t: "s3 = t @ s4" "folded t w"
          "is_token n \<and> wf_value (rtrim (((b @ [SP, d]) @ es) @ w))
            \<and> reads_fields l (append_pair (Field_name n, rtrim (((b @ [SP, d]) @ es) @ w)) m) s4 rest res" by blast
        have "CR \<notin> set (d # es)" using False es by simp
        from folded_text [OF continued(2) ws d this t(2)]
        have f: "folded (c # ws @ d # es @ CRLF @ t) (SP # d # es @ w)" .
        have "s = (c # ws @ d # es @ CRLF @ t) @ s4" by (simp add: continued(1) s1 s2 t(1))
        moreover have "((b @ [SP, d]) @ es) @ w = b @ SP # d # es @ w" by simp
        ultimately show ?thesis using f t(3) by metis
      qed
    qed
  qed
qed

section \<open>What is in the grammar is accepted\<close>

lemma folded_complete:
  "folded t w \<Longrightarrow> accepts (pending (b @ w) n l m) s rest res \<Longrightarrow> accepts (pending b n l m) (t @ s) rest res"
proof (induction arbitrary: b rule: folded.induct)
  case (folded_blank c ws t v)
  then have "accepts (in_fold b n l m) (ws @ CR # LF # t @ s) rest res"
    unfolding fold_accepts by - (intro exI conjI, rule refl, auto simp: is_strict_whitespace_def)
  with folded_blank.hyps(1) show ?case unfolding pending_accepts by auto
next
  case (folded_text c ws d es t v)
  have "accepts (pending ((b @ [SP, d]) @ es) n l m) (t @ s) rest res"
    by (rule folded_text.IH) (use folded_text.prems in simp)
  then have "accepts (in_value Fields_check_continuation (b @ [SP, d]) n l m) (es @ CR # LF # t @ s) rest res"
    unfolding in_value_accepts using folded_text.hyps(4) by fastforce
  with folded_text.hyps have "accepts (in_fold b n l m) (ws @ d # es @ CR # LF # t @ s) rest res"
    unfolding fold_accepts by - (intro exI conjI, rule refl, auto)
  with folded_text.hyps(1) show ?case unfolding pending_accepts by auto
qed simp

text \<open>
  The parser at the start of a line, seen with the field it may still have to store:
  whichever it is, it goes on the same way.
\<close>

inductive next_line :: "request_line \<Rightarrow> field_map \<Rightarrow> request_header_parser \<Rightarrow> bool" where
  next_fresh: "next_line l m (line_start l m)"
| next_stored: "is_token n \<Longrightarrow> wf_value (rtrim b) \<Longrightarrow>
     next_line l (append_pair (Field_name n, rtrim b) m) (pending b n l m)"

lemma next_line_end:
  "next_line l m p \<Longrightarrow> accepts p (CRLF @ rest) rest \<lparr>req_line = l, req_fields = m\<rparr>"
  by (cases rule: next_line.cases) (auto simp: line_start_accepts pending_accepts simp del: accepts_simps)

lemma next_line_name:
  assumes "next_line l m p" and "is_token n"
    and "\<And>an. accepts (value_start an n l m) s rest res"
  shows "accepts p (n @ CHR '':'' # s) rest res"
proof -
  obtain c cs where n: "n = c # cs" using assms(2) by (cases n) (auto simp: is_token_iff)
  have c: "c \<noteq> CR" "\<not> is_strict_whitespace c" and cs: "CHR '':'' \<notin> set cs"
    using assms(2) by (auto simp: n is_token_iff list_all_iff is_strict_whitespace_def dest: is_token_char_plain)
  have "accepts (in_name an [c] l m) (cs @ CHR '':'' # s) rest res" for an
    unfolding name_accepts using cs assms(3) [of an] n by auto
  with assms(1) c show ?thesis
    by (cases rule: next_line.cases) (auto simp: n line_start_accepts pending_accepts simp del: accepts_simps)
qed

lemma field_complete:
  assumes "field_line line kv" and "next_line l m p"
    and go: "\<And>p'. next_line l (append_pair kv m) p' \<Longrightarrow> accepts p' s rest res"
  shows "accepts p (line @ s) rest res"
  using assms(1)
proof cases
  case (field_empty n ws)
  have "accepts (line_start l (append_pair (Field_name n, []) m)) s rest res"
    using go next_fresh by (simp add: field_empty(2))
  then have "accepts (value_start an n l m) (ws @ CR # LF # s) rest res" for an
    unfolding value_accepts using field_empty(3,4)
    by - (intro exI conjI, rule refl, auto simp: is_strict_whitespace_def)
  from next_line_name [OF assms(2) _ this] show ?thesis using field_empty by simp
next
  case (field_value n ws d es t w)
  have "accepts (pending (d # es @ w) n l m) s rest res"
    using go [of "pending (d # es @ w) n l m"] next_stored [of n "d # es @ w" l m] field_value by simp
  then have "accepts (pending (d # es) n l m) (t @ s) rest res"
    using folded_complete [OF field_value(7), of "d # es"] by simp
  then have "accepts (in_value an [d] n l m) (es @ CR # LF # t @ s) rest res" for an
    unfolding in_value_accepts using field_value(6) by fastforce
  then have "accepts (value_start an n l m) (ws @ d # es @ CR # LF # t @ s) rest res" for an
    unfolding value_accepts using field_value
    by - (intro exI conjI, rule refl, auto)
  from next_line_name [OF assms(2) _ this] show ?thesis using field_value by simp
qed

lemma fields_complete:
  "list_all2 field_line lines kvs \<Longrightarrow> next_line l m p \<Longrightarrow>
   accepts p (concat lines @ CRLF @ rest) rest \<lparr>req_line = l, req_fields = fold append_pair kvs m\<rparr>"
proof (induction arbitrary: m p rule: list_all2_induct)
  case Nil
  then show ?case using next_line_end by simp
next
  case (Cons line lines kv kvs)
  have "accepts p (line @ concat lines @ CRLF @ rest) rest
      \<lparr>req_line = l, req_fields = fold append_pair kvs (append_pair kv m)\<rparr>"
    by (rule field_complete [OF Cons.hyps(1) Cons.prems Cons.IH])
  then show ?case by simp
qed

section \<open>The parser and the grammar agree\<close>

lemma reads_fields_iff:
  "accepts (line_start l m) s rest res \<longleftrightarrow> reads_fields l m s rest res"
proof
  show "accepts (line_start l m) s rest res \<Longrightarrow> reads_fields l m s rest res"
    using fields_sound by blast
  assume "reads_fields l m s rest res"
  then obtain lines kvs where s: "s = concat lines @ CRLF @ rest" and f: "list_all2 field_line lines kvs"
    and res: "res = \<lparr>req_line = l, req_fields = fold append_pair kvs m\<rparr>"
    unfolding reads_fields_def fields_grammar_def by auto
  show "accepts (line_start l m) s rest res"
    unfolding s res by (rule fields_complete [OF f next_fresh])
qed

lemma accepts_header_iff:
  "accepts request_header_parser_init s rest h \<longleftrightarrow> (\<exists>body. s = body @ rest \<and> header_grammar body h)"
proof -
  have "accepts request_header_parser_init s rest h
      \<longleftrightarrow> (\<exists>t l s'. s = t @ s' \<and> request_line_text t l \<and> reads_fields l [] s' rest h)"
    by (simp only: request_line_completes reads_fields_iff)
  also have "\<dots> \<longleftrightarrow> (\<exists>body. s = body @ rest \<and> header_grammar body h)"
  proof
    assume "\<exists>t l s'. s = t @ s' \<and> request_line_text t l \<and> reads_fields l [] s' rest h"
    then obtain t l fs kvs where "s = (t @ fs) @ rest" "request_line_text t l" "fields_grammar fs kvs"
      "h = \<lparr>req_line = l, req_fields = fold append_pair kvs []\<rparr>"
      unfolding reads_fields_def by auto
    then show "\<exists>body. s = body @ rest \<and> header_grammar body h"
      unfolding header_grammar_def by (metis request_header.select_convs)
  next
    assume "\<exists>body. s = body @ rest \<and> header_grammar body h"
    then obtain t fs kvs where s: "s = t @ fs @ rest" and t: "request_line_text t (req_line h)"
      and fs: "fields_grammar fs kvs" and h: "req_fields h = fold append_pair kvs []"
      unfolding header_grammar_def by auto
    have "h = \<lparr>req_line = req_line h, req_fields = fold append_pair kvs []\<rparr>" by (simp add: h)
    with s t fs show "\<exists>t l s'. s = t @ s' \<and> request_line_text t l \<and> reads_fields l [] s' rest h"
      unfolding reads_fields_def by blast
  qed
  finally show ?thesis .
qed

text \<open>
  C13: the parser accepts exactly the grammar. It reports a header as completed, and leaves
  a rest, if and only if the input is the rest behind a text that the grammar of request
  headers gives that header; folded values, repeated fields and white space
  around values are part of it. So a text has at most one reading, of one length, and
  everything that is not in the grammar is refused or not yet complete.
\<close>

theorem parser_accepts_grammar:
  "(\<exists>p'. parse request_header_parser_init s = Inr (p', rest, Completed) \<and> take_result p' = h)
     \<longleftrightarrow> (\<exists>body. s = body @ rest \<and> header_grammar body h)"
  using accepts_header_iff [of s rest h] by (simp add: accepts_def take_result_def)

text \<open>
  C17: nothing is refused too early. When the parser refuses its input with any of its
  error codes, nothing that could have followed would have made it the text of a request
  header.
\<close>

theorem refused_never_completes:
  assumes "parse request_header_parser_init s = Inr (p', rest, ec)"
    and "ec \<notin> {Completed, More_data_needed}"
  shows "\<not> (\<exists>t body more h. s @ t = body @ more \<and> header_grammar body h)"
proof
  assume "\<exists>t body more h. s @ t = body @ more \<and> header_grammar body h"
  then obtain t more h where "accepts request_header_parser_init (s @ t) more h"
    using accepts_header_iff by blast
  with assms show False by (simp add: accepts_def parse_append)
qed

theorem refused_never_completes_witness:
  "\<not> (\<exists>t body more h. ''G(T '' @ t = body @ more \<and> header_grammar body h)"
proof -
  have "method_create ''G(T'' = None"
    by (simp add: is_token_iff is_token_char_def is_not_token_char_iff is_delimiter_def)
  then obtain p' where "parse request_header_parser_init ''G(T '' = Inr (p', [], Bad_request_method)"
    by (simp add: request_header_parser_init_def parse_step_def step_read_method_def)
  from refused_never_completes [OF this] show ?thesis by simp
qed

end
