(* ===== verification/Http_Utils.thy ===== *)
theory Http_Utils
  imports Header_Fields
begin

text \<open>
  \<^verbatim>\<open>src/lib/http_utils.hpp\<close>: the cookie string parser, and the coding of URI
  components. A cookie store is a \<open>std::map\<close> from strings to strings, ordered by the
  bytes of the keys.
\<close>

section \<open>Cookies\<close>

datatype cookie_string_parser_error_code =
    Cookie_no_error
  | Empty_key
  | Invalid_key
  | Duplicated_key
  | Key_incomplete
  | Single_space_expected

datatype cookie_state = Cookie_key | Cookie_value | Cookie_expect_one_whitespace

type_synonym cookie_store = "(string, string) omap"

definition string_cmp :: "string \<Rightarrow> string \<Rightarrow> ordering" where
  "string_cmp a b = three_way a b"

interpretation string_order: projected_order "\<lambda>s. s" string_cmp
  by unfold_locales (simp add: string_cmp_def)

text \<open>
  The loop: the input from \<open>ptr\<close> on, the code and the store, at the return.
\<close>

fun parse_cookie_loop ::
  "cookie_state \<Rightarrow> string \<Rightarrow> string \<Rightarrow> cookie_store \<Rightarrow> string \<Rightarrow>
   string \<times> cookie_string_parser_error_code \<times> cookie_store" where
  "parse_cookie_loop current_state buffer key values [] =
     (if key = [] then ([], Key_incomplete, values)
      else
        (case om_emplace string_cmp key buffer values of (values1, inserted) \<Rightarrow>
           if \<not> inserted then ([], Duplicated_key, values1)
           else ([], Cookie_no_error, values1)))"
| "parse_cookie_loop current_state buffer key values (ch_in # ptr) =
     (case current_state of
        Cookie_key \<Rightarrow>
          if ch_in = CHR ''='' then
            if buffer = [] then (ptr, Empty_key, values)
            else if \<not> is_token buffer then (ptr, Invalid_key, values)
            else parse_cookie_loop Cookie_value [] buffer values ptr
          else parse_cookie_loop Cookie_key (buffer @ [ch_in]) key values ptr
      | Cookie_value \<Rightarrow>
          if ch_in = CHR '';'' then
            (case om_emplace string_cmp key buffer values of (values1, inserted) \<Rightarrow>
               if \<not> inserted then (ptr, Duplicated_key, values1)
               else parse_cookie_loop Cookie_expect_one_whitespace [] [] values1 ptr)
          else parse_cookie_loop Cookie_value (buffer @ [ch_in]) key values ptr
      | Cookie_expect_one_whitespace \<Rightarrow>
          if ch_in = SP then parse_cookie_loop Cookie_key buffer key values ptr
          else (ptr, Single_space_expected, values))"

definition parse_cookie_string ::
  "string \<Rightarrow> cookie_store \<Rightarrow> string \<times> cookie_string_parser_error_code \<times> cookie_store" where
  "parse_cookie_string str values = parse_cookie_loop Cookie_key [] [] values str"

text \<open>What an accepted string looks like: pairs, separated by a semicolon and a space.\<close>

definition cookie_pair :: "string \<times> string \<Rightarrow> string" where
  "cookie_pair kv = fst kv @ ''='' @ snd kv"

fun cookie_text :: "(string \<times> string) list \<Rightarrow> string" where
  "cookie_text [] = []"
| "cookie_text [kv] = cookie_pair kv"
| "cookie_text (kv # kvs) = cookie_pair kv @ ''; '' @ cookie_text kvs"

definition insert_cookies :: "(string \<times> string) list \<Rightarrow> cookie_store \<Rightarrow> cookie_store" where
  "insert_cookies kvs m = fold (\<lambda>kv m. fst (om_emplace string_cmp (fst kv) (snd kv) m)) kvs m"

definition wf_cookie :: "string \<times> string \<Rightarrow> bool" where
  "wf_cookie kv \<longleftrightarrow> is_token (fst kv) \<and> CHR '';'' \<notin> set (snd kv)"

fun fresh_cookies :: "(string \<times> string) list \<Rightarrow> cookie_store \<Rightarrow> bool" where
  "fresh_cookies [] m \<longleftrightarrow> True"
| "fresh_cookies (kv # kvs) m \<longleftrightarrow>
     snd (om_emplace string_cmp (fst kv) (snd kv) m) \<and> fresh_cookies kvs (insert_cookies [kv] m)"

lemma token_no_equals: "is_token s \<Longrightarrow> CHR ''='' \<notin> set s \<and> s \<noteq> []"
  by (auto simp: is_token_iff list_all_iff is_token_char_def is_not_token_char_iff is_delimiter_def)

lemma cookie_key_step:
  "CHR ''='' \<notin> set k \<Longrightarrow>
   parse_cookie_loop Cookie_key buffer key m (k @ ''='' @ s) =
     (if buffer @ k = [] then (s, Empty_key, m)
      else if \<not> is_token (buffer @ k) then (s, Invalid_key, m)
      else parse_cookie_loop Cookie_value [] (buffer @ k) m s)"
  by (induction k arbitrary: buffer) auto

lemma cookie_value_step:
  "CHR '';'' \<notin> set v \<Longrightarrow>
   parse_cookie_loop Cookie_value buffer key m (v @ s) =
   parse_cookie_loop Cookie_value (buffer @ v) key m s"
  by (induction v arbitrary: buffer) auto

lemma cookie_text_Cons:
  "kvs \<noteq> [] \<Longrightarrow> cookie_text (kv # kvs) = cookie_pair kv @ ''; '' @ cookie_text kvs"
  by (cases kvs) simp_all

lemma parse_cookie_text:
  "kvs \<noteq> [] \<Longrightarrow> list_all wf_cookie kvs \<Longrightarrow> fresh_cookies kvs m \<Longrightarrow>
   parse_cookie_loop Cookie_key [] [] m (cookie_text kvs) = ([], Cookie_no_error, insert_cookies kvs m)"
proof (induction kvs arbitrary: m)
  case (Cons kv kvs)
  obtain k v where kv: "kv = (k, v)" by (cases kv)
  with Cons.prems have k: "is_token k" and v: "CHR '';'' \<notin> set v" by (simp_all add: wf_cookie_def)
  obtain m1 where m1: "om_emplace string_cmp k v m = (m1, True)"
    using Cons.prems(3) kv by (cases "om_emplace string_cmp k v m") auto
  show ?case
  proof (cases "kvs = []")
    case True
    with token_no_equals [OF k] k v m1 show ?thesis
      using cookie_value_step [OF v, of "[]" k m "[]"]
      by (simp add: kv cookie_pair_def cookie_key_step [simplified] insert_cookies_def)
  next
    case False
    have "fresh_cookies kvs m1" using Cons.prems(3) m1 by (simp add: kv insert_cookies_def)
    with Cons.IH [of m1] False Cons.prems(2) token_no_equals [OF k] k v m1 show ?thesis
      by (simp add: kv cookie_text_Cons cookie_pair_def cookie_key_step [simplified]
          cookie_value_step insert_cookies_def)
  qed
qed simp

text \<open>What a string that is accepted from each state must be.\<close>

definition cookies_of :: "string \<Rightarrow> cookie_store \<Rightarrow> cookie_store \<Rightarrow> bool" where
  "cookies_of str m m' \<longleftrightarrow> (\<exists>kvs. kvs \<noteq> [] \<and> str = cookie_text kvs \<and> list_all wf_cookie kvs
     \<and> fresh_cookies kvs m \<and> m' = insert_cookies kvs m)"

lemma cookies_of_one:
  assumes "is_token k" and "CHR '';'' \<notin> set v" and "om_emplace string_cmp k v m = (m', True)"
  shows "cookies_of (k @ ''='' @ v) m m'"
  unfolding cookies_of_def
  by (rule exI [of _ "[(k, v)]"]) (simp add: assms wf_cookie_def cookie_pair_def insert_cookies_def)

lemma cookies_of_more:
  assumes "is_token k" and "CHR '';'' \<notin> set v" and "om_emplace string_cmp k v m = (m1, True)"
    and "cookies_of s m1 m'"
  shows "cookies_of (k @ ''='' @ v @ ''; '' @ s) m m'"
proof -
  from assms(4) obtain kvs where "kvs \<noteq> []" "s = cookie_text kvs" "list_all wf_cookie kvs"
    "fresh_cookies kvs m1" "m' = insert_cookies kvs m1" by (auto simp: cookies_of_def)
  with assms(1-3) show ?thesis
    unfolding cookies_of_def
    by (intro exI [of _ "(k, v) # kvs"])
       (simp add: wf_cookie_def cookie_text_Cons cookie_pair_def insert_cookies_def)
qed

lemma parse_cookie_loop_sound:
  assumes "parse_cookie_loop st buffer key m s = (rest, Cookie_no_error, m')"
    and "case st of
           Cookie_key \<Rightarrow> key = [] \<and> CHR ''='' \<notin> set buffer
         | Cookie_value \<Rightarrow> is_token key \<and> CHR '';'' \<notin> set buffer
         | Cookie_expect_one_whitespace \<Rightarrow> key = [] \<and> buffer = []"
  shows "case st of
           Cookie_key \<Rightarrow> cookies_of (buffer @ s) m m'
         | Cookie_value \<Rightarrow> cookies_of (key @ ''='' @ buffer @ s) m m'
         | Cookie_expect_one_whitespace \<Rightarrow> \<exists>t. s = SP # t \<and> cookies_of t m m'"
  using assms
proof (induction s arbitrary: st buffer key m)
  case Nil
  then show ?case
    by (cases st) (auto split: prod.splits if_splits intro: cookies_of_one [simplified])
next
  case (Cons c s)
  show ?case
  proof (cases st)
    case Cookie_key
    show ?thesis
    proof (cases "c = CHR ''=''")
      case True
      with Cookie_key Cons.prems
      have "is_token buffer" "parse_cookie_loop Cookie_value [] buffer m s = (rest, Cookie_no_error, m')"
        by (auto split: if_splits)
      with Cons.IH [of Cookie_value "[]" buffer m] Cookie_key True show ?thesis by simp
    next
      case False
      with Cons.IH [of Cookie_key "buffer @ [c]" key m] Cookie_key Cons.prems show ?thesis by simp
    qed
  next
    case Cookie_value
    show ?thesis
    proof (cases "c = CHR '';''")
      case True
      with Cookie_value Cons.prems(1) obtain m1 where
        m1: "om_emplace string_cmp key buffer m = (m1, True)"
        and p: "parse_cookie_loop Cookie_expect_one_whitespace [] [] m1 s = (rest, Cookie_no_error, m')"
        by (auto split: prod.splits if_splits)
      from Cons.IH [OF p] obtain t where "s = SP # t" "cookies_of t m1 m'" by auto
      with cookies_of_more [OF _ _ m1, of t m'] Cons.prems(2) Cookie_value True show ?thesis by simp
    next
      case False
      with Cons.IH [of Cookie_value "buffer @ [c]" key m] Cookie_value Cons.prems show ?thesis by simp
    qed
  next
    case Cookie_expect_one_whitespace
    with Cons.IH [of Cookie_key buffer key m] Cons.prems show ?thesis by (auto split: if_splits)
  qed
qed

text \<open>
  C35: the cookie parser accepts exactly the strings that are a list of pairs, a token, an
  equals sign and a value without a semicolon each, separated by one semicolon and one
  space, with names that are new to the store and to each other; the store then has all of
  them in addition. A string is parsed back to the pairs it was written from, and nothing
  else is accepted.
\<close>

theorem parse_cookie_string_accepts:
  "parse_cookie_string str m = (rest, Cookie_no_error, m') \<longleftrightarrow>
     rest = [] \<and> (\<exists>kvs. kvs \<noteq> [] \<and> str = cookie_text kvs \<and> list_all wf_cookie kvs
       \<and> fresh_cookies kvs m \<and> m' = insert_cookies kvs m)"
proof
  assume p: "parse_cookie_string str m = (rest, Cookie_no_error, m')"
  then have "cookies_of str m m'"
    using parse_cookie_loop_sound [of Cookie_key "[]" "[]" m str rest m']
    by (simp add: parse_cookie_string_def)
  with p show "rest = [] \<and> (\<exists>kvs. kvs \<noteq> [] \<and> str = cookie_text kvs \<and> list_all wf_cookie kvs
       \<and> fresh_cookies kvs m \<and> m' = insert_cookies kvs m)"
    unfolding cookies_of_def by (auto simp: parse_cookie_string_def parse_cookie_text)
qed (auto simp: parse_cookie_string_def parse_cookie_text)

lemma emplace_keeps:
  assumes "om_ordered string_cmp m" and "om_emplace string_cmp key v m = (m1, inserted)"
    and "om_find (string_cmp q) m = Some w"
  shows "om_ordered string_cmp m1 \<and> om_find (string_cmp q) m1 = Some w"
proof -
  have "\<not> (inserted \<and> string_cmp q key = Equal_to)"
    using string_order.emplace_inserted_iff [OF assms(1,2)] assms(3) string_order.cmp_equal
    by (metis option.distinct(1) string_order.equal_iff_proj)
  with string_order.emplace_find [OF assms(1,2)] string_order.emplace_ordered [OF assms(1,2)] assms(3)
  show ?thesis by auto
qed

lemma parse_cookie_loop_keeps:
  assumes "parse_cookie_loop st buffer key m s = (rest, ec, m')" and "om_ordered string_cmp m"
  shows "om_ordered string_cmp m' \<and> (\<forall>q w. om_find (string_cmp q) m = Some w \<longrightarrow>
           om_find (string_cmp q) m' = Some w)"
  using assms
proof (induction s arbitrary: st buffer key m)
  case Nil
  with string_order.emplace_ordered [OF Nil.prems(2)] emplace_keeps [OF Nil.prems(2)] show ?case
    by (auto split: prod.splits if_splits)
next
  case (Cons c s)
  show ?case
  proof (cases st)
    case Cookie_value
    show ?thesis
    proof (cases "c = CHR '';''")
      case True
      obtain m1 ins where m1: "om_emplace string_cmp key buffer m = (m1, ins)" by fastforce
      from string_order.emplace_ordered [OF Cons.prems(2) m1] have o1: "om_ordered string_cmp m1" .
      with Cons.prems(1) True Cookie_value m1 Cons.IH [of Cookie_expect_one_whitespace "[]" "[]" m1]
        emplace_keeps [OF Cons.prems(2) m1]
      show ?thesis by (auto split: if_splits)
    qed (use Cons.IH Cons.prems Cookie_value in auto)
  qed (use Cons.IH Cons.prems in \<open>auto split: if_splits\<close>)
qed

text \<open>
  Whatever the string and however the parse ends, the store stays ordered and every
  cookie it had keeps its value: a repeated name is refused, never overwritten.
\<close>

theorem parse_cookie_string_keeps:
  assumes "om_ordered string_cmp m"
    and "parse_cookie_string str m = (rest, ec, m')"
  shows "om_ordered string_cmp m' \<and> (\<forall>q w. om_find (string_cmp q) m = Some w \<longrightarrow>
           om_find (string_cmp q) m' = Some w)"
  by (rule parse_cookie_loop_keeps [OF assms(2) [unfolded parse_cookie_string_def] assms(1)])

theorem parse_cookie_string_keeps_witness:
  "parse_cookie_string ''b=2; a=3'' [(''a'', ''1'')]
     = ([], Duplicated_key, [(''a'', ''1''), (''b'', ''2'')])
   \<and> om_ordered string_cmp [(''a'', ''1''), (''b'', ''2'')]
   \<and> om_find (string_cmp ''a'') [(''a'', ''1''), (''b'', ''2'')] = Some ''1''"
proof -
  have p: "parse_cookie_string ''b=2; a=3'' [(''a'', ''1'')]
      = ([], Duplicated_key, [(''a'', ''1''), (''b'', ''2'')])"
    by (simp add: parse_cookie_string_def is_token_iff is_token_char_def is_not_token_char_iff
        is_delimiter_def string_cmp_def three_way_def less_char_def)
  have "om_ordered string_cmp [(''a'', ''1'')]" "om_find (string_cmp ''a'') [(''a'', ''1'')] = Some ''1''"
    by (simp_all add: string_cmp_def)
  with parse_cookie_string_keeps [OF _ p] p show ?thesis by blast
qed

section \<open>URI components\<close>

definition is_unescaped :: "char \<Rightarrow> bool" where
  "is_unescaped item \<longleftrightarrow>
     (char_val item \<ge> char_val CHR ''A'' \<and> char_val item \<le> char_val CHR ''Z'') \<or>
     (char_val item \<ge> char_val CHR ''a'' \<and> char_val item \<le> char_val CHR ''z'') \<or>
     (char_val item \<ge> char_val CHR ''0'' \<and> char_val item \<le> char_val CHR ''9'') \<or>
     item = CHR ''-'' \<or> item = CHR ''_'' \<or>
     item = CHR ''!'' \<or> item = CHR ''~'' \<or>
     item = CHR ''*'' \<or> item = CHR 0x27 \<or>
     item = CHR ''('' \<or> item = CHR '')'' \<or> item = CHR ''.''"

definition to_hex_digit :: "int \<Rightarrow> int" where
  "to_hex_digit x = (if x < 10 then x + char_val CHR ''0'' else (x - 10) + char_val CHR ''A'')"

definition encode_uri_char :: "char \<Rightarrow> string" where
  "encode_uri_char item =
     (if is_unescaped item then [item]
      else
        let msb = drop_bit 4 (char_val item AND 0xf0);
            lsb = char_val item AND 0x0f
        in [CHR ''%'', to_char (to_hex_digit msb), to_char (to_hex_digit lsb)])"

definition encode_uri_component :: "string \<Rightarrow> string" where
  "encode_uri_component str = fold (\<lambda>item ret. ret @ encode_uri_char item) str []"

definition from_hex_digit :: "char \<Rightarrow> int" where
  "from_hex_digit x =
     (if char_val x \<le> char_val CHR ''9'' then char_val x - char_val CHR ''0''
      else (char_val x - char_val CHR ''A'') + 10)"

datatype uri_state = Uri_normal | Uri_escape_1 | Uri_escape_2

text \<open>
  The state of the decoder: the current state, the variable for the decoded value (which
  the code leaves uninitialised: an argument of the model) and the text so far.
\<close>

fun decode_uri_char :: "char \<Rightarrow> uri_state \<times> char \<times> string \<Rightarrow> uri_state \<times> char \<times> string" where
  "decode_uri_char item (Uri_normal, decoded_value, ret) =
     (if item = CHR ''%'' then (Uri_escape_1, decoded_value, ret)
      else (Uri_normal, decoded_value, ret @ [item]))"
| "decode_uri_char item (Uri_escape_1, decoded_value, ret) =
     (Uri_escape_2, to_char (push_bit 4 (from_hex_digit item)), ret)"
| "decode_uri_char item (Uri_escape_2, decoded_value, ret) =
     (let decoded_value = to_char (char_val decoded_value OR from_hex_digit item)
      in (Uri_normal, decoded_value, ret @ [decoded_value]))"

definition decode_uri_component :: "char \<Rightarrow> string \<Rightarrow> string" where
  "decode_uri_component indeterminate str =
     snd (snd (fold decode_uri_char str (Uri_normal, indeterminate, [])))"

lemma encode_uri_component_concat: "encode_uri_component s = concat (map encode_uri_char s)"
proof -
  have "fold (\<lambda>item ret. ret @ encode_uri_char item) s r = r @ concat (map encode_uri_char s)" for r
    by (induction s arbitrary: r) simp_all
  then show ?thesis by (simp add: encode_uri_component_def)
qed

lemma high_nibble: "drop_bit 4 (char_val c) AND 15 = int (ascii c div 16)"
proof -
  have "drop_bit 4 (char_val c) AND 15 = (char_val c div 16) mod 16"
    using take_bit_eq_mask [of 4 "char_val c div 16"]
    by (simp add: drop_bit_eq_div take_bit_eq_mod mask_eq_exp_minus_1)
  also have "\<dots> = int (ascii c div 16)"
  proof -
    have "(int k - 256) div 16 = int k div 16 - 16" for k
      using div_mult_self1 [of 16 "int k" "- 16"] by simp
    then show ?thesis using ascii_le [of c] by (auto simp: char_val_def)
  qed
  finally show ?thesis .
qed

lemma low_nibble: "char_val c AND 0x0f = int (ascii c mod 16)"
proof -
  have "char_val c AND 0x0f = char_val c mod 16"
    using take_bit_eq_mask [of 4 "char_val c"] by (simp add: mask_eq_exp_minus_1 take_bit_eq_mod)
  also have "\<dots> = int (ascii c mod 16)"
    unfolding char_val_def by (simp add: zmod_int mod_diff_right_eq [symmetric])
  finally show ?thesis .
qed

lemma ascii_char_of: "n < 256 \<Longrightarrow> ascii (char_of n :: char) = n"
  by (simp add: of_char_of take_bit_eq_mod)

lemma to_hex_digit_range: "h < 16 \<Longrightarrow> 48 \<le> to_hex_digit (int h) \<and> to_hex_digit (int h) \<le> 70"
  by (auto simp: to_hex_digit_def char_val_def)

lemma char_val_to_char: "0 \<le> k \<Longrightarrow> k < 128 \<Longrightarrow> char_val (to_char k) = k"
  by (simp add: char_val_def to_char_def ascii_char_of)

lemma hex_digit_inverse: "h < 16 \<Longrightarrow> from_hex_digit (to_char (to_hex_digit (int h))) = int h"
  using to_hex_digit_range [of h] char_val_to_char [of "to_hex_digit (int h)"]
  by (auto simp: from_hex_digit_def to_hex_digit_def char_val_def split: if_splits)

lemma nibbles_joined:
  assumes "hi < 16" and "lo < 16"
  shows "to_char (char_val (to_char (push_bit 4 (int hi))) OR int lo) = char_of (16 * hi + lo)"
proof -
  have ascii16: "ascii (to_char (push_bit 4 (int hi))) = 16 * hi"
    using assms by (simp add: to_char_def push_bit_eq_mult ascii_char_of mult.commute nat_mult_distrib)
  have "char_val (to_char (push_bit 4 (int hi))) AND int lo = 0"
  proof (rule bit_eqI)
    fix n
    have lo: "int lo = take_bit 4 (int lo)" using assms(2) by (simp add: take_bit_eq_mod)
    have "take_bit 4 (char_val (to_char (push_bit 4 (int hi)))) = 0"
      unfolding char_val_def ascii16 by (auto simp: take_bit_eq_mod mod_diff_right_eq [symmetric])
    then have "n < 4 \<Longrightarrow> \<not> bit (char_val (to_char (push_bit 4 (int hi)))) n"
      by (metis bit_take_bit_iff bit_0_eq bot_apply bot_bool_def)
    moreover have "n \<ge> 4 \<Longrightarrow> \<not> bit (int lo) n"
      by (subst lo) (simp add: bit_take_bit_iff)
    ultimately show "bit (char_val (to_char (push_bit 4 (int hi))) AND int lo) n = bit (0::int) n"
      by (cases "n < 4") (auto simp: bit_and_iff)
  qed
  then have "char_val (to_char (push_bit 4 (int hi))) OR int lo
      = char_val (to_char (push_bit 4 (int hi))) + int lo"
    by (simp add: disjunctive_add_eq_or)
  also have "\<dots> mod 256 = int (16 * hi + lo)"
    using assms unfolding char_val_def ascii16
    by (auto simp: zmod_int mod_diff_left_eq [symmetric] algebra_simps)
  finally show ?thesis by (simp add: to_char_def)
qed

lemma decode_encoded_char:
  "\<exists>d'. fold decode_uri_char (encode_uri_char c) (Uri_normal, d, ret) = (Uri_normal, d', ret @ [c])"
proof (cases "is_unescaped c")
  case True
  then have "c \<noteq> CHR ''%''" by (auto simp: is_unescaped_def char_val_def)
  with True show ?thesis by (simp add: encode_uri_char_def)
next
  case False
  have "ascii c div 16 < 16" using ascii_le [of c] by simp
  with False nibbles_joined [of "ascii c div 16" "ascii c mod 16"] show ?thesis
    by (simp add: encode_uri_char_def high_nibble low_nibble hex_digit_inverse Let_def)
qed

lemma decode_encoded:
  "\<exists>d'. fold decode_uri_char (concat (map encode_uri_char s)) (Uri_normal, d, ret) = (Uri_normal, d', ret @ s)"
proof (induction s arbitrary: d ret)
  case (Cons c s)
  obtain d1 where "fold decode_uri_char (encode_uri_char c) (Uri_normal, d, ret) = (Uri_normal, d1, ret @ [c])"
    using decode_encoded_char by blast
  with Cons [of d1 "ret @ [c]"] show ?case by simp
qed simp

text \<open>
  C36: a text that was encoded as a URI component is decoded to itself, whatever its bytes
  (and whatever the uninitialised variable of the decoder held); the encoded text consists
  of percent signs and of the characters that need no escape, and is at most three times
  as long.
\<close>

theorem decode_encode_uri_component:
  "decode_uri_component indeterminate (encode_uri_component s) = s
   \<and> list_all (\<lambda>c. c = CHR ''%'' \<or> is_unescaped c) (encode_uri_component s)
   \<and> length s \<le> length (encode_uri_component s)
   \<and> length (encode_uri_component s) \<le> 3 * length s"
proof -
  have "list_all (\<lambda>c. c = CHR ''%'' \<or> is_unescaped c) (encode_uri_char c)" for c
  proof (cases "is_unescaped c")
    case False
    have "is_unescaped (to_char (to_hex_digit (int h)))" if "h < 16" for h
      using that to_hex_digit_range [of h] char_val_to_char [of "to_hex_digit (int h)"]
      by (auto simp: is_unescaped_def to_hex_digit_def char_val_def split: if_splits)
    moreover have "ascii c div 16 < 16" using ascii_le [of c] by simp
    ultimately show ?thesis using False
      by (simp add: encode_uri_char_def high_nibble low_nibble Let_def)
  qed (simp add: encode_uri_char_def)
  then have "list_all (\<lambda>c. c = CHR ''%'' \<or> is_unescaped c) (concat (map encode_uri_char s))"
    by (induction s) simp_all
  moreover have "length s \<le> length (concat (map encode_uri_char s))
      \<and> length (concat (map encode_uri_char s)) \<le> 3 * length s"
    by (induction s) (auto simp: encode_uri_char_def Let_def)
  ultimately show ?thesis
    using decode_encoded [of s indeterminate "[]"]
    by (auto simp: encode_uri_component_concat decode_uri_component_def)
qed

text \<open>
  The decoder reads a hexadecimal digit above 9 as if it were in upper case: the
  escapes of other encoders with lower case digits give other characters, here a small j
  where a capital J was meant, and an escape the text breaks off disappears.
\<close>

theorem decode_lower_case_hex:
  "decode_uri_component indeterminate ''%4A'' = ''J''
   \<and> decode_uri_component indeterminate ''%4a'' = ''j''
   \<and> decode_uri_component indeterminate ''a%4'' = ''a''"
proof -
  have "fold decode_uri_char ''%4A'' (Uri_normal, d, []) = (Uri_normal, CHR ''J'', ''J'')"
    and "fold decode_uri_char ''%4a'' (Uri_normal, d, []) = (Uri_normal, CHR ''j'', ''j'')"
    and "fold decode_uri_char ''a%4'' (Uri_normal, d, []) = (Uri_escape_2, CHR ''@'', ''a'')" for d
    by (simp_all add: from_hex_digit_def char_val_def to_char_def Let_def char_of_eq_iff)
  then show ?thesis by (simp add: decode_uri_component_def)
qed

end
