(* ===== verification/Spec2Isabelle.thy ===== *)
theory Spec2Isabelle
  imports Server_Properties Server_End Descriptors Echo_Server Idle_Service Input_Fds Request_Grammar Http_Utils
begin

text \<open>
  A verification development of west, a web server library in C++ made of headers.

  \<^bold>\<open>The program.\<close> A server enrols server sockets in a \<open>service_registry\<close>
  (\<^verbatim>\<open>src/lib/service_registry.hpp\<close>), whose \<open>fd_event_monitor\<close>
  (\<^verbatim>\<open>src/lib/io_fd_event_monitor.hpp\<close>) waits for events on their descriptors, calls
  the listener of each descriptor that is ready and one that has been idle for 20 seconds,
  and drops the listeners that asked for it. The listener of a server socket accepts a
  connection and adds a listener for it, which owns a \<open>request_processor\<close>
  (\<^verbatim>\<open>src/lib/http_request_processor.hpp\<close>). The processor runs through the states of a
  request: read the header, read the body, write the response header, write the response
  body, wait for data. Each state (\<^verbatim>\<open>src/lib/http_read_request_header.hpp\<close> and the four
  beside it) moves bytes through one of two windows with \<open>transfer_data\<close>
  (\<^verbatim>\<open>src/lib/io_adapter.hpp\<close>), from the socket to the header parser or the request
  handler, or from the header serializer or the handler to the socket. The program
  \<^verbatim>\<open>src/bin/http_echo.cpp\<close> is a server whose handler answers a request with the request itself,
  with a second service over which it is shut down.

  \<^bold>\<open>The theories, from the bottom up.\<close>
  \<^item> \<open>West_Prelude\<close>: the ways a call can end other than by returning (an exception, a failed
    assertion, \<open>abort\<close>, undefined behaviour, not returning) as the datatype \<open>fault\<close>, a
    result or a fault as \<open>faulty\<close>, its sequencing \<open>and_then\<close>, lemmas on lists and words.
  \<^item> \<open>West_Utils\<close>: \<^verbatim>\<open>src/lib/utils.hpp\<close>, \<^verbatim>\<open>src/lib/system_error.hpp\<close>. \<open>Ordered_Map\<close>: \<open>std::map\<close>.
  \<^item> \<open>Message_Header\<close>, \<open>Header_Fields\<close>, \<open>Field_Map\<close>:
    \<^verbatim>\<open>src/lib/http_message_header.hpp\<close>, versions and status codes, character classes and
    validated strings, the field map and the headers.
  \<^item> \<open>Request_Parser\<close>: \<^verbatim>\<open>src/lib/http_request_header_parser.hpp\<close>, one definition per
    case of the state machine. \<open>Request_Grammar\<close>: the texts it accepts, as a grammar.
    \<open>Header_Size\<close>: how large a header it builds.
    \<open>Response_Serializer\<close>:
    \<^verbatim>\<open>src/lib/http_response_header_serializer.hpp\<close>.
  \<^item> \<open>Io_Adapter\<close>: \<^verbatim>\<open>src/lib/io_adapter.hpp\<close>, \<^verbatim>\<open>src/lib/io_interfaces.hpp\<close>, the
    window over a buffer and the transfer loop.
  \<^item> \<open>Session\<close>: \<^verbatim>\<open>src/lib/http_session.hpp\<close> and the handler concept of
    \<^verbatim>\<open>src/lib/http_request_handler.hpp\<close>. \<open>Session_States\<close>: the five states.
    \<open>Request_Processor\<close>: \<^verbatim>\<open>src/lib/http_request_state_transitions.hpp\<close> and the
    processor.
  \<^item> \<open>Inet_Connection\<close>: connections of \<^verbatim>\<open>src/lib/io_inet_server_socket.hpp\<close>
    over a kernel, and the source \<^verbatim>\<open>src/stubs/data_source.hpp\<close>. \<open>Server_Socket\<close>: the server
    sockets of the same file, binding, listening, accepting, with what they use of
    \<^verbatim>\<open>src/lib/io_fd.hpp\<close>. \<open>Fd_Wrappers\<close>: the rest of that file, signal descriptors
    (\<^verbatim>\<open>src/lib/io_signal_fd.hpp\<close>), addresses and clients. \<open>Echo_Handler\<close>: the request handler of
    \<^verbatim>\<open>src/bin/http_echo.cpp\<close>.
  \<^item> \<open>Event_Monitor\<close>, \<open>Service_Registry\<close>: the event monitor; event handlers, accepting,
    enrolling, the loop over cycles (\<^verbatim>\<open>src/lib/service_registry.hpp\<close>), the HTTP service
    (\<^verbatim>\<open>src/lib/http_server.hpp\<close>, \<^verbatim>\<open>src/lib/http_session_factory.hpp\<close>), the
    administration service and \<open>main\<close>. \<open>Server_Runs\<close>: the states a started server can
    reach, cycle by cycle, while peers and the kernel act between them. \<open>Input_Fds\<close>: input
    descriptors with handlers of their own.
  \<^item> \<open>Http_Utils\<close>: \<^verbatim>\<open>src/lib/http_utils.hpp\<close>, cookies and URI components.
  \<^item> \<open>State_Contracts\<close>, \<open>Processor_Contracts\<close>: what the states and the processor promise.
    \<open>Socket_Frame\<close>: what a processor leaves alone about its socket.
  \<^item> \<open>Echo_Reference\<close>: the replies of the echo server as a function of all the bytes a peer
    sends, \<open>header_replies\<close>, which knows nothing of states, buffers and pieces.
    \<open>Echo_Session\<close>, \<open>Echo_Loop\<close>: where in these replies the processor is, state by state, and
    that its loop and its time-out keep to them.
  \<^item> \<open>Connection_Properties\<close>, \<open>Echo_Connection\<close>, \<open>Server_Properties\<close>, \<open>Server_End\<close>,
    \<open>Idle_Service\<close>, \<open>Descriptors\<close>, \<open>Echo_Server\<close>: the properties of a connection, of the echo
    server on one, of the server, of what ends it, of the time an idle listener waits, of the
    descriptors the server has open, and of the whole echo server towards all its peers, with
    examples.

  \<^bold>\<open>How code becomes definitions.\<close> An object is a record and a member function takes and
  returns it. A \<open>char\<close> is a \<open>char\<close>, with a signed comparison where the code compares
  characters as numbers; a \<open>size_t\<close> is a \<open>nat\<close> where its bound is proved or is that of a
  buffer, and a subtraction that could wrap is written out modulo \<open>2 ^ 64\<close>; version numbers
  and ports are words. A loop that may not end is a \<open>partial_function (option)\<close>, whose value
  \<open>None\<close> is not to return, and that it returns is part of the properties. An \<open>assert\<close> that
  fails, an exception and undefined behaviour are values.

  \<^bold>\<open>Interfaces.\<close> What the library leaves to others is a parameter, its operations in a
  record and what is relied upon in a locale: sources, sinks and sockets (\<open>source_contract\<close>,
  \<open>sink_contract\<close>, \<open>socket_contract\<close>), request handlers (\<open>handler_contract\<close>), system calls
  on streams (\<open>kernel_contract\<close>), epoll and the clock (\<open>epoll_contract\<close>), the listeners of a
  monitor (\<open>listener_contract\<close>), calls on server sockets (\<open>descriptor_calls\<close>,
  \<open>client_descriptors\<close>, \<open>descriptors\<close> and \<open>server_contract\<close>), the sessions of a server (\<open>http_sessions\<close>), and
  these put together (\<open>http_service\<close>, \<open>echo_service\<close>). The model's
  own parts discharge them: a TCP connection over a kernel is a socket, the parser is a sink
  and the serializer a source, the echo handler is a handler, and the listeners of the
  server, built from the request processor, keep the contract of listeners. A scripted
  kernel shows that the contracts can be met, and carries the examples.

  \<^bold>\<open>What is shown.\<close> Of the parser: it fails no assertion, does not depend on how its input
  is cut, accepts exactly the texts of a grammar, refuses nothing too early, and reads back
  every header in canonical form. Of the serializer: the pieces are
  the text, and no field value adds a line. Of each state: a refinement, what it did to the
  socket, the handler and the window, in terms of byte sequences. Of the processor: it
  returns, with its invariant kept and no assertion failed; how client errors and inactivity
  are answered. Of the echo server: whatever bytes a peer sends, it throws nothing, and what it
  has delivered is, at every time, a prefix of the replies of the reference: to whole requests
  the requests themselves, in order, and to what is not one a refusal with its status; when the
  socket makes it wait for nothing, it is all of them. Of the monitor and the server:
  listeners, deadlines and the interest list of the kernel agree after every cycle, every
  connection is watched for the direction its state needs, and shutting down ends the
  loop, as nothing else but an exception does. A listener that is overdue is called within as many cycles as there are listeners.
  The sockets that are open are those of the listeners, whatever fails. And the
  server as a whole gives each of its peers the replies of the reference to that peer's own
  bytes. Some properties state where the code does not do what it means to.

  \<^bold>\<open>Bounds.\<close> No fuel is used. Buffers of the processor have 65536 bytes, and the header
  limit is 65536 as well; the properties of the echo server ask that a peer send fewer than
  \<open>2 ^ 61\<close> bytes over a connection, or that each request fit in a string (\<open>servable\<close>), so that
  the handler can hold a request, whose header is at most five times as long as the bytes it
  was read from. The properties of a cycle ask that it be quick: that dispatching its events
  takes less than the inactivity period, so that no listener removed in it is idle in it. The
  property on slow cycles shows that this is needed.

  \<^bold>\<open>Not modelled.\<close> What \<open>inet_aton\<close> accepts, what \<open>inet_ntop\<close> writes and what the functions
  of the handler of an input descriptor do are parameters, for they come from elsewhere, and so is what
  \<open>strerrordesc_np\<close> says of an error number, in the text of a \<open>system_error\<close>. Type erasure
  and references (\<open>make_type_erased_ptr\<close>, \<open>fd_event_listener_ref\<close>, \<open>overload\<close>) have no
  counterpart: values and sums stand for them, and an integer for \<open>fd_ref\<close>. C++ concepts
  become records of operations, and what they promise beyond types, locales. Left out are the
  descriptor of the epoll instance; messages to stdout and stderr; and the state of a session
  after an exception in it, which the program abandons. Memory is unbounded: no allocation
  fails. The unit tests are programs of their own.
\<close>

end
